(* ===== verification/Wallet_Prelude.thy ===== *)
theory Wallet_Prelude
  imports Main "HOL-Library.Word"
begin

unbundle bit_operations_syntax

text \<open>
  Shared vocabulary of the development: the machine integers of the C code as words, the
  byte-addressed memory of the VMPL1 address space, runs of bytes in it, C strings, and the
  lemma collections the component theories simplify with.

  A C pointer is a \<open>64 word\<close>; pointer arithmetic wraps as it does on x86-64.  Memory is a
  total map from addresses to bytes: page faults are not modelled, so a theorem that speaks of
  an access says which addresses it touches.
\<close>

named_theorems mem_simps \<open>reading and writing runs of bytes\<close>
named_theorems range_simps \<open>membership in address ranges\<close>

type_synonym byte = "8 word"
type_synonym u16 = "16 word"
type_synonym u32 = "32 word"
type_synonym u64 = "64 word"
type_synonym addr = "64 word"
type_synonym mem = "addr \<Rightarrow> byte"

abbreviation (input) NULL :: addr where
  "NULL \<equiv> 0"

section \<open>Integer conversions of C\<close>

text \<open>\<open>(int)x\<close> for a 64-bit \<open>x\<close>: truncation to 32 bits, read as two's complement.\<close>

definition int_of_u64 :: "u64 \<Rightarrow> int" where
  "int_of_u64 x = sint (ucast x :: u32)"

text \<open>A conversion of a C \<open>int\<close> (or \<open>long\<close>) to \<open>uint64_t\<close>: reduction modulo \<open>2 ^ 64\<close>.\<close>

definition u64_of_int :: "int \<Rightarrow> u64" where
  "u64_of_int i = word_of_int i"

text \<open>Character and string literals of the C code as bytes.\<close>

abbreviation ch :: "char \<Rightarrow> byte" where
  "ch c \<equiv> of_char c"

abbreviation bytes_of :: "string \<Rightarrow> byte list" where
  "bytes_of s \<equiv> map of_char s"

section \<open>Address ranges\<close>

definition in_range :: "addr \<Rightarrow> nat \<Rightarrow> addr \<Rightarrow> bool" where
  "in_range p n a \<longleftrightarrow> unat (a - p) < n"

text \<open>Two ranges of the circular address space that do not meet.\<close>

definition separate :: "addr \<Rightarrow> nat \<Rightarrow> addr \<Rightarrow> nat \<Rightarrow> bool" where
  "separate p n q k \<longleftrightarrow> n \<le> unat (q - p) \<and> k \<le> unat (p - q)"

text \<open>A range that does not run past the end of the address space.\<close>

definition no_wrap :: "addr \<Rightarrow> nat \<Rightarrow> bool" where
  "no_wrap p n \<longleftrightarrow> unat p + n \<le> 2 ^ 64"

lemma unat_of_nat_u64 [simp]: "n < 2 ^ 64 \<Longrightarrow> unat (of_nat n :: u64) = n"
  by (simp add: unsigned_of_nat take_bit_nat_eq_self)

lemma unat_less_u64 [simp]: "unat (w :: u64) < 2 ^ 64"
  using unsigned_less [of w, where ?'a = nat] by simp

lemma unat_bound_u64 [simp]: "unat (w :: u64) < 18446744073709551616"
  using unat_less_u64 [of w] by simp

lemma unat_le_u64 [simp]: "unat (w :: u64) \<le> 18446744073709551616"
  using unat_bound_u64 [of w] by linarith

lemma unat_diff_swap: "p \<noteq> q \<Longrightarrow> unat (p - q :: u64) + unat (q - p) = 2 ^ 64"
  using unat_bound_u64 [of p] unat_bound_u64 [of q]
  by (auto simp add: unat_sub_if' word_unat_eq_iff simp del: unat_bound_u64)

lemma unat_sub_wrap: "(x :: u64) < y \<Longrightarrow> unat (x - y) = 2 ^ 64 + unat x - unat y"
  by (simp add: unat_sub_if' word_less_nat_alt)

lemma u64_dec_gt1:
  "1 < (r :: u64) \<Longrightarrow> 0 < r - 1" "1 < (r :: u64) \<Longrightarrow> unat (r - 1) = unat r - 1"
  "1 < (r :: u64) \<Longrightarrow> 1 < unat r"
  by (unat_arith, unat_arith, unat_arith)

lemma in_range_0 [simp, range_simps]: "\<not> in_range p 0 a"
  by (simp add: in_range_def)

lemma in_range_offset [range_simps]: "i < 2 ^ 64 \<Longrightarrow> in_range p n (p + of_nat i) \<longleftrightarrow> i < n"
  by (simp add: in_range_def)

lemma in_range_offsetI: "i < n \<Longrightarrow> n \<le> 2 ^ 64 \<Longrightarrow> in_range p n (p + of_nat i)"
  by (simp add: in_range_offset)

lemma in_rangeE:
  assumes "in_range p n a"
  obtains i where "i < n" "i < 2 ^ 64" "a = p + of_nat i"
proof -
  have "a = p + of_nat (unat (a - p))" by simp
  moreover have "unat (a - p) < 2 ^ 64" by (rule unat_less_u64)
  ultimately show ?thesis using assms that unfolding in_range_def by blast
qed

lemma in_range_Suc:
  "n < 2 ^ 64 \<Longrightarrow> in_range p (Suc n) a \<longleftrightarrow> a = p \<or> in_range (p + 1) n a"
proof -
  assume n: "n < 2 ^ 64"
  show ?thesis
  proof (cases "a = p")
    case True
    then show ?thesis by (simp add: in_range_def)
  next
    case False
    then have "a - p \<noteq> 0" by simp
    then have "unat (a - p - 1) = unat (a - p) - 1" "0 < unat (a - p)"
      by (simp_all add: unat_minus_one unat_gt_0)
    moreover have "unat (a - (p + 1)) = unat (a - p - 1)" by (simp add: algebra_simps)
    ultimately show ?thesis using False by (auto simp: in_range_def)
  qed
qed

lemma in_range_Suc_last:
  "n < 2 ^ 64 \<Longrightarrow> in_range p (Suc n) a \<longleftrightarrow> a = p + of_nat n \<or> in_range p n a"
proof -
  assume n: "n < 2 ^ 64"
  have "unat (a - p) = n \<longleftrightarrow> a = p + of_nat n"
  proof
    assume "unat (a - p) = n"
    then have "a - p = of_nat n" by auto
    then show "a = p + of_nat n" by (simp add: algebra_simps)
  next
    assume "a = p + of_nat n"
    then show "unat (a - p) = n" using n by simp
  qed
  then show ?thesis by (auto simp: in_range_def)
qed

lemma in_range_within: "i + k \<le> n \<Longrightarrow> in_range (p + of_nat i) k a \<Longrightarrow> in_range p n a"
proof (cases "i < 2 ^ 64")
  case True
  assume "i + k \<le> n" "in_range (p + of_nat i) k a"
  with True show ?thesis
    using unat_sub_if_size [of "a - p" "of_nat i"] by (auto simp: in_range_def diff_diff_eq word_le_nat_alt split: if_splits)
next
  case False
  assume "i + k \<le> n"
  with False show ?thesis using unat_less_u64 [of "a - p"] by (simp add: in_range_def del: unat_less_u64 unat_bound_u64)
qed

lemma separate_sym: "separate p n q k \<Longrightarrow> separate q k p n"
  by (simp add: separate_def)

lemma separate_disjoint:
  assumes "separate p n q k" "in_range p n a"
  shows "\<not> in_range q k a"
proof -
  have "unat (a - p) < unat (q - p)"
    using assms by (simp add: separate_def in_range_def)
  then have lt: "a - p < q - p" by (simp add: word_less_nat_alt)
  then have ne: "q - p \<noteq> 0" by (metis word_not_simps(1))
  then have pq: "unat (p - q) = 2 ^ 64 - unat (q - p)"
    using unat_diff_swap [of p q] by auto
  have "a - q = (a - p) - (q - p)" by simp
  then have "unat (a - q) = 2 ^ 64 + unat (a - p) - unat (q - p)"
    using unat_sub_wrap [OF lt] by argo
  then have "unat (p - q) \<le> unat (a - q)"
    using pq by simp
  then show ?thesis using assms(1) by (simp add: separate_def in_range_def)
qed

lemma separate_bound:
  assumes "separate p n q k"
  shows "n < 2 ^ 64" "k < 2 ^ 64"
  using assms unat_less_u64 [of "q - p"] unat_less_u64 [of "p - q"]
  unfolding separate_def by linarith+

lemma separate_neq:
  assumes "separate p n q k" "i < n" "j < k"
  shows "p + of_nat i \<noteq> q + of_nat j"
proof -
  have "i < 2 ^ 64" "j < 2 ^ 64"
    using separate_bound [OF assms(1)] assms(2,3) by linarith+
  then have "in_range p n (p + of_nat i)" "in_range q k (q + of_nat j)"
    using assms(2,3) by (simp_all add: in_range_offset)
  then show ?thesis using separate_disjoint [OF assms(1)] by metis
qed

lemma separate_step: "separate p (Suc n) q (Suc k) \<Longrightarrow> separate (p + 1) n (q + 1) k"
  by (simp add: separate_def)

lemma separate_step_left:
  assumes "separate p (Suc n) q k" "0 < n"
  shows "separate (p + 1) n q k"
proof -
  have ne: "q \<noteq> p" "q \<noteq> p + 1" using assms by (auto simp: separate_def)
  then have "unat (q - p - 1) = unat (q - p) - 1" by (simp add: unat_minus_one)
  moreover have "unat (1 + (p - q)) = Suc (unat (p - q))"
    by (rule unatSuc) (use ne(2) in \<open>simp add: algebra_simps\<close>)
  ultimately show ?thesis
    using assms by (simp add: separate_def algebra_simps) linarith
qed

lemma separate_mono: "separate p n q k \<Longrightarrow> n' \<le> n \<Longrightarrow> k' \<le> k \<Longrightarrow> separate p n' q k'"
  by (simp add: separate_def)

section \<open>Alignment\<close>

text \<open>\<open>(val + align - 1) & ~(align - 1)\<close>, which several files of the program define for themselves.\<close>

definition align_up :: "u64 \<Rightarrow> u64 \<Rightarrow> u64" where
  "align_up val align = (val + align - 1) AND NOT (align - 1)"

definition page_up :: "nat \<Rightarrow> nat" where
  "page_up n = (n + 4095) div 4096 * 4096"

lemma and_not_4095: "unat ((x :: u64) AND NOT 4095) = unat x div 4096 * 4096"
proof -
  have m: "(4095 :: u64) = mask 12" by (simp add: mask_eq_exp_minus_1)
  have "x AND NOT (mask 12) = push_bit 12 (drop_bit 12 x)"
    by (rule bit_eqI) (auto simp: bit_simps)
  then have "x AND NOT 4095 = x div 4096 * 4096"
    unfolding m by (simp add: push_bit_eq_mult drop_bit_eq_div)
  moreover have d: "unat (x div 4096) = unat x div 4096" by (simp add: unat_div)
  moreover have "unat (x div 4096 * 4096) = unat (x div 4096) * unat (4096 :: u64)"
  proof (rule iffD1 [OF unat_mult_lem])
    have "unat x div 4096 * 4096 < 2 ^ 64"
      using unat_less_u64 [of x] div_times_less_eq_dividend [of "unat x" 4096] by linarith
    moreover have "unat (4096 :: u64) = 4096" by simp
    ultimately show "unat (x div 4096) * unat (4096 :: u64) < 2 ^ LENGTH(64)"
      by (simp only: d len_num1 len_bit0 len_num0) simp
  qed
  ultimately show ?thesis by simp
qed

lemma align_up_page:
  assumes "unat n + 4095 < 2 ^ 64"
  shows "unat (align_up n 4096) = page_up (unat n)"
proof -
  have "unat (n + 4095) = unat n + 4095" using assms by (simp add: unat_word_ariths)
  moreover have "align_up n 4096 = (n + 4095) AND NOT 4095"
    by (simp only: align_up_def) (simp add: add.commute)
  ultimately show ?thesis by (simp only: and_not_4095 page_up_def)
qed

lemma page_up_ge: "n \<le> page_up n" and page_up_le: "page_up n \<le> n + 4095"
  using div_mult_mod_eq [of "n + 4095" 4096] mod_less_divisor [of 4096 "n + 4095"]
  unfolding page_up_def by linarith+

lemma page_up_dvd [simp]: "4096 dvd page_up n"
  by (simp add: page_up_def)

section \<open>Runs of bytes\<close>

primrec read_bytes :: "mem \<Rightarrow> addr \<Rightarrow> nat \<Rightarrow> byte list" where
  "read_bytes m p 0 = []"
| "read_bytes m p (Suc n) = m p # read_bytes m (p + 1) n"

primrec write_bytes :: "mem \<Rightarrow> addr \<Rightarrow> byte list \<Rightarrow> mem" where
  "write_bytes m p [] = m"
| "write_bytes m p (b # bs) = write_bytes (m(p := b)) (p + 1) bs"

lemma length_read_bytes [simp, mem_simps]: "length (read_bytes m p n) = n"
  by (induction n arbitrary: p) auto

lemma nth_read_bytes [mem_simps]: "i < n \<Longrightarrow> read_bytes m p n ! i = m (p + of_nat i)"
proof (induction n arbitrary: p i)
  case (Suc n)
  then show ?case by (cases i) (auto simp: add.assoc)
qed simp

lemma read_bytes_conv_map: "read_bytes m p n = map (\<lambda>i. m (p + of_nat i)) [0..<n]"
  by (rule nth_equalityI) (simp_all add: nth_read_bytes)

lemma read_bytes_cong:
  "(\<And>i. i < n \<Longrightarrow> m (p + of_nat i) = m' (q + of_nat i)) \<Longrightarrow> read_bytes m p n = read_bytes m' q n"
  by (simp add: read_bytes_conv_map)

lemma read_bytes_add: "read_bytes m p (i + j) = read_bytes m p i @ read_bytes m (p + of_nat i) j"
  by (induction i arbitrary: p) (auto simp: add.assoc)

lemma read_bytes_Suc_last: "read_bytes m p (Suc n) = read_bytes m p n @ [m (p + of_nat n)]"
  using read_bytes_add [of m p n 1] by simp

lemma write_bytes_other [mem_simps]:
  "length bs \<le> 2 ^ 64 \<Longrightarrow> \<not> in_range p (length bs) a \<Longrightarrow> write_bytes m p bs a = m a"
proof (induction bs arbitrary: m p)
  case (Cons b bs)
  then have "a \<noteq> p" "\<not> in_range (p + 1) (length bs) a"
    by (auto simp: in_range_Suc)
  with Cons show ?case by simp
qed simp

lemma write_bytes_nth [mem_simps]:
  "length bs \<le> 2 ^ 64 \<Longrightarrow> i < length bs \<Longrightarrow> write_bytes m p bs (p + of_nat i) = bs ! i"
proof (induction bs arbitrary: m p i)
  case (Cons b bs)
  show ?case
  proof (cases i)
    case 0
    have "\<not> in_range (p + 1) (length bs) p"
    proof -
      have "unat (p - (p + 1)) = 2 ^ 64 - 1"
        using unat_diff_swap [of p "p + 1"] by simp
      with Cons.prems show ?thesis by (simp add: in_range_def)
    qed
    with 0 Cons.prems show ?thesis by (simp add: write_bytes_other)
  next
    case (Suc j)
    then have "p + of_nat i = (p + 1) + of_nat j" by (simp add: add.assoc)
    moreover have "write_bytes (m(p := b)) (p + 1) bs ((p + 1) + of_nat j) = bs ! j"
      by (rule Cons.IH) (use Suc Cons.prems in auto)
    ultimately show ?thesis
      using Suc by (simp only: write_bytes.simps nth_Cons_Suc)
  qed
qed simp

lemma read_write_bytes [mem_simps]:
  "length bs \<le> 2 ^ 64 \<Longrightarrow> read_bytes (write_bytes m p bs) p (length bs) = bs"
  by (rule nth_equalityI) (simp_all add: nth_read_bytes write_bytes_nth)

lemma read_bytes_write_separate [mem_simps]:
  assumes "separate p (length bs) q n" "length bs \<le> 2 ^ 64" "n \<le> 2 ^ 64"
  shows "read_bytes (write_bytes m p bs) q n = read_bytes m q n"
proof (rule read_bytes_cong)
  fix i assume "i < n"
  then have "in_range q n (q + of_nat i)"
    using assms(3) by (simp add: in_range_offset)
  then have "\<not> in_range p (length bs) (q + of_nat i)"
    using separate_disjoint [OF separate_sym [OF assms(1)]] by blast
  with assms(2) show "write_bytes m p bs (q + of_nat i) = m (q + of_nat i)"
    by (rule write_bytes_other)
qed

lemma write_bytes_append:
  "write_bytes m p (xs @ ys) = write_bytes (write_bytes m p xs) (p + of_nat (length xs)) ys"
  by (induction xs arbitrary: m p) (auto simp: add.assoc)

lemma write_bytes_eqI:
  assumes "length bs \<le> 2 ^ 64"
    and "\<And>a. \<not> in_range p (length bs) a \<Longrightarrow> m' a = m a"
    and "read_bytes m' p (length bs) = bs"
  shows "m' = write_bytes m p bs"
proof
  fix a
  show "m' a = write_bytes m p bs a"
  proof (cases "in_range p (length bs) a")
    case True
    then obtain i where i: "i < length bs" "a = p + of_nat i" by (rule in_rangeE)
    then have "m' a = bs ! i"
      using assms(3) nth_read_bytes [of i "length bs" m' p] by simp
    with i assms(1) show ?thesis by (simp add: write_bytes_nth)
  next
    case False
    with assms show ?thesis by (simp add: write_bytes_other)
  qed
qed

lemma write_bytes_fun:
  assumes "length bs \<le> 2 ^ 64"
  shows "write_bytes m p bs = (\<lambda>a. if in_range p (length bs) a then bs ! unat (a - p) else m a)"
proof
  fix a
  show "write_bytes m p bs a = (if in_range p (length bs) a then bs ! unat (a - p) else m a)"
    using write_bytes_nth [OF assms, of "unat (a - p)" m p] write_bytes_other [OF assms, of p a m]
    by (auto simp: in_range_def)
qed

section \<open>C strings\<close>

text \<open>\<open>cstr_at m p s\<close>: the bytes \<open>s\<close>, none of them NUL, stand at \<open>p\<close>, followed by a NUL.\<close>

primrec cstr_at :: "mem \<Rightarrow> addr \<Rightarrow> byte list \<Rightarrow> bool" where
  "cstr_at m p [] \<longleftrightarrow> m p = 0"
| "cstr_at m p (c # s) \<longleftrightarrow> c \<noteq> 0 \<and> m p = c \<and> cstr_at m (p + 1) s"

lemma cstr_at_unique: "cstr_at m p s \<Longrightarrow> cstr_at m p t \<Longrightarrow> s = t"
proof (induction s arbitrary: p t)
  case Nil
  then show ?case by (cases t) auto
next
  case (Cons c s)
  then show ?case by (cases t) auto
qed

lemma cstr_at_read: "cstr_at m p s \<Longrightarrow> read_bytes m p (Suc (length s)) = s @ [0]"
proof (induction s arbitrary: p)
  case (Cons c s)
  then have "read_bytes m (p + 1) (Suc (length s)) = s @ [0]" and "m p = c"
    by (simp_all only: cstr_at.simps)
  then show ?case by (simp only: read_bytes.simps list.size append.simps add_0_right add_Suc_right)
qed simp

lemma cstr_at_conv_read:
  "cstr_at m p s \<longleftrightarrow> 0 \<notin> set s \<and> read_bytes m p (length s) = s \<and> m (p + of_nat (length s)) = 0"
  by (induction s arbitrary: p) (auto simp: add.assoc)

lemma cstr_at_nonzero: "cstr_at m p s \<Longrightarrow> c \<in> set s \<Longrightarrow> c \<noteq> 0"
  by (induction s arbitrary: p) auto

lemma cstr_at_cong:
  assumes "\<And>i. i \<le> length s \<Longrightarrow> m (p + of_nat i) = m' (p + of_nat i)"
  shows "cstr_at m p s \<longleftrightarrow> cstr_at m' p s"
proof -
  have "read_bytes m p (length s) = read_bytes m' p (length s)"
    by (rule read_bytes_cong) (simp add: assms)
  moreover have "m (p + of_nat (length s)) = m' (p + of_nat (length s))"
    by (simp add: assms)
  ultimately show ?thesis by (simp add: cstr_at_conv_read)
qed

lemma cstr_at_length:
  assumes "cstr_at m p s"
  shows "length s < 2 ^ 64"
proof (rule ccontr)
  assume "\<not> length s < 2 ^ 64"
  define i where "i = length s mod 2 ^ 64"
  have i: "i < length s"
    using \<open>\<not> length s < 2 ^ 64\<close> mod_less_divisor [of "2 ^ 64" "length s"] unfolding i_def by simp
  have "(of_nat i :: u64) = of_nat (length s)"
    by (simp add: i_def word_unat_eq_iff unsigned_of_nat take_bit_nat_def)
  then have "s ! i = 0"
    using assms i nth_read_bytes [OF i, of m p] by (simp add: cstr_at_conv_read)
  with i assms show False by (metis cstr_at_nonzero nth_mem)
qed

lemma cstr_at_write:
  assumes "0 \<notin> set s" "length s < 2 ^ 64"
  shows "cstr_at (write_bytes m p (s @ [0])) p s"
proof -
  have "read_bytes (write_bytes m p (s @ [0])) p (Suc (length s)) = s @ [0]"
    using read_write_bytes [of "s @ [0]" m p] assms(2) by simp
  then show ?thesis
    using assms(1) unfolding read_bytes_Suc_last by (simp add: cstr_at_conv_read)
qed

lemma cstr_at_nth:
  assumes "cstr_at m p s" "i \<le> length s"
  shows "m (p + of_nat i) = (s @ [0]) ! i"
  using assms cstr_at_read [OF assms(1)] nth_read_bytes [of i "Suc (length s)" m p] by simp

section \<open>Little-endian integers in memory\<close>

primrec le_bytes :: "nat \<Rightarrow> 'a :: len word \<Rightarrow> byte list" where
  "le_bytes 0 w = []"
| "le_bytes (Suc n) w = ucast w # le_bytes n (drop_bit 8 w)"

primrec le_word :: "byte list \<Rightarrow> 'a :: len word" where
  "le_word [] = 0"
| "le_word (b # bs) = ucast b OR push_bit 8 (le_word bs)"

definition store64 :: "mem \<Rightarrow> addr \<Rightarrow> u64 \<Rightarrow> mem" where
  "store64 m p w = write_bytes m p (le_bytes 8 w)"

definition load64 :: "mem \<Rightarrow> addr \<Rightarrow> u64" where
  "load64 m p = le_word (read_bytes m p 8)"

definition store32 :: "mem \<Rightarrow> addr \<Rightarrow> u32 \<Rightarrow> mem" where
  "store32 m p w = write_bytes m p (le_bytes 4 w)"

definition load32 :: "mem \<Rightarrow> addr \<Rightarrow> u32" where
  "load32 m p = le_word (read_bytes m p 4)"

lemma length_le_bytes [simp]: "length (le_bytes n w) = n"
  by (induction n arbitrary: w) auto

lemma le_word_le_bytes: "le_word (le_bytes n w) = take_bit (8 * n) w"
proof (induction n arbitrary: w)
  case (Suc n)
  have "ucast (ucast w :: byte) OR push_bit 8 (take_bit (8 * n) (drop_bit 8 w))
          = take_bit (8 * Suc n) w"
    by (rule bit_eqI)
      (auto simp: bit_simps bit_take_bit_iff bit_drop_bit_eq possible_bit_def less_diff_conv2)
  then show ?case by (simp add: Suc)
qed simp

lemma take_bit_full: "LENGTH('a :: len) \<le> n \<Longrightarrow> take_bit n (w :: 'a word) = w"
  by (rule bit_eqI) (auto simp: bit_take_bit_iff dest: bit_imp_le_length)

lemma load64_store64 [simp, mem_simps]: "load64 (store64 m p w) p = w"
  using read_write_bytes [of "le_bytes 8 w" m p]
  by (simp add: load64_def store64_def le_word_le_bytes take_bit_full)

lemma load32_store32 [simp, mem_simps]: "load32 (store32 m p w) p = w"
  using read_write_bytes [of "le_bytes 4 w" m p]
  by (simp add: load32_def store32_def le_word_le_bytes take_bit_full)

lemma store64_other [mem_simps]: "\<not> in_range p 8 a \<Longrightarrow> store64 m p w a = m a"
  by (simp add: store64_def write_bytes_other)

lemma store32_other [mem_simps]: "\<not> in_range p 4 a \<Longrightarrow> store32 m p w a = m a"
  by (simp add: store32_def write_bytes_other)

lemma load64_store64_separate [mem_simps]:
  "separate p 8 q 8 \<Longrightarrow> load64 (store64 m p w) q = load64 m q"
  by (simp add: load64_def store64_def read_bytes_write_separate)

text \<open>A loop that copies byte by byte between separate runs.\<close>

lemma copy_loop_write:
  assumes "separate d n p n" "n \<le> 2 ^ 64"
  shows "fold (\<lambda>i m. m(d + of_nat i := m (p + of_nat i))) [0..<n] m = write_bytes m d (read_bytes m p n)"
proof -
  have "fold (\<lambda>i m. m(d + of_nat i := m (p + of_nat i))) [0..<k] m = write_bytes m d (read_bytes m p k)"
    if "k \<le> n" for k
    using that
  proof (induction k)
    case (Suc k)
    have "in_range p n (p + of_nat k)" using Suc.prems assms(2) by (intro in_range_offsetI) auto
    then have "\<not> in_range d n (p + of_nat k)"
      using separate_disjoint [OF separate_sym [OF assms(1)]] by blast
    then have "\<not> in_range d k (p + of_nat k)" using Suc.prems by (simp add: in_range_def)
    then have "write_bytes m d (read_bytes m p k) (p + of_nat k) = m (p + of_nat k)"
      using Suc.prems assms(2) by (intro write_bytes_other) auto
    then show ?case using Suc by (simp add: read_bytes_Suc_last write_bytes_append del: read_bytes.simps fun_upd_apply)
  qed simp
  then show ?thesis by simp
qed

end
