(* ===== verification/Pal_Memory.thy ===== *)
theory Pal_Memory
  imports Wallet_Prelude
begin

text \<open>
  The memory operations of \<open>wamr-pal/pal_string.c\<close>: \<open>memset\<close>, \<open>memcpy\<close>, \<open>memmove\<close> and
  \<open>memcmp\<close>.  The C bodies are single REP-prefixed x86 string instructions, so the model
  gives the instructions their register semantics (\<open>rdi\<close>, \<open>rsi\<close>, \<open>rcx\<close>, the direction flag)
  and the C functions call them.  The lemmas relate them to runs of bytes.
\<close>

section \<open>The REP string instructions\<close>

function rep_stosb :: "byte \<Rightarrow> mem \<Rightarrow> addr \<Rightarrow> u64 \<Rightarrow> mem \<times> addr \<times> u64" where
  "rep_stosb al m rdi rcx =
     (if rcx = 0 then (m, rdi, rcx) else rep_stosb al (m(rdi := al)) (rdi + 1) (rcx - 1))"
  by pat_completeness auto
termination
  by (relation "measure (\<lambda>(al, m, rdi, rcx). unat rcx)") (auto simp: measure_unat)

text \<open>\<open>df\<close> is the direction flag: set by \<open>std\<close>, it makes the pointers go down.\<close>

function rep_movsb :: "bool \<Rightarrow> mem \<Rightarrow> addr \<Rightarrow> addr \<Rightarrow> u64 \<Rightarrow> mem \<times> addr \<times> addr \<times> u64" where
  "rep_movsb df m rdi rsi rcx =
     (if rcx = 0 then (m, rdi, rsi, rcx)
      else (let d = (if df then - 1 else 1)
            in rep_movsb df (m(rdi := m rsi)) (rdi + d) (rsi + d) (rcx - 1)))"
  by pat_completeness auto
termination
  by (relation "measure (\<lambda>(df, m, rdi, rsi, rcx). unat rcx)") (auto simp: measure_unat)

function repe_cmpsb :: "mem \<Rightarrow> addr \<Rightarrow> addr \<Rightarrow> u64 \<Rightarrow> addr \<times> addr \<times> u64" where
  "repe_cmpsb m rsi rdi rcx =
     (if rcx = 0 then (rsi, rdi, rcx)
      else if m rsi = m rdi then repe_cmpsb m (rsi + 1) (rdi + 1) (rcx - 1)
      else (rsi + 1, rdi + 1, rcx - 1))"
  by pat_completeness auto
termination
  by (relation "measure (\<lambda>(m, rsi, rdi, rcx). unat rcx)") (auto simp: measure_unat)

declare rep_stosb.simps [simp del] rep_movsb.simps [simp del] repe_cmpsb.simps [simp del]

section \<open>The C functions\<close>

text \<open>Each returns its C result and the memory after the call.\<close>

definition memset :: "mem \<Rightarrow> addr \<Rightarrow> int \<Rightarrow> u64 \<Rightarrow> addr \<times> mem" where
  "memset m s c n = (let (m', _, _) = rep_stosb (word_of_int c) m s n in (s, m'))"

definition memcpy :: "mem \<Rightarrow> addr \<Rightarrow> addr \<Rightarrow> u64 \<Rightarrow> addr \<times> mem" where
  "memcpy m dest src n = (let (m', _, _, _) = rep_movsb False m dest src n in (dest, m'))"

definition memmove :: "mem \<Rightarrow> addr \<Rightarrow> addr \<Rightarrow> u64 \<Rightarrow> addr \<times> mem" where
  "memmove m dest src n =
     (if n = 0 then (dest, m)
      else if dest \<le> src \<or> src + n \<le> dest
      then (let (m', _, _, _) = rep_movsb False m dest src n in (dest, m'))
      else (let d_last = dest + n - 1; s_last = src + n - 1;
                (m', _, _, _) = rep_movsb True m d_last s_last n
            in (dest, m')))"

definition memcmp :: "mem \<Rightarrow> addr \<Rightarrow> addr \<Rightarrow> u64 \<Rightarrow> int" where
  "memcmp m s1 s2 n =
     (if n = 0 then 0
      else (let (a, b, rcx) = repe_cmpsb m s1 s2 n
            in if rcx = 0 then 0 else uint (m (a - 1)) - uint (m (b - 1))))"

section \<open>What the instructions do\<close>

lemma unat_Suc_dec:
  assumes "Suc k = unat (rcx :: u64)"
  shows "rcx \<noteq> 0" "unat (rcx - 1) = k"
proof -
  show "rcx \<noteq> 0" using assms by auto
  then show "unat (rcx - 1) = k" using assms by (simp add: unat_minus_one)
qed

lemma rep_stosb_write:
  "fst (rep_stosb al m rdi rcx) = write_bytes m rdi (replicate (unat rcx) al)"
proof (induction "unat rcx" arbitrary: m rdi rcx)
  case 0
  then show ?case by (simp add: rep_stosb.simps unat_eq_0)
next
  case (Suc k)
  note dec = unat_Suc_dec [OF Suc.hyps(2)]
  have "fst (rep_stosb al m rdi rcx) = fst (rep_stosb al (m(rdi := al)) (rdi + 1) (rcx - 1))"
    using dec by (simp add: rep_stosb.simps [of al m rdi rcx])
  also have "\<dots> = write_bytes (m(rdi := al)) (rdi + 1) (replicate k al)"
    using Suc.hyps(1) [of "rcx - 1" "m(rdi := al)" "rdi + 1"] dec by simp
  finally show ?case using Suc.hyps(2) by (simp flip: Suc.hyps(2))
qed

text \<open>A forward copy is a block copy when no write hits a byte that is still to be read.\<close>

lemma rep_movsb_forward:
  assumes "\<And>i j. i < unat rcx \<Longrightarrow> j < i \<Longrightarrow> rdi + of_nat j \<noteq> rsi + of_nat i"
  shows "fst (rep_movsb False m rdi rsi rcx) = write_bytes m rdi (read_bytes m rsi (unat rcx))"
  using assms
proof (induction "unat rcx" arbitrary: m rdi rsi rcx)
  case 0
  then show ?case by (simp add: rep_movsb.simps unat_eq_0)
next
  case (Suc k)
  note dec = unat_Suc_dec [OF Suc.hyps(2)]
  let ?m = "m(rdi := m rsi)"
  have ahead: "rdi + 1 + of_nat j \<noteq> rsi + 1 + of_nat i" if "i < k" "j < i" for i j
    using Suc.prems [of "Suc i" "Suc j"] that Suc.hyps(2) by (simp add: algebra_simps)
  have keep: "read_bytes ?m (rsi + 1) k = read_bytes m (rsi + 1) k"
  proof (rule read_bytes_cong)
    fix i assume "i < k"
    then have "rdi \<noteq> rsi + 1 + of_nat i"
      using Suc.prems [of "Suc i" 0] Suc.hyps(2) by (simp add: algebra_simps)
    then show "?m (rsi + 1 + of_nat i) = m (rsi + 1 + of_nat i)" by simp
  qed
  have "fst (rep_movsb False m rdi rsi rcx) = fst (rep_movsb False ?m (rdi + 1) (rsi + 1) (rcx - 1))"
    using dec by (simp add: rep_movsb.simps [of False m rdi rsi rcx])
  also have "\<dots> = write_bytes ?m (rdi + 1) (read_bytes ?m (rsi + 1) k)"
    using Suc.hyps(1) [of "rcx - 1" "rdi + 1" "rsi + 1" ?m] dec ahead by simp
  also have "\<dots> = write_bytes m rdi (read_bytes m rsi (Suc k))"
    by (simp only: keep read_bytes.simps write_bytes.simps)
  finally show ?case by (simp flip: Suc.hyps(2))
qed

lemma write_bytes_upd_outside:
  assumes "length bs \<le> 2 ^ 64" "\<not> in_range p (length bs) a"
  shows "write_bytes (m(a := v)) p bs = (write_bytes m p bs)(a := v)"
proof
  fix x
  show "write_bytes (m(a := v)) p bs x = ((write_bytes m p bs)(a := v)) x"
  proof (cases "in_range p (length bs) x")
    case True
    then obtain i where "i < length bs" "x = p + of_nat i" by (rule in_rangeE)
    moreover have "x \<noteq> a" using True assms(2) by blast
    ultimately show ?thesis using assms(1) by (simp add: write_bytes_nth)
  next
    case False
    then show ?thesis using assms by (simp add: write_bytes_other)
  qed
qed

lemma rep_movsb_backward:
  assumes "\<And>i j. j < unat rcx \<Longrightarrow> i < j \<Longrightarrow> d + of_nat j \<noteq> s + of_nat i"
  shows "fst (rep_movsb True m (d + rcx - 1) (s + rcx - 1) rcx)
           = write_bytes m d (read_bytes m s (unat rcx))"
  using assms
proof (induction "unat rcx" arbitrary: m rcx)
  case 0
  then show ?case by (simp add: rep_movsb.simps unat_eq_0)
next
  case (Suc k)
  note dec = unat_Suc_dec [OF Suc.hyps(2)]
  have last: "of_nat k = rcx - 1" using dec(2) by (simp flip: dec(2))
  let ?v = "m (s + of_nat k)"
  let ?m = "m(d + of_nat k := ?v)"
  have k: "k < 2 ^ 64" using dec unat_less_u64 by metis
  have out: "\<not> in_range d k (d + of_nat k)" using k by (simp add: in_range_offset)
  have keep: "read_bytes ?m s k = read_bytes m s k"
  proof (rule read_bytes_cong)
    fix i assume "i < k"
    then have "d + of_nat k \<noteq> s + of_nat i" using Suc.prems [of k i] Suc.hyps(2) by simp
    then show "?m (s + of_nat i) = m (s + of_nat i)" by simp
  qed
  have "fst (rep_movsb True m (d + rcx - 1) (s + rcx - 1) rcx)
          = fst (rep_movsb True ?m (d + (rcx - 1) - 1) (s + (rcx - 1) - 1) (rcx - 1))"
    using dec by (simp add: rep_movsb.simps [of True m "d + rcx - 1"] last algebra_simps)
  also have "\<dots> = write_bytes ?m d (read_bytes ?m s k)"
    using Suc.hyps(1) [of "rcx - 1" ?m] Suc.prems dec Suc.hyps(2) by simp
  also have "\<dots> = (write_bytes m d (read_bytes m s k))(d + of_nat k := ?v)"
    unfolding keep using out k by (intro write_bytes_upd_outside) simp_all
  also have "\<dots> = write_bytes m d (read_bytes m s (Suc k))"
    by (simp only: read_bytes_Suc_last write_bytes_append length_read_bytes write_bytes.simps)
  finally show ?case by (simp flip: Suc.hyps(2))
qed

section \<open>Correctness of memset, memcpy and memmove\<close>

lemma memset_write: "memset m s c n = (s, write_bytes m s (replicate (unat n) (word_of_int c)))"
  using rep_stosb_write [of "word_of_int c" m s n]
  by (simp add: memset_def case_prod_unfold)

lemma memcpy_write:
  assumes "separate dest (unat n) src (unat n)"
  shows "memcpy m dest src n = (dest, write_bytes m dest (read_bytes m src (unat n)))"
proof -
  have "dest + of_nat j \<noteq> src + of_nat i" if "i < unat n" "j < i" for i j
  proof -
    have b: "i < 2 ^ 64" "j < 2 ^ 64" using that unat_less_u64 [of n] by linarith+
    then have "in_range dest (unat n) (dest + of_nat j)" "in_range src (unat n) (src + of_nat i)"
      using that by (simp_all add: in_range_offset)
    then show ?thesis using separate_disjoint [OF assms] by metis
  qed
  then have "fst (rep_movsb False m dest src n) = write_bytes m dest (read_bytes m src (unat n))"
    by (rule rep_movsb_forward)
  then show ?thesis by (simp add: memcpy_def case_prod_unfold)
qed

lemma unat_add_no_wrap: "no_wrap p n \<Longrightarrow> i < n \<Longrightarrow> unat (p + of_nat i) = unat p + i"
  by (simp add: no_wrap_def unat_word_ariths)

lemma memmove_write:
  assumes src: "unat src + unat n < 2 ^ 64" and dest: "no_wrap dest (unat n)"
  shows "memmove m dest src n = (dest, write_bytes m dest (read_bytes m src (unat n)))"
proof (cases "n = 0")
  case True
  then show ?thesis by (simp add: memmove_def)
next
  case n: False
  have nw: "no_wrap src (unat n)" using src by (simp add: no_wrap_def)
  have sn: "unat (src + n) = unat src + unat n"
    using src by (simp add: unat_word_ariths)
  show ?thesis
  proof (cases "dest \<le> src \<or> src + n \<le> dest")
    case True
    have "dest + of_nat j \<noteq> src + of_nat i" if "i < unat n" "j < i" for i j
    proof -
      have "unat (dest + of_nat j) = unat dest + j" "unat (src + of_nat i) = unat src + i"
        using that unat_add_no_wrap [OF dest, of j] unat_add_no_wrap [OF nw, of i] by simp_all
      moreover have "unat dest \<le> unat src \<or> unat src + unat n \<le> unat dest"
        using True sn by (simp add: word_le_nat_alt)
      ultimately have "unat (dest + of_nat j) \<noteq> unat (src + of_nat i)"
        using that by linarith
      then show ?thesis by metis
    qed
    from rep_movsb_forward [OF this, of n] True n show ?thesis
      by (simp add: memmove_def case_prod_unfold)
  next
    case False
    have "dest + of_nat j \<noteq> src + of_nat i" if "j < unat n" "i < j" for i j
    proof -
      have "unat (dest + of_nat j) = unat dest + j" "unat (src + of_nat i) = unat src + i"
        using that unat_add_no_wrap [OF dest, of j] unat_add_no_wrap [OF nw, of i] by simp_all
      moreover have "unat src < unat dest"
        using False by (simp add: word_le_nat_alt)
      ultimately have "unat (dest + of_nat j) \<noteq> unat (src + of_nat i)"
        using that by linarith
      then show ?thesis by metis
    qed
    from rep_movsb_backward [OF this, of n m] False n show ?thesis
      by (simp add: memmove_def case_prod_unfold)
  qed
qed

section \<open>memcmp against the C standard\<close>

text \<open>The reference: the difference of the first pair of bytes that differ, 0 if none do.\<close>

fun memcmp_ref :: "byte list \<Rightarrow> byte list \<Rightarrow> int" where
  "memcmp_ref (x # xs) (y # ys) = (if x = y then memcmp_ref xs ys else uint x - uint y)"
| "memcmp_ref _ _ = 0"

lemma memcmp_ref_refl [simp]: "memcmp_ref xs xs = 0"
  by (induction xs) auto

lemma memcmp_ref_eq_0: "length xs = length ys \<Longrightarrow> memcmp_ref xs ys = 0 \<longleftrightarrow> xs = ys"
  by (induction xs ys rule: memcmp_ref.induct) (auto simp: word_uint_eq_iff)

text \<open>
  The instruction stops after the first difference, with \<open>rcx\<close> already decremented; the body
  takes \<open>rcx = 0\<close> for equality, so a difference in the last byte counts as equality.
\<close>

lemma memcmp_loop:
  "(let (a, b, rcx) = repe_cmpsb m s1 s2 n
    in if rcx = 0 then 0 else uint (m (a - 1)) - uint (m (b - 1)))
   = memcmp_ref (read_bytes m s1 (unat n - 1)) (read_bytes m s2 (unat n - 1))"
proof (induction "unat n" arbitrary: s1 s2 n)
  case 0
  then show ?case by (simp add: repe_cmpsb.simps unat_eq_0)
next
  case (Suc k)
  note dec = unat_Suc_dec [OF Suc.hyps(2)]
  show ?case
  proof (cases "m s1 = m s2")
    case True
    have "repe_cmpsb m s1 s2 n = repe_cmpsb m (s1 + 1) (s2 + 1) (n - 1)"
      using dec True by (simp add: repe_cmpsb.simps [of m s1 s2 n])
    with Suc.hyps(1) [of "n - 1" "s1 + 1" "s2 + 1"] dec True show ?thesis
      by (cases k) (simp_all flip: Suc.hyps(2))
  next
    case False
    have "repe_cmpsb m s1 s2 n = (s1 + 1, s2 + 1, n - 1)"
      using dec False by (simp add: repe_cmpsb.simps [of m s1 s2 n])
    moreover have "n - 1 = 0 \<longleftrightarrow> k = 0" using dec by (metis unat_eq_0)
    ultimately show ?thesis
      using False by (cases k) (simp_all flip: Suc.hyps(2))
  qed
qed

lemma memcmp_char:
  "memcmp m s1 s2 n = memcmp_ref (read_bytes m s1 (unat n - 1)) (read_bytes m s2 (unat n - 1))"
  using memcmp_loop [of m s1 s2 n] by (simp add: memcmp_def unat_eq_0)

lemma memcmp_zero_iff:
  "memcmp m s1 s2 n = 0 \<longleftrightarrow> read_bytes m s1 (unat n - 1) = read_bytes m s2 (unat n - 1)"
  by (simp add: memcmp_char memcmp_ref_eq_0)

section \<open>Properties\<close>

text \<open>
  \<open>memset\<close> returns its pointer and stores the low byte of \<open>c\<close> in exactly the \<open>n\<close> bytes
  at \<open>s\<close>; every other byte of memory keeps its value.
\<close>
lemma memset_fills:
  "memset m s c n = (s, \<lambda>a. if in_range s (unat n) a then word_of_int c else m a)"
  by (simp add: memset_write write_bytes_fun in_range_def cong: if_cong)

text \<open>
  \<open>memcpy\<close> on ranges that do not meet leaves in the destination, byte for byte, what the
  source held before the call, and changes nothing else.
\<close>
theorem memcpy_copies:
  assumes "separate dest (unat n) src (unat n)"
  shows "memcpy m dest src n
           = (dest, \<lambda>a. if in_range dest (unat n) a then m (src + (a - dest)) else m a)"
  by (simp add: memcpy_write [OF assms] write_bytes_fun in_range_def nth_read_bytes cong: if_cong)

theorem memcpy_copies_witness:
  "separate 0x2000 (unat (16 :: u64)) 0x1000 (unat (16 :: u64))
   \<and> memcpy (\<lambda>a. ucast a) 0x2000 0x1000 16
       = (0x2000, \<lambda>a. if in_range 0x2000 (unat (16 :: u64)) a
                       then (\<lambda>a. ucast a) (0x1000 + (a - 0x2000)) else ucast a)"
  using memcpy_copies [of "0x2000" 16 "0x1000" "\<lambda>a. ucast a"] by (simp add: separate_def)

text \<open>
  \<open>memmove\<close> copies correctly even when source and destination overlap: the destination
  holds the bytes the source held before the call.  Both ranges must lie inside the address space.
\<close>
lemma memmove_copies:
  assumes "unat src + unat n < 2 ^ 64" "no_wrap dest (unat n)"
  shows "memmove m dest src n
           = (dest, \<lambda>a. if in_range dest (unat n) a then m (src + (a - dest)) else m a)"
  by (simp add: memmove_write [OF assms] write_bytes_fun in_range_def nth_read_bytes cong: if_cong)

theorem memmove_copies_witness:
  "unat (0x1000 :: u64) + unat (16 :: u64) < 2 ^ 64 \<and> no_wrap 0x1004 (unat (16 :: u64))
   \<and> memmove (\<lambda>a. ucast a) 0x1004 0x1000 16
       = (0x1004, \<lambda>a. if in_range 0x1004 (unat (16 :: u64)) a
                       then (\<lambda>a. ucast a) (0x1000 + (a - 0x1004)) else ucast a)"
  using memmove_copies [of "0x1000" 16 "0x1004" "\<lambda>a. ucast a"] by (simp add: no_wrap_def)

text \<open>
  \<open>memcmp\<close> returns the C-standard result for the first \<open>n - 1\<close> bytes only: it is 0 exactly
  when these agree, so two buffers that differ in their last byte compare equal.
\<close>
theorem memcmp_ignores_last_byte:
  "memcmp m s1 s2 n = memcmp_ref (read_bytes m s1 (unat n - 1)) (read_bytes m s2 (unat n - 1))
   \<and> (memcmp m s1 s2 n = 0 \<longleftrightarrow> read_bytes m s1 (unat n - 1) = read_bytes m s2 (unat n - 1))"
  by (rule conjI [OF memcmp_char memcmp_zero_iff])

end
