(* ===== verification/Pal_Cstring.thy ===== *)
theory Pal_Cstring
  imports Pal_Memory
begin

text \<open>
  The string operations of \<open>wamr-pal/pal_string.c\<close> that only read or write memory.  A loop that
  runs to a terminating NUL may run forever, so it is a partial function into \<open>option\<close> and the
  lemmas show when it returns.  \<open>strdup\<close> and \<open>strndup\<close>, which allocate, are in \<open>Pal_Heap\<close>.
\<close>

section \<open>The C functions\<close>

partial_function (option) strlen_loop :: "mem \<Rightarrow> addr \<Rightarrow> addr option" where
  "strlen_loop m p = (if m p \<noteq> 0 then strlen_loop m (p + 1) else Some p)"

definition strlen :: "mem \<Rightarrow> addr \<Rightarrow> u64 option" where
  "strlen m s = (case strlen_loop m s of None \<Rightarrow> None | Some p \<Rightarrow> Some (p - s))"

partial_function (option) strcmp :: "mem \<Rightarrow> addr \<Rightarrow> addr \<Rightarrow> int option" where
  "strcmp m s1 s2 =
     (if m s1 \<noteq> 0 \<and> m s1 = m s2 then strcmp m (s1 + 1) (s2 + 1)
      else Some (uint (m s1) - uint (m s2)))"

function strncmp :: "mem \<Rightarrow> addr \<Rightarrow> addr \<Rightarrow> u64 \<Rightarrow> int" where
  "strncmp m s1 s2 n =
     (if n \<noteq> 0 \<and> m s1 \<noteq> 0 \<and> m s1 = m s2 then strncmp m (s1 + 1) (s2 + 1) (n - 1)
      else if n = 0 then 0 else uint (m s1) - uint (m s2))"
  by pat_completeness auto
termination
  by (relation "measure (\<lambda>(m, s1, s2, n). unat n)") (auto simp: measure_unat)

partial_function (option) strcpy_loop :: "mem \<Rightarrow> addr \<Rightarrow> addr \<Rightarrow> mem option" where
  "strcpy_loop m d src =
     (let c = m src; m' = m(d := c)
      in if c \<noteq> 0 then strcpy_loop m' (d + 1) (src + 1) else Some m')"

definition strcpy :: "mem \<Rightarrow> addr \<Rightarrow> addr \<Rightarrow> (addr \<times> mem) option" where
  "strcpy m dest src =
     (case strcpy_loop m dest src of None \<Rightarrow> None | Some m' \<Rightarrow> Some (dest, m'))"

text \<open>The first loop of \<open>strncpy\<close>: memory, \<open>d\<close> and \<open>n\<close> when it leaves.\<close>

function strncpy_copy :: "mem \<Rightarrow> addr \<Rightarrow> addr \<Rightarrow> u64 \<Rightarrow> mem \<times> addr \<times> u64" where
  "strncpy_copy m d src n =
     (if n = 0 then (m, d, n)
      else (let c = m src; m' = m(d := c)
            in if c \<noteq> 0 then strncpy_copy m' (d + 1) (src + 1) (n - 1) else (m', d + 1, n)))"
  by pat_completeness auto
termination
  by (relation "measure (\<lambda>(m, d, src, n). unat n)") (auto simp: measure_unat)

function strncpy_pad :: "mem \<Rightarrow> addr \<Rightarrow> u64 \<Rightarrow> mem" where
  "strncpy_pad m d n = (if n = 0 then m else strncpy_pad (m(d := 0)) (d + 1) (n - 1))"
  by pat_completeness auto
termination
  by (relation "measure (\<lambda>(m, d, n). unat n)") (auto simp: measure_unat)

definition strncpy :: "mem \<Rightarrow> addr \<Rightarrow> addr \<Rightarrow> u64 \<Rightarrow> addr \<times> mem" where
  "strncpy m dest src n =
     (let (m', d, n') = strncpy_copy m dest src n in (dest, strncpy_pad m' d n'))"

definition strcat :: "mem \<Rightarrow> addr \<Rightarrow> addr \<Rightarrow> (addr \<times> mem) option" where
  "strcat m dest src =
     (case strlen_loop m dest of
        None \<Rightarrow> None
      | Some d \<Rightarrow> (case strcpy_loop m d src of None \<Rightarrow> None | Some m' \<Rightarrow> Some (dest, m')))"

text \<open>
  \<open>*s == (char)c\<close> compares low bytes, while the final \<open>c == 0\<close> looks at the whole \<open>int\<close>.
\<close>

partial_function (option) strchr :: "mem \<Rightarrow> addr \<Rightarrow> int \<Rightarrow> addr option" where
  "strchr m s c =
     (if m s \<noteq> 0 then (if m s = word_of_int c then Some s else strchr m (s + 1) c)
      else Some (if c = 0 then s else NULL))"

partial_function (option) strstr_loop :: "mem \<Rightarrow> addr \<Rightarrow> addr \<Rightarrow> u64 \<Rightarrow> addr option" where
  "strstr_loop m haystack needle nlen =
     (if m haystack \<noteq> 0
      then (if m haystack = m needle \<and> strncmp m haystack needle nlen = 0 then Some haystack
            else strstr_loop m (haystack + 1) needle nlen)
      else Some NULL)"

definition strstr :: "mem \<Rightarrow> addr \<Rightarrow> addr \<Rightarrow> addr option" where
  "strstr m haystack needle =
     (if m needle = 0 then Some haystack
      else (case strlen m needle of
              None \<Rightarrow> None
            | Some nlen \<Rightarrow> strstr_loop m haystack needle nlen))"

declare strncmp.simps [simp del] strncpy_copy.simps [simp del] strncpy_pad.simps [simp del]

section \<open>strlen\<close>

lemma strlen_loop_cstr: "cstr_at m p s \<Longrightarrow> strlen_loop m p = Some (p + of_nat (length s))"
  by (induction s arbitrary: p) (auto simp: strlen_loop.simps add.assoc)

lemma strlen_cstr: "cstr_at m p s \<Longrightarrow> strlen m p = Some (of_nat (length s))"
  by (simp add: strlen_def strlen_loop_cstr)

lemma strlen_loop_Some: "strlen_loop m p = Some q \<Longrightarrow> \<exists>s. cstr_at m p s"
proof (rule strlen_loop.raw_induct [where P = "\<lambda>m p q. \<exists>s. cstr_at m p s"])
  fix f m p q
  assume IH: "\<And>m p q. f m p = Some q \<Longrightarrow> \<exists>s. cstr_at m p s"
    and body: "(if m p \<noteq> 0 then f m (p + 1) else Some p) = Some q"
  show "\<exists>s. cstr_at m p s"
  proof (cases "m p = 0")
    case True
    then have "cstr_at m p []" by simp
    then show ?thesis ..
  next
    case False
    with body IH obtain s where "cstr_at m (p + 1) s" by fastforce
    with False have "cstr_at m p (m p # s)" by simp
    then show ?thesis ..
  qed
qed

section \<open>strcmp and strncmp\<close>

lemma strcmp_cstr:
  "cstr_at m p s \<Longrightarrow> cstr_at m q t \<Longrightarrow> strcmp m p q = Some (memcmp_ref (s @ [0]) (t @ [0]))"
proof (induction s arbitrary: p q t)
  case Nil
  then show ?case by (cases t) (auto simp: strcmp.simps)
next
  case (Cons c s)
  then show ?case by (cases t) (auto simp: strcmp.simps [of m p q])
qed

lemma memcmp_ref_terminated:
  "0 \<notin> set s \<Longrightarrow> 0 \<notin> set t \<Longrightarrow> memcmp_ref (s @ [0]) (t @ [0]) = 0 \<longleftrightarrow> s = t"
proof (induction s arbitrary: t)
  case Nil
  then show ?case by (cases t) (auto simp: uint_0_iff)
next
  case (Cons c s)
  then show ?case by (cases t) (auto simp: word_uint_eq_iff)
qed

lemma strncmp_cstr:
  "cstr_at m p s \<Longrightarrow> cstr_at m q t \<Longrightarrow>
   strncmp m p q n = memcmp_ref (take (unat n) (s @ [0])) (take (unat n) (t @ [0]))"
proof (induction "unat n" arbitrary: p q s t n)
  case 0
  then show ?case by (simp add: strncmp.simps unat_eq_0)
next
  case (Suc k)
  note dec = unat_Suc_dec [OF Suc.hyps(2)]
  note step = strncmp.simps [of m p q n]
  have IH: "strncmp m (p + 1) (q + 1) (n - 1) = memcmp_ref (take k (s' @ [0])) (take k (t' @ [0]))"
    if "cstr_at m (p + 1) s'" "cstr_at m (q + 1) t'" for s' t'
    using Suc.hyps(1) [of "n - 1" "p + 1" s' "q + 1" t'] that dec by simp
  show ?case
    using Suc.prems dec IH
    by (cases s; cases t) (auto simp: step simp flip: Suc.hyps(2))
qed

section \<open>strcpy, strncpy and strcat\<close>

lemma cstr_at_upd_outside:
  assumes "cstr_at m q s" "separate d (Suc 0) q (Suc (length s))"
  shows "cstr_at (m(d := v)) q s"
proof -
  have "d \<noteq> q + of_nat i" if "i \<le> length s" for i
    using separate_neq [OF assms(2), of 0 i] that by simp
  then have "cstr_at (m(d := v)) q s \<longleftrightarrow> cstr_at m q s"
    by (intro cstr_at_cong) (auto simp: fun_upd_def)
  with assms(1) show ?thesis by simp
qed

lemma cstr_at_upd_step:
  assumes "cstr_at m (q + 1) s" "separate d (Suc n) q (Suc (Suc (length s)))"
  shows "cstr_at (m(d := v)) (q + 1) s"
proof -
  have "d \<noteq> q + 1 + of_nat i" if "i \<le> length s" for i
    using separate_neq [OF assms(2), of 0 "Suc i"] that by (simp add: add.assoc)
  then have "cstr_at (m(d := v)) (q + 1) s \<longleftrightarrow> cstr_at m (q + 1) s"
    by (intro cstr_at_cong) (auto simp: fun_upd_def)
  with assms(1) show ?thesis by simp
qed

lemma strcpy_loop_cstr:
  "cstr_at m src s \<Longrightarrow> separate d (Suc (length s)) src (Suc (length s)) \<Longrightarrow>
   strcpy_loop m d src = Some (write_bytes m d (s @ [0]))"
proof (induction s arbitrary: m d src)
  case Nil
  then show ?case by (auto simp: strcpy_loop.simps fun_upd_def)
next
  case (Cons c s)
  then have c: "m src = c" "c \<noteq> 0" "cstr_at m (src + 1) s" by simp_all
  have sep: "separate (d + 1) (Suc (length s)) (src + 1) (Suc (length s))"
    using separate_step Cons.prems(2) by simp
  have "cstr_at (m(d := c)) (src + 1) s"
    using cstr_at_upd_step [OF c(3)] Cons.prems(2) by simp
  with Cons.IH [of "m(d := c)" "src + 1" "d + 1"] sep c show ?case
    by (simp add: strcpy_loop.simps [of m] del: fun_upd_apply)
qed

lemma strncpy_pad_write: "strncpy_pad m d n = write_bytes m d (replicate (unat n) 0)"
proof (induction "unat n" arbitrary: m d n)
  case 0
  then show ?case by (simp add: strncpy_pad.simps unat_eq_0)
next
  case (Suc k)
  note dec = unat_Suc_dec [OF Suc.hyps(2)]
  show ?case
    using Suc.hyps(1) [of "n - 1" "m(d := 0)" "d + 1"] dec
    by (simp add: strncpy_pad.simps [of m] flip: Suc.hyps(2))
qed

lemma strncpy_copy_cstr:
  assumes "cstr_at m src s" "separate d (unat n) src (Suc (length s))"
  shows "strncpy_copy m d src n =
    (if unat n \<le> length s then (write_bytes m d (take (unat n) s), d + n, 0)
     else (write_bytes m d (s @ [0]), d + of_nat (Suc (length s)), n - of_nat (length s)))"
  using assms
proof (induction s arbitrary: m d src n)
  case Nil
  then show ?case by (auto simp: strncpy_copy.simps [of m] unat_eq_0 fun_upd_def)
next
  case (Cons c s)
  then have c: "m src = c" "c \<noteq> 0" "cstr_at m (src + 1) s" by simp_all
  show ?case
  proof (cases "unat n")
    case 0
    then show ?thesis by (simp add: strncpy_copy.simps [of m] unat_eq_0)
  next
    case (Suc k)
    note dec = unat_Suc_dec [OF Suc [symmetric]]
    have sep: "separate (d + 1) (unat (n - 1)) (src + 1) (Suc (length s))"
      using separate_step Cons.prems(2) Suc dec by simp
    have "cstr_at (m(d := c)) (src + 1) s"
      using cstr_at_upd_step [OF c(3)] Cons.prems(2) Suc by simp
    with Cons.IH [of "m(d := c)" "src + 1" "d + 1" "n - 1"] sep
    have "strncpy_copy (m(d := c)) (d + 1) (src + 1) (n - 1) =
      (if k \<le> length s then (write_bytes (m(d := c)) (d + 1) (take k s), d + n, 0)
       else (write_bytes (m(d := c)) (d + 1) (s @ [0]), d + of_nat (Suc (Suc (length s))),
             n - of_nat (Suc (length s))))"
      using dec by (simp add: diff_diff_eq add.assoc del: fun_upd_apply)
    with dec Suc c show ?thesis by (simp add: strncpy_copy.simps [of m])
  qed
qed

lemma strncpy_cstr:
  assumes "cstr_at m src s" "separate dest (unat n) src (Suc (length s))"
  shows "strncpy m dest src n =
    (dest, write_bytes m dest
             (if unat n \<le> length s then take (unat n) s
              else s @ replicate (Suc (unat n - length s)) 0))"
proof (cases "unat n \<le> length s")
  case True
  then show ?thesis
    using strncpy_copy_cstr [OF assms] by (simp add: strncpy_def strncpy_pad_write)
next
  case False
  have ls: "length s < 2 ^ 64" by (rule cstr_at_length [OF assms(1)])
  then have "(of_nat (length s) :: u64) \<le> n"
    using False by (simp add: word_le_nat_alt)
  then have len: "unat (n - of_nat (length s)) = unat n - length s"
    using ls by (simp add: unat_sub)
  have "write_bytes (write_bytes m dest (s @ [0])) (dest + of_nat (Suc (length s)))
          (replicate (unat n - length s) 0)
        = write_bytes m dest ((s @ [0]) @ replicate (unat n - length s) 0)"
    by (simp only: write_bytes_append [of m dest "s @ [0]"] length_append list.size add_0_right add_Suc_right)
  then show ?thesis
    using strncpy_copy_cstr [OF assms] False by (simp add: strncpy_def strncpy_pad_write len)
qed

lemma strcat_cstr:
  assumes "cstr_at m dest t" "cstr_at m src s"
    "separate (dest + of_nat (length t)) (Suc (length s)) src (Suc (length s))"
  shows "strcat m dest src = Some (dest, write_bytes m (dest + of_nat (length t)) (s @ [0]))"
  using strcpy_loop_cstr [OF assms(2,3)]
  by (simp add: strcat_def strlen_loop_cstr [OF assms(1)])

section \<open>strchr and strstr\<close>

lemma strchr_cstr:
  "cstr_at m p s \<Longrightarrow>
   strchr m p c = Some (if word_of_int c \<in> set s
                        then p + of_nat (length (takeWhile (\<lambda>x. x \<noteq> word_of_int c) s))
                        else if c = 0 then p + of_nat (length s) else NULL)"
  by (induction s arbitrary: p) (auto simp: strchr.simps add.assoc)

text \<open>The first position at which \<open>t\<close> occurs in \<open>s\<close>.\<close>

fun first_occ :: "byte list \<Rightarrow> byte list \<Rightarrow> nat option" where
  "first_occ t [] = (if t = [] then Some 0 else None)"
| "first_occ t (c # s) =
     (if take (length t) (c # s) = t then Some 0 else map_option Suc (first_occ t s))"

lemma first_occ_Some:
  "first_occ t s = Some i \<Longrightarrow>
   i \<le> length s \<and> take (length t) (drop i s) = t \<and> (\<forall>j<i. take (length t) (drop j s) \<noteq> t)"
proof (induction s arbitrary: i)
  case (Cons c s)
  show ?case
  proof (cases "take (length t) (c # s) = t")
    case False
    with Cons.prems obtain k where k: "first_occ t s = Some k" "i = Suc k" by auto
    from Cons.IH [OF k(1)] False k(2) show ?thesis by (auto simp: less_Suc_eq_0_disj)
  qed (use Cons.prems in auto)
qed (auto split: if_splits)

lemma first_occ_None:
  "first_occ t s = None \<Longrightarrow> take (length t) (drop i s) \<noteq> t"
proof (induction s arbitrary: i)
  case (Cons c s)
  then show ?case by (cases i) (auto split: if_splits)
qed (auto split: if_splits)

lemma strncmp_needle:
  assumes "cstr_at m p s" "cstr_at m q t"
  shows "strncmp m p q (of_nat (length t)) = 0 \<longleftrightarrow> take (length t) s = t"
proof -
  have len: "unat (of_nat (length t) :: u64) = length t"
    using cstr_at_length [OF assms(2)] by simp
  have nz: "0 \<notin> set s" "0 \<notin> set t" using assms by (auto simp: cstr_at_conv_read)
  let ?a = "take (length t) (s @ [0])"
  have val: "strncmp m p q (of_nat (length t)) = memcmp_ref ?a t"
    by (simp add: strncmp_cstr [OF assms] len)
  show ?thesis
  proof (cases "length t \<le> length s")
    case True
    then have "length ?a = length t" by simp
    then show ?thesis using True val by (simp add: memcmp_ref_eq_0)
  next
    case False
    then have a: "?a = s @ [0]" by simp
    obtain x y where t: "t = x @ y" "length x = Suc (length s)"
      using False by (metis append_take_drop_id length_take min.absorb2 not_less_eq_eq)
    have "memcmp_ref (s @ [0]) (x @ y) = memcmp_ref (s @ [0]) x"
      using t(2) by (induction s x arbitrary: rule: list_induct2') auto
    moreover have "memcmp_ref (s @ [0]) x \<noteq> 0"
      using t nz(2) by (subst memcmp_ref_eq_0) auto
    moreover have "take (length t) s \<noteq> t" using False by auto
    ultimately show ?thesis using val a t(1) by simp
  qed
qed

lemma strstr_loop_cstr:
  assumes "cstr_at m q t" "t \<noteq> []"
  shows "cstr_at m p s \<Longrightarrow>
    strstr_loop m p q (of_nat (length t))
      = Some (case first_occ t s of None \<Rightarrow> NULL | Some i \<Rightarrow> p + of_nat i)"
proof (induction s arbitrary: p)
  case Nil
  then show ?case using assms by (simp add: strstr_loop.simps)
next
  case (Cons c s)
  have "m p = m q" if "take (length t) (c # s) = t"
    using that Cons.prems assms by (cases t) auto
  then have hit: "m p = m q \<and> strncmp m p q (of_nat (length t)) = 0
                    \<longleftrightarrow> take (length t) (c # s) = t"
    using strncmp_needle [OF Cons.prems assms(1)] by blast
  have "strstr_loop m (p + 1) q (of_nat (length t))
          = Some (case first_occ t s of None \<Rightarrow> NULL | Some i \<Rightarrow> p + 1 + of_nat i)"
    using Cons.IH Cons.prems by simp
  then show ?case
    using hit Cons.prems
    by (auto simp: strstr_loop.simps [of m p] add.assoc split: option.splits)
qed

lemma strstr_cstr:
  assumes "cstr_at m p s" "cstr_at m q t"
  shows "strstr m p q = Some (case first_occ t s of None \<Rightarrow> NULL | Some i \<Rightarrow> p + of_nat i)"
proof (cases "t = []")
  case True
  then show ?thesis using assms by (cases s) (auto simp: strstr_def)
next
  case False
  then have "m q \<noteq> 0" using assms(2) by (cases t) auto
  then show ?thesis
    using strstr_loop_cstr [OF assms(2) False assms(1)] strlen_cstr [OF assms(2)]
    by (simp add: strstr_def)
qed

section \<open>The order of strcmp\<close>

lemma memcmp_ref_neg:
  "0 \<notin> set s \<Longrightarrow> 0 \<notin> set t \<Longrightarrow>
   memcmp_ref (s @ [0]) (t @ [0]) < 0 \<longleftrightarrow> ord_class.lexordp s t"
proof (induction s arbitrary: t)
  case Nil
  then show ?case by (cases t) (auto simp: word_greater_zero_iff less_le uint_0_iff)
next
  case (Cons c s)
  then show ?case
    by (cases t) (auto simp: word_less_def word_uint_eq_iff)
qed

section \<open>Properties\<close>

text \<open>
  \<open>strlen\<close> returns exactly when a terminated string stands at its argument, and then
  returns the string's length.
\<close>
lemma strlen_returns:
  "strlen m p = Some n \<longleftrightarrow> (\<exists>s. cstr_at m p s \<and> n = of_nat (length s))"
proof
  assume *: "strlen m p = Some n"
  then obtain q where "strlen_loop m p = Some q" by (auto simp: strlen_def split: option.splits)
  from strlen_loop_Some [OF this] obtain s where "cstr_at m p s" ..
  with * show "\<exists>s. cstr_at m p s \<and> n = of_nat (length s)" by (auto simp: strlen_cstr)
qed (auto simp: strlen_cstr)

text \<open>
  on two terminated strings \<open>strcmp\<close> returns, 0 exactly for equal strings and a negative
  number exactly when the first is lexicographically smaller, bytes read as unsigned.
\<close>
lemma strcmp_order:
  assumes "cstr_at m p s" "cstr_at m q t"
  shows "\<exists>r. strcmp m p q = Some r \<and> (r = 0 \<longleftrightarrow> s = t) \<and> (r < 0 \<longleftrightarrow> ord_class.lexordp s t)"
proof -
  have "0 \<notin> set s" "0 \<notin> set t" using assms by (auto simp: cstr_at_conv_read)
  then show ?thesis
    by (simp add: strcmp_cstr [OF assms] memcmp_ref_terminated memcmp_ref_neg)
qed

theorem strcmp_order_witness:
  "\<exists>r. strcmp (write_bytes (\<lambda>_. 0) 16 [97, 98, 0, 97, 99, 0]) 16 19 = Some r
       \<and> (r = 0 \<longleftrightarrow> [97, 98 :: byte] = [97, 99])
       \<and> (r < 0 \<longleftrightarrow> ord_class.lexordp [97, 98 :: byte] [97, 99])"
  by (rule strcmp_order) simp_all

text \<open>
  \<open>strncpy\<close> of a string shorter than \<open>n\<close> writes \<open>n + 1\<close> bytes: the string, then one NUL
  more than the buffer has room for.  A string of at least \<open>n\<close> bytes is cut at \<open>n\<close>, with no NUL.
\<close>
theorem strncpy_bytes:
  assumes "cstr_at m src s" "separate dest (unat n) src (Suc (length s))"
  shows "strncpy m dest src n =
    (dest, write_bytes m dest
             (if unat n \<le> length s then take (unat n) s
              else s @ replicate (Suc (unat n - length s)) 0))"
  by (rule strncpy_cstr [OF assms])

theorem strncpy_bytes_witness:
  "snd (strncpy ((write_bytes (\<lambda>_. 7) 16 [97, 98, 0]) (68 := 9)) 64 16 4) 68 = 0"
  using strncpy_bytes [of "(write_bytes (\<lambda>_. 7) 16 [97, 98, 0]) (68 := 9)" 16 "[97, 98]" 64 4]
  by (simp add: separate_def numeral_3_eq_3)

text \<open>
  \<open>strstr\<close> on terminated strings returns, and returns the first position of the needle in
  the haystack, or NULL when it does not occur.
\<close>
lemma strstr_first:
  assumes "cstr_at m p s" "cstr_at m q t"
  shows "\<exists>r. strstr m p q = Some r \<and>
    ((r = NULL \<and> (\<forall>i. take (length t) (drop i s) \<noteq> t))
     \<or> (\<exists>i \<le> length s. r = p + of_nat i \<and> take (length t) (drop i s) = t
                      \<and> (\<forall>j<i. take (length t) (drop j s) \<noteq> t)))"
  using assms first_occ_None [of t s] first_occ_Some [of t s]
  by (auto simp: strstr_cstr split: option.splits)

theorem strstr_first_witness:
  "\<exists>r. strstr (write_bytes (\<lambda>_. 0) 16 [97, 98, 99, 0, 98, 99, 0]) 16 20 = Some r
   \<and> (r = NULL \<and> (\<forall>i. take (length [98, 99 :: byte]) (drop i [97, 98, 99 :: byte]) \<noteq> [98, 99])
      \<or> (\<exists>i \<le> length [97, 98, 99 :: byte]. r = 16 + of_nat i
              \<and> take (length [98, 99 :: byte]) (drop i [97, 98, 99 :: byte]) = [98, 99]
              \<and> (\<forall>j<i. take (length [98, 99 :: byte]) (drop j [97, 98, 99 :: byte]) \<noteq> [98, 99])))"
  by (rule strstr_first) simp_all

end
