(* ===== verification/Pal_Convert.thy ===== *)
theory Pal_Convert
  imports Pal_Cstring
begin

text \<open>
  Character classes and number parsing of \<open>wamr-pal/pal_string.c\<close>: the \<open>ctype\<close> functions,
  \<open>char_to_digit\<close>, \<open>strtoul\<close>, \<open>strtol\<close> and \<open>atoi\<close>.  \<open>unsigned long\<close> is a 64-bit word, so the
  accumulation wraps as it does in C; \<open>char\<close> is signed.
\<close>

section \<open>ctype\<close>

definition isdigit :: "int \<Rightarrow> bool" where
  "isdigit c \<longleftrightarrow> 48 \<le> c \<and> c \<le> 57"

definition isalpha :: "int \<Rightarrow> bool" where
  "isalpha c \<longleftrightarrow> (65 \<le> c \<and> c \<le> 90) \<or> (97 \<le> c \<and> c \<le> 122)"

definition isalnum :: "int \<Rightarrow> bool" where
  "isalnum c \<longleftrightarrow> isalpha c \<or> isdigit c"

definition isxdigit :: "int \<Rightarrow> bool" where
  "isxdigit c \<longleftrightarrow> isdigit c \<or> (65 \<le> c \<and> c \<le> 70) \<or> (97 \<le> c \<and> c \<le> 102)"

definition isspace :: "int \<Rightarrow> bool" where
  "isspace c \<longleftrightarrow> c = 32 \<or> c = 9 \<or> c = 10 \<or> c = 13 \<or> c = 12 \<or> c = 11"

definition isprint :: "int \<Rightarrow> bool" where
  "isprint c \<longleftrightarrow> 0x20 \<le> c \<and> c \<le> 0x7e"

definition isupper :: "int \<Rightarrow> bool" where
  "isupper c \<longleftrightarrow> 65 \<le> c \<and> c \<le> 90"

definition islower :: "int \<Rightarrow> bool" where
  "islower c \<longleftrightarrow> 97 \<le> c \<and> c \<le> 122"

definition toupper :: "int \<Rightarrow> int" where
  "toupper c = (if islower c then c - 32 else c)"

definition tolower :: "int \<Rightarrow> int" where
  "tolower c = (if isupper c then c + 32 else c)"

lemma tolower_toupper: "isalpha c \<Longrightarrow> tolower (toupper c) = tolower c"
  by (auto simp: isalpha_def tolower_def toupper_def islower_def isupper_def)

section \<open>Number parsing\<close>

definition char_to_digit :: "byte \<Rightarrow> int \<Rightarrow> int" where
  "char_to_digit b base =
     (let c = sint b; ret = (\<lambda>val. if val < base then val else - 1)
      in if 48 \<le> c \<and> c \<le> 57 then ret (c - 48)
         else if 97 \<le> c \<and> c \<le> 122 then ret (c - 97 + 10)
         else if 65 \<le> c \<and> c \<le> 90 then ret (c - 65 + 10)
         else - 1)"

partial_function (option) skip_space :: "mem \<Rightarrow> addr \<Rightarrow> addr option" where
  "skip_space m s = (if isspace (uint (m s)) then skip_space m (s + 1) else Some s)"

definition strtoul_base :: "mem \<Rightarrow> addr \<Rightarrow> int \<Rightarrow> int \<times> addr" where
  "strtoul_base m s base =
     (if base = 0
      then (if m s = 48
            then (if m (s + 1) = 120 \<or> m (s + 1) = 88 then (16, s + 1 + 1) else (8, s + 1))
            else (10, s))
      else if base = 16
      then (if m s = 48 \<and> (m (s + 1) = 120 \<or> m (s + 1) = 88) then (base, s + 2) else (base, s))
      else (base, s))"

partial_function (option) strtoul_digits :: "mem \<Rightarrow> addr \<Rightarrow> int \<Rightarrow> u64 \<Rightarrow> (u64 \<times> addr) option" where
  "strtoul_digits m s base result =
     (let digit = char_to_digit (m s) base
      in if 0 \<le> digit
         then strtoul_digits m (s + 1) base (result * u64_of_int base + u64_of_int digit)
         else Some (result, s))"

text \<open>The result and the memory, in which \<open>*endptr\<close> has been set when \<open>endptr\<close> is not NULL.\<close>

definition strtoul :: "mem \<Rightarrow> addr \<Rightarrow> addr \<Rightarrow> int \<Rightarrow> (u64 \<times> mem) option" where
  "strtoul m nptr endptr base =
     (case skip_space m nptr of
        None \<Rightarrow> None
      | Some s \<Rightarrow>
          (let s = (if m s = 43 then s + 1 else s);
               (base, s) = strtoul_base m s base
           in case strtoul_digits m s base 0 of
                None \<Rightarrow> None
              | Some (result, s) \<Rightarrow>
                  Some (result, if endptr \<noteq> NULL then store64 m endptr s else m)))"

definition strtol :: "mem \<Rightarrow> addr \<Rightarrow> addr \<Rightarrow> int \<Rightarrow> (u64 \<times> mem) option" where
  "strtol m nptr endptr base =
     (case skip_space m nptr of
        None \<Rightarrow> None
      | Some s \<Rightarrow>
          (let (neg, s) = (if m s = 45 then (True, s + 1)
                           else if m s = 43 then (False, s + 1) else (False, s))
           in case strtoul m s endptr base of
                None \<Rightarrow> None
              | Some (val, m') \<Rightarrow> Some (if neg then - val else val, m')))"

text \<open>The \<open>long\<close> result is its two's complement word; \<open>atoi\<close> truncates it to an \<open>int\<close>.\<close>

definition atoi :: "mem \<Rightarrow> addr \<Rightarrow> int option" where
  "atoi m nptr =
     (case strtol m nptr NULL 10 of None \<Rightarrow> None | Some (v, _) \<Rightarrow> Some (int_of_u64 v))"

definition labs :: "u64 \<Rightarrow> u64" where
  "labs x = (if sint x < 0 then - x else x)"

definition llabs :: "u64 \<Rightarrow> u64" where
  "llabs x = (if sint x < 0 then - x else x)"

section \<open>Lemmas\<close>

definition digit_val :: "int \<Rightarrow> byte \<Rightarrow> nat" where
  "digit_val base b = nat (char_to_digit b base)"

text \<open>The number a list of digit characters denotes.\<close>

definition digits_value :: "int \<Rightarrow> byte list \<Rightarrow> nat" where
  "digits_value base ds = foldl (\<lambda>r d. r * nat base + digit_val base d) 0 ds"

lemma char_to_digit_range:
  "0 \<le> char_to_digit b base \<Longrightarrow> char_to_digit b base < base"
  by (auto simp: char_to_digit_def Let_def split: if_splits)

lemma char_to_digit_NUL: "char_to_digit 0 base = - 1"
  by (simp add: char_to_digit_def)

lemma digit_not_space:
  assumes "0 \<le> char_to_digit b base"
  shows "\<not> isspace (uint b)" "b \<noteq> 43" "b \<noteq> 45"
proof -
  have "48 \<le> sint b \<and> sint b \<le> 122"
    using assms by (auto simp: char_to_digit_def Let_def split: if_splits)
  then have "48 \<le> uint b" by (simp add: uint_sint take_bit_int_eq_self)
  then show "\<not> isspace (uint b)" "b \<noteq> 43" "b \<noteq> 45" by (auto simp: isspace_def)
qed

lemma skip_space_cstr:
  "cstr_at m p (ws @ s) \<Longrightarrow> \<forall>b \<in> set ws. isspace (uint b) \<Longrightarrow>
   s = [] \<or> \<not> isspace (uint (hd s)) \<Longrightarrow> skip_space m p = Some (p + of_nat (length ws))"
proof (induction ws arbitrary: p)
  case Nil
  then show ?case by (cases s) (auto simp: skip_space.simps isspace_def)
next
  case (Cons b ws)
  then show ?case by (simp add: skip_space.simps [of m p] add.assoc)
qed

lemma strtoul_digits_run:
  "cstr_at m p ds \<Longrightarrow> \<forall>b \<in> set ds. 0 \<le> char_to_digit b base \<Longrightarrow>
   strtoul_digits m p base (of_nat r)
     = Some (of_nat (foldl (\<lambda>r d. r * nat base + digit_val base d) r ds), p + of_nat (length ds))"
proof (induction ds arbitrary: p r)
  case Nil
  then show ?case by (simp add: strtoul_digits.simps char_to_digit_NUL)
next
  case (Cons d ds)
  have "0 \<le> base" using char_to_digit_range [of d base] Cons.prems by auto
  then have "(of_nat r :: u64) * u64_of_int base + u64_of_int (char_to_digit d base)
        = of_nat (r * nat base + digit_val base d)"
    using Cons.prems by (simp add: u64_of_int_def digit_val_def)
  then show ?case
    using Cons.IH [of "p + 1" "r * nat base + digit_val base d"] Cons.prems
    by (simp add: strtoul_digits.simps [of m p] add.assoc)
qed

lemma strtoul_base_digit:
  assumes "base \<noteq> 0" "cstr_at m p ds" "\<forall>b \<in> set ds. 0 \<le> char_to_digit b base"
  shows "strtoul_base m p base = (base, p)"
proof -
  have "m (p + 1) \<noteq> 120 \<and> m (p + 1) \<noteq> 88" if "base = 16" "m p = 48"
  proof (cases ds)
    case (Cons d ds')
    then show ?thesis
      using assms that by (cases ds') (auto simp: char_to_digit_def)
  qed (use assms that in auto)
  then show ?thesis using assms(1) by (auto simp: strtoul_base_def)
qed

lemma strtoul_cstr:
  assumes "cstr_at m p (ws @ ds)" "\<forall>b \<in> set ws. isspace (uint b)"
    and "\<forall>b \<in> set ds. 0 \<le> char_to_digit b base" "base \<noteq> 0"
  shows "strtoul m p endptr base
    = Some (of_nat (digits_value base ds),
            if endptr \<noteq> NULL then store64 m endptr (p + of_nat (length ws + length ds)) else m)"
proof -
  let ?s = "p + of_nat (length ws)"
  have at: "cstr_at m ?s ds"
    using assms(1) read_bytes_add [of m p "length ws" "length ds"]
    by (simp add: cstr_at_conv_read add.assoc)
  have "ds = [] \<or> \<not> isspace (uint (hd ds))"
    using assms(3) digit_not_space by (cases ds) auto
  then have skip: "skip_space m p = Some ?s"
    using skip_space_cstr [OF assms(1,2)] by simp
  have plus: "m ?s \<noteq> 43"
    using at assms(3) digit_not_space(2) by (cases ds) auto
  show ?thesis
    using skip plus strtoul_base_digit [OF assms(4) at assms(3)]
      strtoul_digits_run [OF at assms(3), of 0]
    by (simp add: strtoul_def digits_value_def add.assoc)
qed

section \<open>Properties\<close>

text \<open>
  \<open>strtoul\<close> on optional white space followed by digits of the given base returns the number
  they denote modulo \<open>2 ^ 64\<close> (there is no range error) and sets \<open>*endptr\<close> to the end of the string.
\<close>
lemma strtoul_value:
  assumes "cstr_at m p (ws @ ds)" "\<forall>b \<in> set ws. isspace (uint b)"
    and "\<forall>b \<in> set ds. 0 \<le> char_to_digit b base" "base \<noteq> 0" "endptr \<noteq> NULL"
  shows "\<exists>v m'. strtoul m p endptr base = Some (v, m')
    \<and> unat v = digits_value base ds mod 2 ^ 64
    \<and> load64 m' endptr = p + of_nat (length ws + length ds)
    \<and> (\<forall>a. \<not> in_range endptr 8 a \<longrightarrow> m' a = m a)"
  using assms(5)
  by (simp add: strtoul_cstr [OF assms(1-4)] unsigned_of_nat take_bit_nat_def store64_other)

theorem strtoul_value_witness:
  "\<exists>v m'. strtoul (write_bytes (\<lambda>_. 0) 16 [32, 52, 50, 0]) 16 64 10 = Some (v, m')
    \<and> unat v = digits_value 10 [52, 50] mod 2 ^ 64
    \<and> load64 m' 64 = 16 + of_nat (length [32 :: byte] + length [52 :: byte, 50])
    \<and> (\<forall>a. \<not> in_range 64 8 a \<longrightarrow> m' a = write_bytes (\<lambda>_. 0) 16 [32, 52, 50, 0] a)"
  by (rule strtoul_value) (simp_all add: isspace_def char_to_digit_def)

text \<open>
  A sign of \<open>strtol\<close> may be followed by white space and a second sign, since \<open>strtoul\<close> skips
  them again: \<open>-\<close>, blank, \<open>5\<close> reads as \<open>-5\<close>.
\<close>
lemma strtol_blank_after_sign: "atoi (write_bytes (\<lambda>_. 0) 16 [45, 32, 53]) 16 = Some (- 5)"
  by (simp add: atoi_def strtol_def strtoul_def skip_space.simps isspace_def strtoul_base_def
      strtoul_digits.simps char_to_digit_def u64_of_int_def int_of_u64_def)

end
