(* ===== verification/Pal_Format.thy ===== *)
theory Pal_Format
  imports Pal_Convert
begin

text \<open>
  Formatted output of \<open>wamr-pal/pal_string.c\<close>: \<open>fmt_uint64\<close>, \<open>fmt_int64\<close>, \<open>vsnprintf\<close> and
  \<open>snprintf\<close>.

  All loops advance an output position; its state is a \<open>cursor\<close>: memory, the next byte to
  write, how many bytes remain, and the count of bytes written.  A \<open>va_list\<close> is the sequence of
  64-bit slots of the variadic arguments together with the index of the next one.  \<open>int\<close> values
  that count bytes are HOL integers; the parsed width wraps at 32 bits.
\<close>

type_synonym cursor = "mem \<times> addr \<times> u64 \<times> int"
type_synonym va_slots = "nat \<Rightarrow> u64"

abbreviation cur_mem :: "cursor \<Rightarrow> mem" where "cur_mem c \<equiv> fst c"
abbreviation cur_out :: "cursor \<Rightarrow> addr" where "cur_out c \<equiv> fst (snd c)"
abbreviation cur_remain :: "cursor \<Rightarrow> u64" where "cur_remain c \<equiv> fst (snd (snd c))"
abbreviation cur_total :: "cursor \<Rightarrow> int" where "cur_total c \<equiv> snd (snd (snd c))"

text \<open>\<open>*out++ = b; remain--; total++\<close>, and the loop that does so for \<open>bs\<close> while \<open>remain > 1\<close>.\<close>

definition put :: "byte \<Rightarrow> cursor \<Rightarrow> cursor" where
  "put b c = (case c of (m, p, r, k) \<Rightarrow> (m(p := b), p + 1, r - 1, k + 1))"

primrec put_all :: "byte list \<Rightarrow> cursor \<Rightarrow> cursor" where
  "put_all [] c = c"
| "put_all (b # bs) c = (if 1 < cur_remain c then put_all bs (put b c) else c)"

section \<open>Integers\<close>

text \<open>\<open>digits[d]\<close> of the two digit strings; \<open>d\<close> is below the base, at most 16.\<close>

definition digit_char :: "bool \<Rightarrow> nat \<Rightarrow> byte" where
  "digit_char uppercase d =
     (if uppercase then bytes_of ''0123456789ABCDEF'' ! d else bytes_of ''0123456789abcdef'' ! d)"

text \<open>The \<open>while (val)\<close> loop: \<open>tmp\<close>, least significant digit first.\<close>

partial_function (option) fmt_digits :: "bool \<Rightarrow> u64 \<Rightarrow> u64 \<Rightarrow> byte list \<Rightarrow> byte list option" where
  "fmt_digits uppercase base val tmp =
     (if val = 0 then Some tmp
      else fmt_digits uppercase base (val div base)
             (tmp @ [digit_char uppercase (unat (val mod base))]))"

text \<open>Returns the memory and the number of bytes written.\<close>

definition fmt_uint64 ::
  "mem \<Rightarrow> addr \<Rightarrow> u64 \<Rightarrow> u64 \<Rightarrow> int \<Rightarrow> bool \<Rightarrow> int \<Rightarrow> byte \<Rightarrow> (mem \<times> int) option" where
  "fmt_uint64 m buf remain val base uppercase width fill =
     (case (if val = 0 then Some [ch CHR ''0'']
            else fmt_digits uppercase (ucast (word_of_int base :: u32)) val []) of
        None \<Rightarrow> None
      | Some tmp \<Rightarrow>
          (let len = int (length tmp);
               pad = (if width > len then width - len else 0);
               c = put_all (replicate (nat pad) fill) (m, buf, remain, 0);
               c = put_all (rev tmp) c
           in Some (cur_mem c, cur_total c)))"

definition fmt_int64 ::
  "mem \<Rightarrow> addr \<Rightarrow> u64 \<Rightarrow> u64 \<Rightarrow> int \<Rightarrow> byte \<Rightarrow> (mem \<times> int) option" where
  "fmt_int64 m buf remain val width fill =
     (let neg = sint val < 0;
          (m, buf, remain, written) =
            (if neg \<and> 1 < remain then put (ch CHR ''-'') (m, buf, remain, 0) else (m, buf, remain, 0));
          uval = (if neg then - (val + 1) + 1 else val);
          width = (if neg \<and> 0 < width then width - 1 else width)
      in case fmt_uint64 m buf remain uval 10 False width fill of
           None \<Rightarrow> None
         | Some (m', n) \<Rightarrow> Some (m', written + n))"

section \<open>vsnprintf\<close>

text \<open>\<open>width = width * 10 + (*fmt - '0')\<close> for a run of digits, at 32 bits.\<close>

partial_function (option) parse_width :: "mem \<Rightarrow> addr \<Rightarrow> int \<Rightarrow> (int \<times> addr) option" where
  "parse_width m fmt width =
     (if ch CHR ''0'' \<le> m fmt \<and> m fmt \<le> ch CHR ''9''
      then parse_width m (fmt + 1)
             (sint (word_of_int (width * 10 + (uint (m fmt) - 48)) :: u32))
      else Some (width, fmt))"

definition parse_length :: "mem \<Rightarrow> addr \<Rightarrow> nat \<times> addr" where
  "parse_length m fmt =
     (if m fmt = ch CHR ''l''
      then (if m (fmt + 1) = ch CHR ''l'' then (2, fmt + 1 + 1) else (1, fmt + 1))
      else (0, fmt))"

definition arg_signed :: "nat \<Rightarrow> u64 \<Rightarrow> u64" where
  "arg_signed is_long slot = (if is_long \<ge> 1 then slot else scast (ucast slot :: u32))"

definition arg_unsigned :: "nat \<Rightarrow> u64 \<Rightarrow> u64" where
  "arg_unsigned is_long slot = (if is_long \<ge> 1 then slot else ucast (ucast slot :: u32))"

text \<open>The loop of \<open>%s\<close>: it ends at the NUL or when one byte remains.\<close>

function put_string :: "addr \<Rightarrow> cursor \<Rightarrow> cursor" where
  "put_string s c =
     (if cur_mem c s \<noteq> 0 \<and> 1 < cur_remain c then put_string (s + 1) (put (cur_mem c s) c) else c)"
  by pat_completeness auto
termination
proof (relation "measure (\<lambda>(s, c). unat (cur_remain c))")
  fix s :: addr and c :: cursor
  assume "cur_mem c s \<noteq> 0 \<and> 1 < cur_remain c"
  then have "cur_remain c \<noteq> 0" by auto
  then show "((s + 1, put (cur_mem c s) c), s, c) \<in> measure (\<lambda>(s, c). unat (cur_remain c))"
    by (cases c) (simp add: put_def measure_unat)
qed simp

declare put_string.simps [simp del]

text \<open>\<open>n = fmt_...(out, remain, ...); out += n; remain -= n; total += n\<close>.\<close>

definition advance :: "cursor \<Rightarrow> (mem \<times> int) option \<Rightarrow> cursor option" where
  "advance c r =
     (case r of
        None \<Rightarrow> None
      | Some (m', n) \<Rightarrow>
          Some (m', cur_out c + u64_of_int n, cur_remain c - u64_of_int n, cur_total c + n))"

text \<open>
  The \<open>switch (*fmt)\<close>: the cursor and the index of the next argument afterwards.
\<close>

definition convert ::
  "va_slots \<Rightarrow> cursor \<Rightarrow> addr \<Rightarrow> nat \<Rightarrow> byte \<Rightarrow> int \<Rightarrow> nat \<Rightarrow> (cursor \<times> nat) option" where
  "convert ap c fmt i fill width is_long =
     (let f = cur_mem c fmt; slot = ap i;
          fmt_u = (\<lambda>c val base upper width fill.
                     advance c (fmt_uint64 (cur_mem c) (cur_out c) (cur_remain c) val base upper width fill));
          ret = (\<lambda>r i. case r of None \<Rightarrow> None | Some c' \<Rightarrow> Some (c', i))
      in if f = ch CHR ''s''
         then Some (if slot = NULL then put_all (bytes_of ''(null)'') c else put_string slot c, i + 1)
         else if f = ch CHR ''d'' \<or> f = ch CHR ''i''
         then ret (advance c (fmt_int64 (cur_mem c) (cur_out c) (cur_remain c)
                                (arg_signed is_long slot) width fill)) (i + 1)
         else if f = ch CHR ''u''
         then ret (fmt_u c (arg_unsigned is_long slot) 10 False width fill) (i + 1)
         else if f = ch CHR ''x'' \<or> f = ch CHR ''X''
         then ret (fmt_u c (arg_unsigned is_long slot) 16 (f = ch CHR ''X'') width fill) (i + 1)
         else if f = ch CHR ''p''
         then (let c = (if 2 < cur_remain c then put (ch CHR ''x'') (put (ch CHR ''0'') c) else c)
               in ret (fmt_u c slot 16 False width (ch CHR ''0'')) (i + 1))
         else if f = ch CHR ''c'' then Some (put (ucast slot) c, i + 1)
         else if f = ch CHR ''%'' then Some (put (ch CHR ''%'') c, i)
         else (let c = put (ch CHR ''%'') c
               in Some (if 1 < cur_remain c then put (cur_mem c fmt) c else c, i)))"

partial_function (option) vsn_loop :: "va_slots \<Rightarrow> cursor \<Rightarrow> addr \<Rightarrow> nat \<Rightarrow> cursor option" where
  "vsn_loop ap c fmt i =
     (let m = cur_mem c
      in if m fmt \<noteq> 0 \<and> 1 < cur_remain c
         then if m fmt \<noteq> ch CHR ''%'' then vsn_loop ap (put (m fmt) c) (fmt + 1) i
              else (let fmt = fmt + 1;
                        (fill, fmt) = (if m fmt = ch CHR ''0'' then (ch CHR ''0'', fmt + 1)
                                       else (ch CHR '' '', fmt))
                    in case parse_width m fmt 0 of
                         None \<Rightarrow> None
                       | Some (width, fmt) \<Rightarrow>
                           (let (is_long, fmt) = parse_length m fmt
                            in case convert ap c fmt i fill width is_long of
                                 None \<Rightarrow> None
                               | Some (c', i') \<Rightarrow> vsn_loop ap c' (fmt + 1) i'))
         else Some c)"

definition vsnprintf :: "mem \<Rightarrow> addr \<Rightarrow> u64 \<Rightarrow> addr \<Rightarrow> va_slots \<Rightarrow> (int \<times> mem) option" where
  "vsnprintf m buf siz fmt ap =
     (if buf = NULL \<or> siz = 0 then Some (0, m)
      else (case vsn_loop ap (m, buf, siz, 0) fmt 0 of
              None \<Rightarrow> None
            | Some (m', out, _, written) \<Rightarrow> Some (written, m'(out := 0))))"

text \<open>\<open>snprintf\<close> passes its own variadic arguments on.\<close>

definition snprintf :: "mem \<Rightarrow> addr \<Rightarrow> u64 \<Rightarrow> addr \<Rightarrow> va_slots \<Rightarrow> (int \<times> mem) option" where
  "snprintf m buf siz fmt args = vsnprintf m buf siz fmt args"

section \<open>What the output loops write\<close>

lemma put_all_append: "put_all (xs @ ys) c = put_all ys (put_all xs c)"
proof (induction xs arbitrary: c)
  case (Cons b xs)
  show ?case
  proof (cases "1 < cur_remain c")
    case False
    then have "put_all ys c = c" by (cases ys) auto
    with False show ?thesis by simp
  qed (simp add: Cons)
qed simp

lemma put_all_stop: "\<not> 1 < cur_remain c \<Longrightarrow> put_all bs c = c"
  by (cases bs) auto

lemma put_all_shift:
  "put_all bs (m, p, r, k) =
     (let c = put_all bs (m, p, r, 0)
      in (cur_mem c, p + u64_of_int (cur_total c), r - u64_of_int (cur_total c), k + cur_total c))"
proof (induction bs arbitrary: m p r k)
  case Nil
  then show ?case by (simp add: u64_of_int_def)
next
  case (Cons b bs)
  let ?c = "put_all bs (m(p := b), p + 1, r - 1, 0)"
  have *: "put_all bs (m(p := b), p + 1, r - 1, j)
     = (cur_mem ?c, p + 1 + u64_of_int (cur_total ?c), r - 1 - u64_of_int (cur_total ?c),
        j + cur_total ?c)" for j
    using Cons [of "m(p := b)" "p + 1" "r - 1" j] unfolding Let_def .
  show ?case
  proof (cases "1 < r")
    case True
    then have "put_all (b # bs) (m, p, r, j) = put_all bs (m(p := b), p + 1, r - 1, j + 1)" for j
      by (simp add: put_def)
    then show ?thesis
      using * [of "k + 1"] * [of "0 + 1"]
      by (simp only: Let_def prod.inject fst_conv snd_conv)
        (simp add: u64_of_int_def algebra_simps)
  next
    case False
    then show ?thesis by (simp add: u64_of_int_def)
  qed
qed

lemma advance_put_all:
  "advance c (Some (cur_mem (put_all bs (cur_mem c, cur_out c, cur_remain c, 0)),
                    cur_total (put_all bs (cur_mem c, cur_out c, cur_remain c, 0))))
   = Some (put_all bs c)"
proof -
  obtain m p r k where c: "c = (m, p, r, k)" by (cases c)
  show ?thesis
    unfolding c using put_all_shift [of bs m p r k] by (simp add: advance_def Let_def)
qed

text \<open>The text of an integer, as a list: fill characters, then the digits.\<close>

definition padded :: "int \<Rightarrow> byte \<Rightarrow> byte list \<Rightarrow> byte list" where
  "padded width fill ds = replicate (nat (width - int (length ds))) fill @ ds"

lemma fmt_uint64_put:
  assumes "(if val = 0 then Some [ch CHR ''0''] else fmt_digits upper (ucast (word_of_int base :: u32)) val [])
             = Some tmp"
  shows "fmt_uint64 m buf remain val base upper width fill
    = (let c = put_all (padded width fill (rev tmp)) (m, buf, remain, 0)
       in Some (cur_mem c, cur_total c))"
proof -
  have "nat (if width > int (length tmp) then width - int (length tmp) else 0)
          = nat (width - int (length tmp))" by simp
  then show ?thesis
    using assms unfolding fmt_uint64_def
    by (simp add: Let_def padded_def put_all_append)
qed

lemma fmt_uint64_Some:
  assumes "fmt_uint64 m buf remain val base upper width fill = Some r"
  obtains bs where "r = (cur_mem (put_all bs (m, buf, remain, 0)), cur_total (put_all bs (m, buf, remain, 0)))"
proof -
  obtain tmp where "(if val = 0 then Some [ch CHR ''0'']
      else fmt_digits upper (ucast (word_of_int base :: u32)) val []) = Some tmp"
    using assms unfolding fmt_uint64_def by (auto split: option.splits)
  from fmt_uint64_put [OF this, of m buf remain width fill] assms that show ?thesis
    by (auto simp: Let_def)
qed

lemma fmt_int64_put:
  assumes "\<And>m buf remain width. fmt_uint64 m buf remain (if sint val < 0 then - val else val) 10 False width fill
     = (let c = put_all (bs width) (m, buf, remain, 0) in Some (cur_mem c, cur_total c))"
  shows "fmt_int64 m buf remain val width fill
    = (let c = put_all (if sint val < 0 then ch CHR ''-'' # bs (if 0 < width then width - 1 else width)
                        else bs width) (m, buf, remain, 0)
       in Some (cur_mem c, cur_total c))"
proof -
  have uval: "- (val + 1) + 1 = - val" by simp
  consider "\<not> sint val < 0" | "sint val < 0" "\<not> 1 < remain" | "sint val < 0" "1 < remain" by blast
  then show ?thesis
  proof cases
    case 1
    then show ?thesis using assms [of m buf remain width] by (simp add: fmt_int64_def Let_def)
  next
    case 2
    then show ?thesis using assms [of m buf remain "if 0 < width then width - 1 else width"]
      unfolding fmt_int64_def uval by (simp add: Let_def put_all_stop)
  next
    case 3
    then show ?thesis
      using assms [of "m(buf := ch CHR ''-'')" "buf + 1" "remain - 1" "if 0 < width then width - 1 else width"]
        put_all_shift [of "bs (if 0 < width then width - 1 else width)" "m(buf := ch CHR ''-'')" "buf + 1" "remain - 1" 1]
      unfolding fmt_int64_def uval by (simp add: Let_def put_def del: fun_upd_apply)
  qed
qed

section \<open>The text of a number\<close>

text \<open>Digits of a number in a base, least significant first.\<close>

fun nat_digits :: "nat \<Rightarrow> nat \<Rightarrow> nat list" where
  "nat_digits b n = (if n = 0 \<or> b < 2 then [] else n mod b # nat_digits b (n div b))"

declare nat_digits.simps [simp del]

definition uint_text :: "bool \<Rightarrow> nat \<Rightarrow> u64 \<Rightarrow> byte list" where
  "uint_text upper b v =
     (if v = 0 then [ch CHR ''0''] else map (digit_char upper) (rev (nat_digits b (unat v))))"

definition int_text :: "int \<Rightarrow> byte \<Rightarrow> u64 \<Rightarrow> byte list" where
  "int_text width fill v =
     (if sint v < 0
      then ch CHR ''-'' # padded (if 0 < width then width - 1 else width) fill (uint_text False 10 (- v))
      else padded width fill (uint_text False 10 v))"

lemma fmt_digits_run:
  "2 \<le> unat b \<Longrightarrow>
   fmt_digits upper b v tmp = Some (tmp @ map (digit_char upper) (nat_digits (unat b) (unat v)))"
proof (induction "unat v" arbitrary: v tmp rule: less_induct)
  case less
  show ?case
  proof (cases "v = 0")
    case True
    then show ?thesis by (simp add: fmt_digits.simps nat_digits.simps)
  next
    case False
    then have "0 < unat v" by (simp add: unat_gt_0)
    then have "unat (v div b) < unat v" using less.prems by (simp add: unat_div)
    from less.hyps [OF this less.prems] show ?thesis
      using False less.prems
      by (simp add: fmt_digits.simps [of upper b v] nat_digits.simps [of _ "unat v"]
          unat_div unat_mod unat_eq_0)
  qed
qed

lemma fmt_uint64_text:
  assumes "b = 10 \<or> b = 16"
  shows "fmt_uint64 m buf remain val (int b) upper width fill
    = (let c = put_all (padded width fill (uint_text upper b val)) (m, buf, remain, 0)
       in Some (cur_mem c, cur_total c))"
proof -
  have b: "unat (ucast (word_of_int (int b) :: u32) :: u64) = b" using assms by auto
  have "(if val = 0 then Some [ch CHR ''0'']
         else fmt_digits upper (ucast (word_of_int (int b) :: u32)) val []) = Some (rev (uint_text upper b val))"
    using fmt_digits_run [of "ucast (word_of_int (int b) :: u32)" upper val "[]"] assms
    unfolding b by (auto simp: uint_text_def rev_map)
  from fmt_uint64_put [OF this] show ?thesis by simp
qed

lemma fmt_int64_text:
  "fmt_int64 m buf remain val width fill
    = (let c = put_all (int_text width fill val) (m, buf, remain, 0)
       in Some (cur_mem c, cur_total c))"
proof -
  let ?v = "if sint val < 0 then - val else val"
  let ?bs = "\<lambda>width. padded width fill (uint_text False 10 ?v)"
  have "fmt_uint64 m buf remain ?v 10 False width fill
      = (let c = put_all (?bs width) (m, buf, remain, 0) in Some (cur_mem c, cur_total c))"
    for m buf remain width
    using fmt_uint64_text [of 10 m buf remain ?v False width fill] by simp
  from fmt_int64_put [of val fill ?bs, OF this] show ?thesis
    by (simp add: int_text_def if_distrib [of put_all] cong: if_cong)
qed

text \<open>A 64-bit value has at most 20 digits in the bases used: \<open>tmp[20]\<close> is large enough.\<close>

lemma nat_digits_length: "2 \<le> b \<Longrightarrow> n < b ^ k \<Longrightarrow> length (nat_digits b n) \<le> k"
proof (induction k arbitrary: n)
  case 0
  then show ?case by (simp add: nat_digits.simps)
next
  case (Suc k)
  then have "n div b < b ^ k" by (simp add: less_mult_imp_div_less mult.commute)
  then have "length (nat_digits b (n div b)) \<le> k" using Suc by simp
  then show ?case by (simp add: nat_digits.simps [of b n])
qed

lemma nat_digits_bound: "2 \<le> b \<Longrightarrow> d \<in> set (nat_digits b n) \<Longrightarrow> d < b"
  by (induction b n rule: nat_digits.induct) (subst (asm) (2) nat_digits.simps, auto split: if_splits)

lemma nat_digits_value:
  "2 \<le> b \<Longrightarrow> foldl (\<lambda>r d. r * b + d) 0 (rev (nat_digits b n)) = n"
proof (induction b n rule: nat_digits.induct)
  case (1 b n)
  show ?case
  proof (cases "n = 0")
    case False
    then have "foldl (\<lambda>r d. r * b + d) 0 (rev (nat_digits b (n div b))) = n div b"
      using 1 by simp
    then show ?thesis using False "1.prems" by (simp add: nat_digits.simps [of b n])
  qed (simp add: nat_digits.simps)
qed

lemma digit_char_value:
  assumes "d < b" "b \<le> 16"
  shows "char_to_digit (digit_char upper d) (int b) = int d" "digit_char upper d \<noteq> 0"
proof -
  have "d < 16" using assms by simp
  then have "d \<in> {0, 1, 2, 3, 4, 5, 6, 7, 8, 9, 10, 11, 12, 13, 14, 15}"
    by (simp only: insert_iff empty_iff) arith
  then show "char_to_digit (digit_char upper d) (int b) = int d" "digit_char upper d \<noteq> 0"
    using assms(1) by (auto simp: digit_char_def char_to_digit_def)
qed

section \<open>vsnprintf as a rendering of the format\<close>

text \<open>
  What one directive appends: the text for conversion character \<open>f\<close> and the next argument index.
  \<open>strs\<close> gives the string at an address, where the caller vouches for one.  \<open>%p\<close> drops its
  prefix when two bytes or fewer remain.
\<close>

definition directive_text ::
  "(addr \<Rightarrow> byte list option) \<Rightarrow> va_slots \<Rightarrow> nat \<Rightarrow> nat \<Rightarrow> byte \<Rightarrow> byte \<Rightarrow> int \<Rightarrow> nat
   \<Rightarrow> (byte list \<times> nat) option" where
  "directive_text strs ap i remain f fill width l =
     (if f = ch CHR ''s''
      then (if ap i = NULL then Some (bytes_of ''(null)'', i + 1)
            else map_option (\<lambda>t. (t, i + 1)) (strs (ap i)))
      else if f = ch CHR ''d'' \<or> f = ch CHR ''i''
      then Some (int_text width fill (arg_signed l (ap i)), i + 1)
      else if f = ch CHR ''u''
      then Some (padded width fill (uint_text False 10 (arg_unsigned l (ap i))), i + 1)
      else if f = ch CHR ''x'' \<or> f = ch CHR ''X''
      then Some (padded width fill (uint_text (f = ch CHR ''X'') 16 (arg_unsigned l (ap i))), i + 1)
      else if f = ch CHR ''p''
      then Some ((if 2 < remain then bytes_of ''0x'' else [])
                   @ padded width (ch CHR ''0'') (uint_text False 16 (ap i)), i + 1)
      else if f = ch CHR ''c'' then Some ([ucast (ap i)], i + 1)
      else if f = ch CHR ''%'' then Some ([ch CHR ''%''], i)
      else Some ([ch CHR ''%'', f], i))"

lemma put_all_one: "1 < cur_remain c \<Longrightarrow> put b c = put_all [b] c"
  by simp

lemma advance_text:
  assumes "b = 10 \<or> b = 16"
  shows "advance c (fmt_uint64 (cur_mem c) (cur_out c) (cur_remain c) val (int b) upper width fill)
    = Some (put_all (padded width fill (uint_text upper b val)) c)"
  by (simp add: fmt_uint64_text [OF assms] Let_def advance_put_all)

lemma advance_text_num:
  "advance c (fmt_uint64 (cur_mem c) (cur_out c) (cur_remain c) val 10 upper width fill)
    = Some (put_all (padded width fill (uint_text upper 10 val)) c)"
  "advance c (fmt_uint64 (cur_mem c) (cur_out c) (cur_remain c) val 16 upper width fill)
    = Some (put_all (padded width fill (uint_text upper 16 val)) c)"
  using advance_text [of 10] advance_text [of 16] by simp_all

lemma advance_int_text:
  "advance c (fmt_int64 (cur_mem c) (cur_out c) (cur_remain c) val width fill)
    = Some (put_all (int_text width fill val) c)"
  by (simp add: fmt_int64_text Let_def advance_put_all)

lemma put_all_0x:
  "2 < cur_remain c \<Longrightarrow> put (ch CHR ''x'') (put (ch CHR ''0'') c) = put_all (bytes_of ''0x'') c"
proof -
  assume "2 < cur_remain c"
  then have "1 < cur_remain c" "1 < cur_remain c - 1"
    by (unat_arith, unat_arith)
  then show ?thesis by (cases c) (simp add: put_def)
qed

text \<open>A string the output cannot reach: it stands outside the bytes the cursor may still write.\<close>

definition str_safe :: "cursor \<Rightarrow> addr \<Rightarrow> byte list \<Rightarrow> bool" where
  "str_safe c q s \<longleftrightarrow>
     cstr_at (cur_mem c) q s \<and> separate (cur_out c) (unat (cur_remain c)) q (Suc (length s))"

lemma str_safe_put:
  assumes "str_safe c q s" "1 < cur_remain c"
  shows "str_safe (put b c) q s"
proof -
  obtain m p r k where c: "c = (m, p, r, k)" by (cases c)
  have r: "1 < unat r" using assms(2) c by (simp add: word_less_nat_alt)
  then have r1: "unat r = Suc (unat (r - 1))"
    using unat_Suc_dec(2) [of "unat r - 1" r] by simp
  have sep: "separate p (unat r) q (Suc (length s))" "cstr_at m q s"
    using assms(1) c by (simp_all add: str_safe_def)
  have "cstr_at (m(p := b)) q s"
    using sep(2) by (rule cstr_at_upd_outside) (use sep(1) r in \<open>auto simp: separate_def\<close>)
  moreover have "separate (p + 1) (unat (r - 1)) q (Suc (length s))"
    by (rule separate_step_left) (use sep(1) r1 r in auto)
  ultimately show ?thesis by (simp add: c put_def str_safe_def)
qed

lemma str_safe_put_all: "str_safe c q s \<Longrightarrow> str_safe (put_all bs c) q s"
  by (induction bs arbitrary: c) (auto simp: str_safe_put)

lemma str_safe_tl: "str_safe c q (x # s) \<Longrightarrow> str_safe c (q + 1) s"
  using separate_step_left [of q "Suc (length s)" "cur_out c" "unat (cur_remain c)"]
  by (simp add: str_safe_def separate_sym)

lemma str_safe_hd: "str_safe c q s \<Longrightarrow> cur_mem c q = (case s of [] \<Rightarrow> 0 | x # _ \<Rightarrow> x)"
  by (cases s) (auto simp: str_safe_def)

lemma str_safe_nz: "str_safe c q (x # s) \<Longrightarrow> x \<noteq> 0"
  by (simp add: str_safe_def)

lemma str_safe_out:
  assumes "str_safe c q s" "0 < cur_remain c"
  shows "cur_out c \<noteq> q"
proof -
  have "0 < unat (cur_remain c)" using assms(2) by (simp add: word_less_nat_alt)
  then show ?thesis
    using separate_neq [of "cur_out c" "unat (cur_remain c)" q "Suc (length s)" 0 0] assms(1)
    by (simp add: str_safe_def)
qed

lemma put_string_text: "str_safe c q s \<Longrightarrow> put_string q c = put_all s c"
proof (induction s arbitrary: c q)
  case Nil
  then show ?case by (simp add: put_string.simps str_safe_hd)
next
  case (Cons x s)
  then show ?case
    using str_safe_put [OF str_safe_tl [OF Cons.prems]] str_safe_nz [OF Cons.prems]
    by (simp add: put_string.simps [of q] str_safe_hd)
qed

lemma directive_char_cases:
  obtains "f = ch CHR ''s''" | "f = ch CHR ''d''" | "f = ch CHR ''i''" | "f = ch CHR ''u''"
    | "f = ch CHR ''x''" | "f = ch CHR ''X''" | "f = ch CHR ''p''" | "f = ch CHR ''c''"
    | "f = ch CHR ''%''"
    | "f \<notin> {ch CHR ''s'', ch CHR ''d'', ch CHR ''i'', ch CHR ''u'', ch CHR ''x'', ch CHR ''X'',
            ch CHR ''p'', ch CHR ''c'', ch CHR ''%''}"
  by blast

lemma convert_text:
  assumes safe: "str_safe c fmt (f # s)" and r: "1 < cur_remain c"
    and strs: "\<And>q t. strs q = Some t \<Longrightarrow> str_safe c q t"
    and dir: "directive_text strs ap i (unat (cur_remain c)) f fill width l = Some (t, i')"
  shows "convert ap c fmt i fill width l = Some (put_all t c, i')"
proof -
  have f: "cur_mem c fmt = f" using str_safe_hd [OF safe] by simp
  have ne: "cur_out c \<noteq> fmt" using str_safe_out [OF safe] r by (auto simp: word_less_nat_alt)
  then have f2: "cur_mem (put b c) fmt = f" for b using f by (cases c) (simp add: put_def)
  have r2: "2 < unat (cur_remain c) \<longleftrightarrow> 2 < cur_remain c" by (simp add: word_less_nat_alt)
  note defs = convert_def directive_text_def f f2 Let_def
  show ?thesis
  proof (cases rule: directive_char_cases [of f])
    case 1
    then show ?thesis
      using dir strs by (auto simp: defs put_string_text simp del: put_all.simps split: if_splits)
  next
    case 7
    show ?thesis
    proof (cases "2 < cur_remain c")
      case True
      then show ?thesis
        using dir 7 put_all_0x [OF True]
        by (auto simp: defs r2 advance_text_num put_all_append [of "[48, 120]" "padded width 48 (uint_text False 16 (ap i))",
              unfolded append.simps]
            simp del: put_all.simps)
    next
      case False
      then show ?thesis using dir 7 by (simp add: defs r2 advance_text_num)
    qed
  next
    case 10
    then have "convert ap c fmt i fill width l
      = (let c = put (ch CHR ''%'') c in Some (if 1 < cur_remain c then put f c else c, i))"
      by (simp add: defs)
    moreover have "t = [ch CHR ''%'', f]" "i' = i" using 10 dir by (auto simp: directive_text_def)
    ultimately show ?thesis using r by (simp add: Let_def)
  qed (use dir r in \<open>auto simp: defs advance_text_num advance_int_text\<close>)
qed

section \<open>The format as a list\<close>

fun list_width :: "byte list \<Rightarrow> int \<Rightarrow> int \<times> byte list" where
  "list_width [] w = (w, [])"
| "list_width (b # s) w =
     (if ch CHR ''0'' \<le> b \<and> b \<le> ch CHR ''9''
      then list_width s (sint (word_of_int (w * 10 + (uint b - 48)) :: u32)) else (w, b # s))"

definition list_fill :: "byte list \<Rightarrow> byte \<times> byte list" where
  "list_fill s = (if s \<noteq> [] \<and> hd s = ch CHR ''0'' then (ch CHR ''0'', tl s) else (ch CHR '' '', s))"

definition list_length :: "byte list \<Rightarrow> nat \<times> byte list" where
  "list_length s =
     (if s \<noteq> [] \<and> hd s = ch CHR ''l''
      then (if tl s \<noteq> [] \<and> hd (tl s) = ch CHR ''l'' then (2, tl (tl s)) else (1, tl s))
      else (0, s))"

text \<open>Fill, width, length modifier, and the rest, which starts with the conversion character.\<close>

definition list_directive :: "byte list \<Rightarrow> byte \<times> int \<times> nat \<times> byte list" where
  "list_directive s =
     (let (fill, s) = list_fill s; (w, s) = list_width s 0; (l, s) = list_length s in (fill, w, l, s))"

lemma list_width_length: "length (snd (list_width s w)) \<le> length s"
  by (induction s w rule: list_width.induct) (auto intro: le_SucI)

lemma list_directive_length:
  "list_directive s = (fill, w, l, rest) \<Longrightarrow> length rest \<le> length s"
  using list_width_length [of s 0] list_width_length [of "tl s" 0]
  by (auto simp: list_directive_def list_fill_def list_length_def case_prod_unfold Let_def split: if_splits)

text \<open>
  The text of a format: None when it ends inside a directive, or names a string the caller does
  not vouch for.
\<close>

function render ::
  "(addr \<Rightarrow> byte list option) \<Rightarrow> va_slots \<Rightarrow> nat \<Rightarrow> nat \<Rightarrow> byte list \<Rightarrow> byte list option" where
  "render strs ap i remain [] = Some []"
| "render strs ap i remain (b # s) =
     (if b \<noteq> ch CHR ''%'' then map_option ((#) b) (render strs ap i (remain - 1) s)
      else (case list_directive s of
              (fill, w, l, []) \<Rightarrow> None
            | (fill, w, l, f # rest) \<Rightarrow>
                (case directive_text strs ap i remain f fill w l of
                   None \<Rightarrow> None
                 | Some (t, i') \<Rightarrow> map_option ((@) t) (render strs ap i' (remain - length t) rest))))"
  by pat_completeness auto
termination
  by (relation "measure (\<lambda>(strs, ap, i, remain, s). length s)")
    (auto dest: list_directive_length [OF sym])

declare render.simps(2) [simp del]

lemma parse_width_list:
  "str_safe c q s \<Longrightarrow>
   \<exists>q'. parse_width (cur_mem c) q w = Some (fst (list_width s w), q')
        \<and> str_safe c q' (snd (list_width s w))"
proof (induction s w arbitrary: q rule: list_width.induct)
  case (1 w)
  then show ?case by (simp add: parse_width.simps str_safe_hd)
next
  case (2 b s w)
  then show ?case
    using str_safe_tl [OF 2(2)] by (auto simp: parse_width.simps [of _ q] str_safe_hd)
qed

lemma parse_length_list:
  assumes "str_safe c q s"
  shows "\<exists>q'. parse_length (cur_mem c) q = (fst (list_length s), q') \<and> str_safe c q' (snd (list_length s))"
proof (cases s)
  case Nil
  then show ?thesis using assms by (simp add: parse_length_def list_length_def str_safe_hd)
next
  case (Cons x s')
  then have tl1: "str_safe c (q + 1) s'" using assms str_safe_tl by blast
  show ?thesis
  proof (cases s')
    case Nil
    then show ?thesis
      using assms tl1 Cons str_safe_hd [OF assms] str_safe_hd [OF tl1]
      by (auto simp: parse_length_def list_length_def)
  next
    case (Cons y s'')
    then have "str_safe c (q + 1 + 1) s''" using tl1 str_safe_tl by blast
    then show ?thesis
      using assms tl1 Cons \<open>s = x # s'\<close> str_safe_hd [OF assms] str_safe_hd [OF tl1]
      by (auto simp: parse_length_def list_length_def)
  qed
qed

lemma fill_list:
  assumes "str_safe c q s"
  shows "\<exists>q'. (if cur_mem c q = ch CHR ''0'' then (ch CHR ''0'', q + 1) else (ch CHR '' '', q))
                = (fst (list_fill s), q') \<and> str_safe c q' (snd (list_fill s))"
  using assms str_safe_hd [OF assms] str_safe_tl [of c q]
  by (cases s) (auto simp: list_fill_def)

lemma cur_remain_put_all:
  "0 < cur_remain c \<Longrightarrow>
   0 < cur_remain (put_all bs c)
   \<and> (1 < cur_remain (put_all bs c) \<longrightarrow> unat (cur_remain (put_all bs c)) = unat (cur_remain c) - length bs)"
proof (induction bs arbitrary: c)
  case (Cons b bs)
  show ?case
  proof (cases "1 < cur_remain c")
    case True
    have r: "cur_remain (put b c) = cur_remain c - 1" by (cases c) (simp add: put_def)
    have "0 < cur_remain c - 1" "unat (cur_remain c - 1) = unat (cur_remain c) - 1"
      using True by (unat_arith, unat_arith)
    then show ?thesis using Cons.IH [of "put b c"] True r by auto
  qed (use Cons.prems in simp)
qed simp

lemma vsn_loop_render:
  "str_safe c fmt s \<Longrightarrow> (\<And>q t. strs q = Some t \<Longrightarrow> str_safe c q t) \<Longrightarrow> 0 < cur_remain c \<Longrightarrow>
   1 < cur_remain c \<longrightarrow> unat (cur_remain c) = remain \<Longrightarrow> render strs ap i remain s = Some t \<Longrightarrow>
   vsn_loop ap c fmt i = Some (put_all t c)"
proof (induction strs ap i remain s arbitrary: c fmt t rule: render.induct)
  case (1 strs ap i remain)
  then show ?case by (simp add: vsn_loop.simps str_safe_hd)
next
  case (2 strs ap i remain b s)
  note safe = 2(3) and strs = 2(4) and rpos = 2(5) and rem = 2(6) and ren = 2(7)
  have m: "cur_mem c fmt = b" "b \<noteq> 0" using str_safe_hd [OF safe] str_safe_nz [OF safe] by auto
  have safe1: "str_safe c (fmt + 1) s" by (rule str_safe_tl [OF safe])
  have next_c: "str_safe (put_all u c) q t" if "str_safe c q t" for u q t
    using that by (rule str_safe_put_all)
  have next_r: "0 < cur_remain (put_all u c)"
    "1 < cur_remain (put_all u c) \<longrightarrow> unat (cur_remain (put_all u c)) = remain - length u"
    if "1 < cur_remain c" for u
    using cur_remain_put_all [OF rpos, of u] rem that by auto
  show ?case
  proof (cases "1 < cur_remain c")
    case False
    then show ?thesis by (simp add: vsn_loop.simps put_all_stop)
  next
    case r: True
    show ?thesis
    proof (cases "b = ch CHR ''%''")
      case False
      then obtain t' where t': "render strs ap i (remain - 1) s = Some t'" "t = b # t'"
        using ren by (auto simp: render.simps(2))
      have "vsn_loop ap (put_all [b] c) (fmt + 1) i = Some (put_all t' (put_all [b] c))"
        by (rule 2(1) [OF False next_c [OF safe1] next_c [OF strs] next_r(1) [OF r] _ t'(1)])
          (use next_r(2) [OF r, of "[b]"] in auto)
      then show ?thesis using False m r t'(2) by (simp add: vsn_loop.simps [of ap c])
    next
      case True
      obtain fill w l rest where d: "list_directive s = (fill, w, l, rest)" by (cases "list_directive s")
      with ren True obtain f rest' where rest: "rest = f # rest'"
        by (cases rest) (auto simp: render.simps(2))
      obtain u i' where u: "directive_text strs ap i remain f fill w l = Some (u, i')"
        using ren True d rest by (auto simp: render.simps(2) split: option.splits)
      then obtain t' where t': "render strs ap i' (remain - length u) rest' = Some t'" "t = u @ t'"
        using ren True d rest by (auto simp: render.simps(2))
      obtain q1 where q1: "(if cur_mem c (fmt + 1) = ch CHR ''0'' then (ch CHR ''0'', fmt + 1 + 1)
            else (ch CHR '' '', fmt + 1)) = (fst (list_fill s), q1)" "str_safe c q1 (snd (list_fill s))"
        using fill_list [OF safe1] by blast
      let ?w = "list_width (snd (list_fill s)) 0"
      obtain q2 where q2: "parse_width (cur_mem c) q1 0 = Some (fst ?w, q2)" "str_safe c q2 (snd ?w)"
        using parse_width_list [OF q1(2)] by blast
      obtain q3 where q3: "parse_length (cur_mem c) q2 = (fst (list_length (snd ?w)), q3)"
          "str_safe c q3 (snd (list_length (snd ?w)))"
        using parse_length_list [OF q2(2)] by blast
      have dd: "fill = fst (list_fill s)" "w = fst ?w" "l = fst (list_length (snd ?w))"
        "snd (list_length (snd ?w)) = f # rest'"
        using d rest by (auto simp: list_directive_def Let_def case_prod_unfold)
      then have safe3: "str_safe c q3 (f # rest')" using q3(2) by simp
      have conv: "convert ap c q3 i fill w l = Some (put_all u c, i')"
        using convert_text [OF safe3 r strs, of strs ap i fill w l u i'] u rem r by auto
      have "vsn_loop ap (put_all u c) (q3 + 1) i' = Some (put_all t' (put_all u c))"
      proof (rule 2(2))
        show "\<not> b \<noteq> ch CHR ''%''" using True by simp
        show "(fill, w, l, f # rest') = list_directive s" using d rest by simp
        show "str_safe (put_all u c) (q3 + 1) rest'" by (rule next_c [OF str_safe_tl [OF safe3]])
        show "directive_text strs ap i remain f fill w l = Some (u, i')" by (rule u)
        show "render strs ap i' (remain - length u) rest' = Some t'" by (rule t'(1))
        show "str_safe (put_all u c) q t" if "strs q = Some t" for q t by (rule next_c [OF strs [OF that]])
      qed (use next_r [OF r, of u] in simp_all)
      moreover have "vsn_loop ap c fmt i = vsn_loop ap (put_all u c) (q3 + 1) i'"
        using m r True q1(1) q2(1) q3(1) conv dd
        by (simp add: vsn_loop.simps [of ap c] Let_def del: of_char_Char)
      ultimately show ?thesis using t'(2) by (simp add: put_all_append)
    qed
  qed
qed

section \<open>Where the output goes\<close>

lemma put_all_write:
  "0 < r \<Longrightarrow> put_all t (m, p, r, k) =
     (let u = take (unat r - 1) t
      in (write_bytes m p u, p + of_nat (length u), r - of_nat (length u), k + int (length u)))"
proof (induction t arbitrary: m p r k)
  case (Cons b t)
  show ?case
  proof (cases "1 < r")
    case True
    have r: "0 < r - 1" "unat r = Suc (Suc (unat (r - 1) - 1))"
      using True by (unat_arith, unat_arith)
    then show ?thesis
      using True Cons.IH [of "r - 1" "m(p := b)" "p + 1" "k + 1"]
      by (simp add: put_def Let_def algebra_simps del: fun_upd_apply)
  next
    case False
    then have "r = 1" using Cons.prems by (metis word_less_1 word_le_less_eq linorder_not_le less_le)
    then show ?thesis by simp
  qed
qed simp

text \<open>The invariant of the output cursor within the caller's buffer.\<close>

definition cursor_inv :: "mem \<Rightarrow> addr \<Rightarrow> u64 \<Rightarrow> cursor \<Rightarrow> bool" where
  "cursor_inv m0 buf siz c \<longleftrightarrow>
     0 \<le> cur_total c \<and> cur_out c = buf + u64_of_int (cur_total c) \<and> 0 < cur_remain c
     \<and> int (unat (cur_remain c)) + cur_total c = int (unat siz)
     \<and> (\<forall>a. int (unat (a - buf)) < cur_total c \<or> cur_mem c a = m0 a)"

lemma cursor_inv_put:
  assumes "cursor_inv m0 buf siz c" "1 < cur_remain c"
  shows "cursor_inv m0 buf siz (put b c)"
proof -
  obtain m p r k where c: "c = (m, p, r, k)" by (cases c)
  have inv: "0 \<le> k" "p = buf + u64_of_int k" "int (unat r) + k = int (unat siz)"
    "\<And>a. int (unat (a - buf)) < k \<or> m a = m0 a"
    using assms(1) by (auto simp: cursor_inv_def c)
  have r: "0 < r - 1" "int (unat (r - 1)) = int (unat r) - 1"
    using u64_dec_gt1 [of r] assms(2) c by simp_all
  have "uint siz < 2 ^ 64" using unsigned_less [of siz, where ?'a = int] by simp
  moreover have "uint r + k = uint siz" using inv(3) by simp
  ultimately have "k < 2 ^ 64" using uint_ge_0 [of r] by linarith
  then have "int (unat (u64_of_int k)) = k"
    using inv(1) by (simp add: u64_of_int_def uint_word_of_int)
  then have "int (unat (p - buf)) < k + 1" using inv(2) by simp
  moreover have "int (unat (a - buf)) < k + 1 \<or> m a = m0 a" for a using inv(4) [of a] by auto
  ultimately show ?thesis
    using inv r by (auto simp: cursor_inv_def c put_def u64_of_int_def)
qed

lemma cursor_inv_put_all: "cursor_inv m0 buf siz c \<Longrightarrow> cursor_inv m0 buf siz (put_all bs c)"
  by (induction bs arbitrary: c) (auto simp: cursor_inv_put)

lemma cursor_inv_put_string: "cursor_inv m0 buf siz c \<Longrightarrow> cursor_inv m0 buf siz (put_string s c)"
proof (induction s c rule: put_string.induct)
  case (1 s c)
  then show ?case
    using cursor_inv_put [OF 1(2)] by (simp add: put_string.simps [of s])
qed

lemma cursor_inv_convert:
  assumes inv: "cursor_inv m0 buf siz c" and r: "1 < cur_remain c"
    and conv: "convert ap c fmt i fill width l = Some (c', i')"
  shows "cursor_inv m0 buf siz c'"
proof -
  note put_ok = cursor_inv_put [OF inv r]
  have p: "cursor_inv m0 buf siz
      (if 2 < cur_remain c then put (ch CHR ''x'') (put (ch CHR ''0'') c) else c)"
  proof (cases "2 < cur_remain c")
    case True
    show ?thesis
      using True cursor_inv_put_all [OF inv, of "bytes_of ''0x''"]
      by (simp only: put_all_0x [OF True] if_True)
  qed (use inv in simp)
  note closed = inv cursor_inv_put_all [OF inv] cursor_inv_put_all [OF p] put_ok
    cursor_inv_put_string [OF inv]
  note defs = convert_def Let_def advance_text_num advance_int_text
  show ?thesis
  proof (cases rule: directive_char_cases [of "cur_mem c fmt"])
    case 1
    then show ?thesis
      using conv closed by (auto simp: defs simp del: put_all.simps split: if_splits)
  next
    case 10
    let ?c = "put (ch CHR ''%'') c"
    have "c' = (if 1 < cur_remain ?c then put (cur_mem ?c fmt) ?c else ?c)"
      using 10 conv by (auto simp: defs)
    then show ?thesis using put_ok [of "ch CHR ''%''"] cursor_inv_put [OF put_ok] by simp
  next
    case 7
    then have "\<exists>t. c' = put_all t (if 2 < cur_remain c then put (ch CHR ''x'') (put (ch CHR ''0'') c) else c)"
      using conv by (auto simp: defs)
    then show ?thesis using cursor_inv_put_all [OF p] by blast
  qed (use conv closed in \<open>simp_all add: defs\<close>, (use conv closed in \<open>auto simp: defs\<close>)?)
qed

lemma vsn_loop_inv:
  "vsn_loop ap c fmt i = Some c' \<Longrightarrow> cursor_inv m0 buf siz c \<Longrightarrow> cursor_inv m0 buf siz c'"
proof -
  have "vsn_loop ap c fmt i = Some c' \<Longrightarrow> cursor_inv m0 buf siz c \<longrightarrow> cursor_inv m0 buf siz c'"
  proof (rule vsn_loop.raw_induct
      [where P = "\<lambda>ap c fmt i c'. cursor_inv m0 buf siz c \<longrightarrow> cursor_inv m0 buf siz c'"])
    fix f ap c fmt i c'
    assume IH: "\<And>ap c fmt i c'. f ap c fmt i = Some c' \<Longrightarrow>
          cursor_inv m0 buf siz c \<longrightarrow> cursor_inv m0 buf siz c'"
      and body: "(let m = cur_mem c
      in if m fmt \<noteq> 0 \<and> 1 < cur_remain c
         then if m fmt \<noteq> ch CHR ''%'' then f ap (put (m fmt) c) (fmt + 1) i
              else (let fmt = fmt + 1;
                        (fill, fmt) = (if m fmt = ch CHR ''0'' then (ch CHR ''0'', fmt + 1)
                                       else (ch CHR '' '', fmt))
                    in case parse_width m fmt 0 of
                         None \<Rightarrow> None
                       | Some (width, fmt) \<Rightarrow>
                           (let (is_long, fmt) = parse_length m fmt
                            in case convert ap c fmt i fill width is_long of
                                 None \<Rightarrow> None
                               | Some (c', i') \<Rightarrow> f ap c' (fmt + 1) i'))
         else Some c) = Some c'"
    show "cursor_inv m0 buf siz c \<longrightarrow> cursor_inv m0 buf siz c'"
    proof
      assume inv: "cursor_inv m0 buf siz c"
      show "cursor_inv m0 buf siz c'"
      proof (cases "1 < cur_remain c")
        case True
        from body show ?thesis
          using inv True cursor_inv_put [OF inv True]
          by (auto simp: Let_def case_prod_unfold simp del: of_char_Char split: if_splits option.splits
              dest!: IH dest: cursor_inv_convert [OF inv True])
      qed (use body inv in \<open>simp add: Let_def\<close>)
    qed
  qed
  then show "vsn_loop ap c fmt i = Some c' \<Longrightarrow> cursor_inv m0 buf siz c \<Longrightarrow> cursor_inv m0 buf siz c'"
    by blast
qed

lemma vsnprintf_text:
  assumes "buf \<noteq> NULL" "siz \<noteq> 0" "cstr_at m fmt s" "separate buf (unat siz) fmt (Suc (length s))"
    and "\<forall>q t. strs q = Some t \<longrightarrow> cstr_at m q t \<and> separate buf (unat siz) q (Suc (length t))"
    and "render strs ap 0 (unat siz) s = Some t"
  shows "vsnprintf m buf siz fmt ap
    = (let u = take (unat siz - 1) t in Some (int (length u), write_bytes m buf (u @ [0])))"
proof -
  let ?c = "(m, buf, siz, 0) :: cursor"
  have pos: "0 < siz" using assms(2) by (simp add: word_greater_zero_iff)
  have "vsn_loop ap ?c fmt 0 = Some (put_all t ?c)"
    by (rule vsn_loop_render [of ?c fmt s strs])
      (use assms pos in \<open>auto simp: str_safe_def\<close>)
  then show ?thesis
    using assms(1,2) put_all_write [OF pos, of t m buf 0]
    by (simp add: vsnprintf_def Let_def write_bytes_append)
qed

section \<open>Properties\<close>


text \<open>The memory of the witnesses: the format \<open>n=%05u!\<close> at 16.\<close>

definition demo_mem :: mem where
  "demo_mem = write_bytes (\<lambda>_. 0) 16 (bytes_of ''n=%05u!'')"

definition demo_args :: va_slots where
  "demo_args i = 42"

lemma demo_fmt: "cstr_at demo_mem 16 (bytes_of ''n=%05u!'')"
  by (simp add: demo_mem_def)

lemma demo_render:
  "render (\<lambda>_. None) demo_args 0 r (bytes_of ''n=%05u!'') = Some (bytes_of ''n=00042!'')"
  by (simp add: render.simps(2) list_directive_def list_fill_def list_length_def directive_text_def
      demo_args_def arg_unsigned_def uint_text_def padded_def nat_digits.simps digit_char_def
      numeral_3_eq_3)




lemma uint_text_digits:
  assumes "b = 10 \<or> b = 16"
  shows "\<forall>x \<in> set (uint_text upper b v). 0 \<le> char_to_digit x (int b)" "0 \<notin> set (uint_text upper b v)"
    "digits_value (int b) (uint_text upper b v) = unat v" "length (uint_text upper b v) \<le> 20"
proof -
  have b: "2 \<le> b" "b \<le> 16" "0 < b" using assms by auto
  have d: "char_to_digit (digit_char upper d) (int b) = int d" "digit_char upper d \<noteq> 0"
    if "d \<in> set (nat_digits b (unat v))" for d
    using digit_char_value [OF nat_digits_bound [OF b(1) that] b(2)] by blast+
  have zero: "char_to_digit 48 (int b) = 0" using b by (simp add: char_to_digit_def)
  show "\<forall>x \<in> set (uint_text upper b v). 0 \<le> char_to_digit x (int b)"
    using d(1) zero by (auto simp: uint_text_def)
  show "0 \<notin> set (uint_text upper b v)"
    using d(2) by (auto simp: uint_text_def dest: sym)
  have "foldl (\<lambda>r x. r * b + digit_val (int b) x) 0 (map (digit_char upper) ds)
          = foldl (\<lambda>r d. r * b + d) 0 ds"
    if "\<forall>d \<in> set ds. char_to_digit (digit_char upper d) (int b) = int d" for ds
    using that by (induction ds rule: rev_induct) (auto simp: digit_val_def)
  then show "digits_value (int b) (uint_text upper b v) = unat v"
    using d(1) nat_digits_value [OF b(1), of "unat v"] zero
    by (simp add: uint_text_def digits_value_def digit_val_def)
  have "unat v < b ^ 20"
  proof -
    have "(10 :: nat) ^ 20 \<le> b ^ 20" using assms by (intro power_mono) auto
    moreover have "unat v < 10 ^ 20" by (rule less_trans [OF unat_bound_u64]) simp
    ultimately show ?thesis by linarith
  qed
  then show "length (uint_text upper b v) \<le> 20"
    using nat_digits_length [OF b(1), of "unat v" 20] by (simp add: uint_text_def)
qed

text \<open>
  printing and parsing are inverse: the digits \<open>fmt_uint64\<close> writes for any 64-bit value, in
  base 10 or 16, terminated, are read back by \<open>strtoul\<close> as that value; 21 bytes are enough room.
\<close>
lemma fmt_uint64_strtoul:
  assumes "b = 10 \<or> b = 16" "20 < unat remain"
  shows "\<exists>m' n. fmt_uint64 m buf remain v (int b) upper 0 fill = Some (m', n) \<and> 0 < n \<and> n \<le> 20
    \<and> strtoul (m' (buf + u64_of_int n := 0)) buf NULL (int b)
        = Some (v, m' (buf + u64_of_int n := 0))"
proof -
  let ?t = "uint_text upper b v" and ?m = "write_bytes m buf (uint_text upper b v @ [0])"
  note t = uint_text_digits [OF assms(1), of upper v]
  have "nat_digits b (unat v) \<noteq> []" if "v \<noteq> 0"
    using that assms(1) by (auto simp: nat_digits.simps unat_eq_0)
  then have ne: "?t \<noteq> []" by (auto simp: uint_text_def)
  have "0 < remain" using assms(2) by (auto simp: word_less_nat_alt)
  from put_all_write [OF this, of ?t m buf 0]
  have fmt: "fmt_uint64 m buf remain v (int b) upper 0 fill
      = Some (write_bytes m buf ?t, int (length ?t))"
    using t(4) assms(2) by (simp add: fmt_uint64_text [OF assms(1)] padded_def Let_def)
  have "cstr_at ?m buf ?t"
    using t(2,4) by (intro cstr_at_write) auto
  then have "strtoul ?m buf NULL (int b) = Some (of_nat (digits_value (int b) ?t), ?m)"
    using strtoul_cstr [of ?m buf "[]" ?t "int b" NULL] t(1) assms(1) by auto
  then show ?thesis
    using fmt t(3,4) ne by (simp add: write_bytes_append u64_of_int_def)
qed

theorem fmt_uint64_strtoul_witness:
  "\<exists>m' n. fmt_uint64 (\<lambda>_. 0) 64 21 0xffffffffffffffff (int 16) True 0 32 = Some (m', n) \<and> 0 < n \<and> n \<le> 20
    \<and> strtoul (m' (64 + u64_of_int n := 0)) 64 NULL (int 16)
        = Some (0xffffffffffffffff, m' (64 + u64_of_int n := 0))"
  by (rule fmt_uint64_strtoul) simp_all

text \<open>The sign is written before the padding: \<open>%5d\<close> of -5 gives \<open>-   5\<close>, not \<open>   -5\<close>.\<close>

lemma int_text_sign_before_blanks: "int_text 5 (ch CHR '' '') (- 5) = bytes_of ''-   5''"
  by (simp add: int_text_def padded_def uint_text_def nat_digits.simps digit_char_def numeral_3_eq_3)

end
