(* ===== verification/Monitor_Call.thy ===== *)
theory Monitor_Call
  imports Pal_Format
begin

text \<open>
  \<open>wamr-pal/pal_monitor_call.c\<close>: the CPUID traps with which VMPL1 asks the VMPL0 monitor (SVSM)
  for service.  The monitor is not part of this program, so it is a parameter: a function from
  the trapped registers and the machine to the registers on return and the new machine.  The
  machine is the VMPL1 memory together with the state of the world outside, of any type.
\<close>

section \<open>Machine and trap\<close>

record 'x machine =
  mem :: mem
  world :: 'x

text \<open>\<open>struct monitor_call_data\<close>.\<close>

record monitor_call_data =
  rax :: u64
  rbx :: u64
  rcx :: u64
  rdx :: u64
  r8 :: u64
  r9 :: u64

text \<open>The four registers every trap carries; \<open>r8\<close> and \<open>r9\<close> come with the extended trap only.\<close>

type_synonym trap_regs = "u64 \<times> u64 \<times> u64 \<times> u64"
type_synonym 'x svsm = "trap_regs \<Rightarrow> (u64 \<times> u64) option \<Rightarrow> 'x machine \<Rightarrow> trap_regs \<times> 'x machine"

definition monitor_call ::
  "'x svsm \<Rightarrow> monitor_call_data \<Rightarrow> 'x machine \<Rightarrow> monitor_call_data \<times> 'x machine" where
  "monitor_call svsm data s =
     (let ((a, b, c, d), s') = svsm (rax data, rbx data, rcx data, rdx data) None s
      in (data\<lparr>rax := a, rbx := b, rcx := c, rdx := d\<rparr>, s'))"

definition extended_monitor_call ::
  "'x svsm \<Rightarrow> monitor_call_data \<Rightarrow> 'x machine \<Rightarrow> monitor_call_data \<times> 'x machine" where
  "extended_monitor_call svsm data s =
     (let ((a, b, c, d), s') =
            svsm (rax data, rbx data, rcx data, rdx data) (Some (r8 data, r9 data)) s
      in (data\<lparr>rax := a, rbx := b, rcx := c, rdx := d\<rparr>, s'))"

text \<open>
  The wrappers all fill the four registers and trap; \<open>r8\<close> and \<open>r9\<close> of their local structure
  stay unset and are never read.
\<close>

definition call4 :: "u64 \<Rightarrow> u64 \<Rightarrow> u64 \<Rightarrow> u64 \<Rightarrow> monitor_call_data" where
  "call4 a b c d = \<lparr>rax = a, rbx = b, rcx = c, rdx = d, r8 = 0, r9 = 0\<rparr>"

lemma monitor_call_call4:
  "monitor_call svsm (call4 a b c d) s
     = (let ((a', b', c', d'), s') = svsm (a, b, c, d) None s in (call4 a' b' c' d', s'))"
  by (simp add: monitor_call_def call4_def split: prod.splits)

section \<open>Errors and exit\<close>

definition pal_svsm_fail :: "'x svsm \<Rightarrow> addr \<Rightarrow> int \<Rightarrow> 'x machine \<Rightarrow> 'x machine" where
  "pal_svsm_fail svsm err err_no s =
     snd (monitor_call svsm (call4 0x4FFFFFFF err (u64_of_int err_no) 0) s)"

definition pal_svsm_exit :: "'x svsm \<Rightarrow> int \<Rightarrow> 'x machine \<Rightarrow> 'x machine" where
  "pal_svsm_exit svsm exitcode s =
     snd (monitor_call svsm (call4 0x4FFFFFFE (u64_of_int exitcode) 0 0) s)"

section \<open>Debug output\<close>

text \<open>\<open>(uint64_t)c\<close> of a signed character.\<close>

definition pal_svsm_debug_putc :: "'x svsm \<Rightarrow> byte \<Rightarrow> 'x machine \<Rightarrow> 'x machine" where
  "pal_svsm_debug_putc svsm c s = snd (monitor_call svsm (call4 0x4FFFFFFD (scast c) 0 0) s)"

partial_function (option) debug_print_loop ::
  "'x svsm \<Rightarrow> addr \<Rightarrow> 'x machine \<Rightarrow> 'x machine option" where
  "debug_print_loop svsm str s =
     (if mem s str \<noteq> 0
      then debug_print_loop svsm (str + 1) (pal_svsm_debug_putc svsm (mem s str) s)
      else Some (pal_svsm_debug_putc svsm 0 s))"

definition pal_svsm_debug_print :: "'x svsm \<Rightarrow> addr \<Rightarrow> 'x machine \<Rightarrow> 'x machine option" where
  "pal_svsm_debug_print svsm str s = (if str = NULL then Some s else debug_print_loop svsm str s)"

text \<open>The local arrays of the next two functions stand at \<open>buf\<close> in the stack frame.\<close>

definition pal_svsm_debug_print_hex ::
  "'x svsm \<Rightarrow> addr \<Rightarrow> u64 \<Rightarrow> 'x machine \<Rightarrow> 'x machine option" where
  "pal_svsm_debug_print_hex svsm buf val s =
     (let m = (mem s)(buf := ch CHR ''0''); m = m(buf + 1 := ch CHR ''x'');
          m = fold (\<lambda>i m. m(buf + of_nat (2 + i) :=
                              bytes_of ''0123456789abcdef'' ! unat (drop_bit (60 - i * 4) val AND 0xF)))
                [0..<16] m;
          m = m(buf + 18 := 0)
      in pal_svsm_debug_print svsm buf (s\<lparr>mem := m\<rparr>))"

function dec_loop :: "mem \<Rightarrow> addr \<Rightarrow> int \<Rightarrow> u32 \<Rightarrow> mem \<times> int" where
  "dec_loop m buf i uval =
     (if 0 < uval
      then dec_loop (m(buf + u64_of_int i := ch CHR ''0'' + ucast (uval mod 10))) buf (i - 1) (uval div 10)
      else (m, i))"
  by pat_completeness auto
termination
proof (relation "measure (\<lambda>(m, buf, i, uval). unat uval)")
  fix m buf i and uval :: u32
  assume "0 < uval"
  then have "0 < unat uval" by (simp add: word_less_nat_alt)
  then show "((m(buf + u64_of_int i := ch CHR ''0'' + ucast (uval mod 10)), buf, i - 1, uval div 10),
              (m, buf, i, uval)) \<in> measure (\<lambda>(m, buf, i, uval). unat uval)"
    by (simp add: unat_div)
qed simp

declare dec_loop.simps [simp del]

text \<open>\<open>zero\<close> is the address of the string literal \<open>"0"\<close>.\<close>

definition pal_svsm_debug_print_dec ::
  "'x svsm \<Rightarrow> addr \<Rightarrow> addr \<Rightarrow> int \<Rightarrow> 'x machine \<Rightarrow> 'x machine option" where
  "pal_svsm_debug_print_dec svsm buf zero val s =
     (let i = 10;
          m = (mem s)(buf + 11 := 0);
          neg = val < 0;
          uval = (if neg then word_of_int (- (val + 1)) + 1 else word_of_int val :: u32)
      in if uval = 0 then pal_svsm_debug_print svsm zero (s\<lparr>mem := m\<rparr>)
         else (let (m, i) = dec_loop m buf i uval;
                   (m, i) = (if neg then (m(buf + u64_of_int i := ch CHR ''-''), i - 1) else (m, i))
               in pal_svsm_debug_print svsm (buf + u64_of_int (i + 1)) (s\<lparr>mem := m\<rparr>)))"

section \<open>Memory and protection keys\<close>

text \<open>Each returns its C result, an \<open>int\<close> unless said otherwise, and the machine.\<close>

definition pal_svsm_virt_alloc ::
  "'x svsm \<Rightarrow> addr \<Rightarrow> u64 \<Rightarrow> u64 \<Rightarrow> 'x machine \<Rightarrow> int \<times> 'x machine" where
  "pal_svsm_virt_alloc svsm a siz flags s =
     (let (d, s') = monitor_call svsm (call4 0x4FFFFFFC a siz flags) s in (int_of_u64 (rcx d), s'))"

definition pal_svsm_free :: "'x svsm \<Rightarrow> addr \<Rightarrow> u64 \<Rightarrow> 'x machine \<Rightarrow> int \<times> 'x machine" where
  "pal_svsm_free svsm a siz s =
     (let (d, s') = monitor_call svsm (call4 0x4FFFFFF6 a siz 0) s in (int_of_u64 (rcx d), s'))"

definition pal_svsm_mpk_pkey_alloc :: "'x svsm \<Rightarrow> 'x machine \<Rightarrow> int \<times> 'x machine" where
  "pal_svsm_mpk_pkey_alloc svsm s =
     (let (d, s') = monitor_call svsm (call4 0x4FFFFFF1 0 0 0) s
      in (if rcx d \<noteq> 0 then - int_of_u64 (rcx d) else int_of_u64 (rax d), s'))"

definition pal_svsm_mpk_alloc ::
  "'x svsm \<Rightarrow> addr \<Rightarrow> u64 \<Rightarrow> u32 \<Rightarrow> 'x machine \<Rightarrow> int \<times> 'x machine" where
  "pal_svsm_mpk_alloc svsm a siz pkey s =
     (let (d, s') = monitor_call svsm (call4 0x4FFFFFF3 a siz (ucast pkey)) s
      in (int_of_u64 (rcx d), s'))"

definition pal_svsm_mpk_enter_domain :: "'x svsm \<Rightarrow> u32 \<Rightarrow> 'x machine \<Rightarrow> int \<times> 'x machine" where
  "pal_svsm_mpk_enter_domain svsm pkey s =
     (let (d, s') = monitor_call svsm (call4 0x4FFFFFF0 (ucast pkey) 0 0) s
      in (int_of_u64 (rcx d), s'))"

definition pal_svsm_mpk_exit_domain :: "'x svsm \<Rightarrow> u32 \<Rightarrow> 'x machine \<Rightarrow> int \<times> 'x machine" where
  "pal_svsm_mpk_exit_domain svsm pkey s =
     (let (d, s') = monitor_call svsm (call4 0x4FFFFFEF (ucast pkey) 0 0) s
      in (int_of_u64 (rcx d), s'))"

definition pal_svsm_mpk_free :: "'x svsm \<Rightarrow> addr \<Rightarrow> u64 \<Rightarrow> 'x machine \<Rightarrow> int \<times> 'x machine" where
  "pal_svsm_mpk_free svsm a siz s =
     (let (d, s') = monitor_call svsm (call4 0x4FFFFFF2 a siz 0) s in (int_of_u64 (rcx d), s'))"

definition pal_svsm_mpk_free_pkey ::
  "'x svsm \<Rightarrow> u32 \<Rightarrow> addr \<Rightarrow> u64 \<Rightarrow> 'x machine \<Rightarrow> int \<times> 'x machine" where
  "pal_svsm_mpk_free_pkey svsm pkey a siz s =
     (let (d, s') = monitor_call svsm (call4 0x4FFFFFEE (ucast pkey) a siz) s
      in (int_of_u64 (rcx d), s'))"

definition pal_svsm_mpk_query_pkru :: "'x svsm \<Rightarrow> 'x machine \<Rightarrow> u32 \<times> 'x machine" where
  "pal_svsm_mpk_query_pkru svsm s =
     (let (d, s') = monitor_call svsm (call4 0x4FFFFFED 0 0 0) s in (ucast (rax d), s'))"

section \<open>Trustlet result and channels\<close>

definition pal_svsm_get_result :: "'x svsm \<Rightarrow> 'x machine \<Rightarrow> 'x machine" where
  "pal_svsm_get_result svsm s = snd (monitor_call svsm (call4 0x4FFFFFF8 0 0 0) s)"

definition pal_svsm_inflate_channel ::
  "'x svsm \<Rightarrow> int \<Rightarrow> u64 \<Rightarrow> 'x machine \<Rightarrow> int \<times> 'x machine" where
  "pal_svsm_inflate_channel svsm select siz s =
     (0, snd (monitor_call svsm (call4 0x4FFFFFA3 0 (u64_of_int select) siz) s))"

section \<open>What is printed\<close>

text \<open>What the monitor promises of a console character: the memory of VMPL1 stays as it is.\<close>

definition console_keeps_mem :: "'x svsm \<Rightarrow> bool" where
  "console_keeps_mem svsm \<longleftrightarrow> (\<forall>c s. mem (pal_svsm_debug_putc svsm c s) = mem s)"

lemma debug_print_loop_cstr:
  "console_keeps_mem svsm \<Longrightarrow> cstr_at (mem s) p bs \<Longrightarrow>
   debug_print_loop svsm p s = Some (fold (pal_svsm_debug_putc svsm) (bs @ [0]) s)"
proof (induction bs arbitrary: p s)
  case Nil
  then show ?case by (simp add: debug_print_loop.simps)
next
  case (Cons b bs)
  let ?s = "pal_svsm_debug_putc svsm b s"
  have "mem ?s = mem s" using Cons.prems by (simp add: console_keeps_mem_def)
  then have "debug_print_loop svsm (p + 1) ?s = Some (fold (pal_svsm_debug_putc svsm) (bs @ [0]) ?s)"
    using Cons by simp
  then show ?case using Cons.prems by (simp add: debug_print_loop.simps [of svsm p])
qed

lemma debug_print_cstr:
  "console_keeps_mem svsm \<Longrightarrow> cstr_at (mem s) p bs \<Longrightarrow> p \<noteq> NULL \<Longrightarrow>
   pal_svsm_debug_print svsm p s = Some (fold (pal_svsm_debug_putc svsm) (bs @ [0]) s)"
  by (simp add: pal_svsm_debug_print_def debug_print_loop_cstr)

lemma decimal_digit: "ch CHR ''0'' + ucast (uval mod 10 :: u32) = digit_char False (unat uval mod 10)"
proof -
  have "unat uval mod 10 = unat (uval mod 10)" by (simp add: unat_mod)
  then have u: "uval mod 10 = of_nat (unat uval mod 10)" by simp
  have "unat uval mod 10 < 10" by simp
  then have "unat uval mod 10 \<in> {0, 1, 2, 3, 4, 5, 6, 7, 8, 9}"
    by (simp only: insert_iff empty_iff) arith
  then show ?thesis unfolding u digit_char_def by (elim insertE emptyE) simp_all
qed

lemma dec_loop_write:
  "dec_loop m buf i uval =
     (let ds = map (digit_char False) (rev (nat_digits 10 (unat uval)))
      in (write_bytes m (buf + u64_of_int (i + 1 - int (length ds))) ds, i - int (length ds)))"
proof (induction "unat uval" arbitrary: m i uval rule: less_induct)
  case less
  show ?case
  proof (cases "uval = 0")
    case True
    then show ?thesis by (simp add: dec_loop.simps nat_digits.simps)
  next
    case False
    let ?n = "unat uval"
    have pos: "0 < ?n" "0 < uval" using False by (simp_all add: unat_gt_0 word_greater_zero_iff)
    let ?ds = "map (digit_char False) (rev (nat_digits 10 (?n div 10)))"
    let ?d = "digit_char False (?n mod 10)"
    let ?m = "m(buf + u64_of_int i := ?d)"
    have digits: "nat_digits 10 ?n = ?n mod 10 # nat_digits 10 (?n div 10)"
      using pos by (simp add: nat_digits.simps [of 10 ?n])
    have L: "length ?ds < 2 ^ 64"
    proof -
      have "?n div 10 < 10 ^ 20"
        using unsigned_less [of uval, where ?'a = nat] by simp
      then have "length (nat_digits 10 (?n div 10)) \<le> 20" by (intro nat_digits_length) simp_all
      then show ?thesis by simp
    qed
    have "unat (uval div 10) < ?n" using pos by (simp add: unat_div)
    note IH = less [OF this, of ?m "i - 1", unfolded Let_def]
    let ?q = "buf + u64_of_int (i - int (length ?ds))"
    have at: "?q + of_nat (length ?ds) = buf + u64_of_int i" by (simp add: u64_of_int_def)
    have "dec_loop m buf i uval = dec_loop ?m buf (i - 1) (uval div 10)"
      using pos decimal_digit [of uval] by (simp add: dec_loop.simps [of m])
    also have "\<dots> = (write_bytes ?m ?q ?ds, i - 1 - int (length ?ds))"
      using IH by (simp add: unat_div)
    also have "write_bytes ?m ?q ?ds = (write_bytes m ?q ?ds)(buf + u64_of_int i := ?d)"
    proof (rule write_bytes_upd_outside)
      have "\<not> in_range ?q (length ?ds) (?q + of_nat (length ?ds))"
        using L by (simp add: in_range_offset del: length_map)
      then show "\<not> in_range ?q (length ?ds) (buf + u64_of_int i)" unfolding at .
    qed (use L in simp)
    also have "\<dots> = write_bytes m ?q (?ds @ [?d])" by (simp only: write_bytes_append at write_bytes.simps)
    finally show ?thesis by (simp add: digits Let_def algebra_simps)
  qed
qed

text \<open>The text of an \<open>int\<close>: what \<open>%d\<close> prints for it.\<close>

definition int_decimal :: "int \<Rightarrow> byte list" where
  "int_decimal val = int_text 0 (ch CHR '' '') (word_of_int val)"

lemma unat_u32_of_int: "0 \<le> v \<Longrightarrow> v < 2 ^ 32 \<Longrightarrow> unat (word_of_int v :: u32) = nat v"
  by (simp add: unat_eq_nat_uint uint_word_of_int)

lemma unat_u64_of_int: "0 \<le> v \<Longrightarrow> v < 2 ^ 64 \<Longrightarrow> unat (word_of_int v :: u64) = nat v"
  by (simp add: unat_eq_nat_uint uint_word_of_int)

lemma int_decimal_conv:
  assumes "- (2 ^ 31) \<le> val" "val < 2 ^ 31" "val \<noteq> 0"
  shows "int_decimal val = (if val < 0 then [ch CHR ''-''] else [])
           @ map (digit_char False) (rev (nat_digits 10 (nat \<bar>val\<bar>)))"
proof -
  have s: "sint (word_of_int val :: u64) = val"
    using assms by (simp add: sint_sbintrunc' signed_take_bit_int_eq_self)
  have "unat (if val < 0 then - word_of_int val else word_of_int val :: u64) = nat \<bar>val\<bar>"
    using assms unat_u64_of_int [of "\<bar>val\<bar>"] by (auto simp: abs_if)
  moreover have "nat \<bar>val\<bar> \<noteq> 0" using assms(3) by simp
  ultimately have u: "uint_text False 10 (if val < 0 then - word_of_int val else word_of_int val)
      = map (digit_char False) (rev (nat_digits 10 (nat \<bar>val\<bar>)))"
    by (auto simp: uint_text_def)
  show ?thesis
    using u by (cases "val < 0") (simp_all add: int_decimal_def int_text_def s padded_def)
qed

lemma int_decimal_length:
  assumes "- (2 ^ 31) \<le> val" "val < 2 ^ 31"
  shows "length (int_decimal val) \<le> 11"
proof (cases "val = 0")
  case True
  then show ?thesis by (simp add: int_decimal_def int_text_def padded_def uint_text_def)
next
  case False
  have "nat \<bar>val\<bar> < 10 ^ 10" using assms by simp
  then have "length (nat_digits 10 (nat \<bar>val\<bar>)) \<le> 10" by (intro nat_digits_length) simp_all
  then show ?thesis using int_decimal_conv [OF assms False] by (cases "val < 0") auto
qed

lemma int_decimal_no_NUL:
  assumes "- (2 ^ 31) \<le> val" "val < 2 ^ 31"
  shows "0 \<notin> set (int_decimal val)"
proof (cases "val = 0")
  case True
  then show ?thesis by (simp add: int_decimal_def int_text_def padded_def uint_text_def)
next
  case False
  have "digit_char False d \<noteq> 0" if "d \<in> set (nat_digits 10 n)" for d n
    using digit_char_value(2) [of d 10] nat_digits_bound [of 10 d n] that by simp
  then show ?thesis by (force simp: int_decimal_conv [OF assms False])
qed

lemma dec_buffer:
  assumes val: "- (2 ^ 31) \<le> val" "val < 2 ^ 31" "val \<noteq> 0"
    and uval: "uval = (if val < 0 then word_of_int (- (val + 1)) + 1 else word_of_int val :: u32)"
  shows "(let (m, i) = dec_loop m0 buf 10 uval;
              (m, i) = (if val < 0 then (m(buf + u64_of_int i := ch CHR ''-''), i - 1) else (m, i))
          in (m, i + 1))
       = (let t = int_decimal val; i = 11 - int (length t) in (write_bytes m0 (buf + u64_of_int i) t, i))"
proof -
  let ?ds = "map (digit_char False) (rev (nat_digits 10 (nat \<bar>val\<bar>)))"
  have un: "unat uval = nat \<bar>val\<bar>"
  proof -
    have "uval = word_of_int \<bar>val\<bar>" by (auto simp: uval abs_if)
    then show ?thesis using val unat_u32_of_int [of "\<bar>val\<bar>"] by simp
  qed
  have len: "length ?ds \<le> 10"
    using int_decimal_length [OF val(1,2)] int_decimal_conv [OF val] val
      nat_digits_length [of 10 "nat \<bar>val\<bar>" 10] by simp
  let ?q = "buf + u64_of_int (11 - int (length ?ds))"
  have loop: "dec_loop m0 buf 10 uval = (write_bytes m0 ?q ?ds, 10 - int (length ?ds))"
    using dec_loop_write [of m0 buf 10 uval] un by (simp add: Let_def)
  show ?thesis
  proof (cases "val < 0")
    case False
    then show ?thesis using int_decimal_conv [OF val] by (simp add: loop Let_def)
  next
    case True
    let ?p = "buf + u64_of_int (10 - int (length ?ds))"
    have q: "?q = ?p + 1" by (simp add: u64_of_int_def)
    have out: "\<not> in_range ?q (length ?ds) ?p"
    proof -
      have "unat (?p - ?q) = 2 ^ 64 - 1" unfolding q using unat_diff_swap [of ?p "?p + 1"] by simp
      then show ?thesis using len by (simp add: in_range_def)
    qed
    have "(write_bytes m0 ?q ?ds)(?p := ch CHR ''-'') = write_bytes (m0(?p := ch CHR ''-'')) ?q ?ds"
      by (rule write_bytes_upd_outside [symmetric]) (use out len in auto)
    then have "(write_bytes m0 ?q ?ds)(?p := ch CHR ''-'') = write_bytes m0 ?p (ch CHR ''-'' # ?ds)"
      by (simp only: q write_bytes.simps)
    moreover have "int_decimal val = ch CHR ''-'' # ?ds" using int_decimal_conv [OF val] True by simp
    ultimately show ?thesis using True by (simp add: loop Let_def algebra_simps)
  qed
qed

section \<open>Properties\<close>

text \<open>
  \<open>pal_svsm_debug_print_dec\<close> sends the decimal text of every 32-bit \<open>int\<close>, INT_MIN included,
  and then the flushing NUL, to the monitor's console; its buffer of 12 bytes is large enough, and
  it writes no other memory.
\<close>
lemma debug_print_dec_prints:
  assumes "console_keeps_mem svsm" "- (2 ^ 31) \<le> val" "val < 2 ^ 31" "buf \<noteq> NULL" "no_wrap buf 12"
    and "cstr_at (mem s) zero [ch CHR ''0'']" "zero \<noteq> NULL" "separate buf 12 zero 2"
  shows "\<exists>m. (\<forall>a. in_range buf 12 a \<or> m a = mem s a)
    \<and> pal_svsm_debug_print_dec svsm buf zero val s
        = Some (fold (pal_svsm_debug_putc svsm) (int_decimal val @ [0]) (s\<lparr>mem := m\<rparr>))"
proof (cases "val = 0")
  case True
  let ?m = "(mem s)(buf + 11 := 0)"
  have 11: "in_range buf 12 (buf + 11)" using in_range_offset [of 11 buf 12] by simp
  have ne: "buf + 11 \<noteq> zero" "buf + 11 \<noteq> zero + 1"
    using separate_neq [OF assms(8), of 11 0] separate_neq [OF assms(8), of 11 1] by auto
  then have "cstr_at ?m zero [ch CHR ''0'']" using assms(6) by auto
  then have "pal_svsm_debug_print svsm zero (s\<lparr>mem := ?m\<rparr>)
      = Some (fold (pal_svsm_debug_putc svsm) ([ch CHR ''0''] @ [0]) (s\<lparr>mem := ?m\<rparr>))"
    using assms(1,7) by (intro debug_print_cstr) simp_all
  moreover have "int_decimal val = [ch CHR ''0'']"
    using True by (simp add: int_decimal_def int_text_def padded_def uint_text_def)
  ultimately show ?thesis
    using True 11 by (intro exI [of _ ?m]) (auto simp: pal_svsm_debug_print_dec_def)
next
  case False
  define uval where "uval = (if val < 0 then word_of_int (- (val + 1)) + 1 else word_of_int val :: u32)"
  define i where "i = 11 - int (length (int_decimal val))"
  let ?base = "(mem s)(buf + 11 := 0)"
  let ?p = "buf + u64_of_int i"
  let ?m = "write_bytes ?base ?p (int_decimal val)"
  note buffer = dec_buffer [OF assms(2,3) False uval_def, of ?base buf, unfolded Let_def, folded i_def]
  have len: "length (int_decimal val) \<le> 11" by (rule int_decimal_length [OF assms(2,3)])
  have "uval \<noteq> 0"
  proof -
    have "uval = word_of_int \<bar>val\<bar>" by (auto simp: uval_def abs_if)
    then have "unat uval = nat \<bar>val\<bar>" using assms(2,3) unat_u32_of_int [of "\<bar>val\<bar>"] by simp
    then show ?thesis using False by auto
  qed
  then have run: "pal_svsm_debug_print_dec svsm buf zero val s
      = pal_svsm_debug_print svsm ?p (s\<lparr>mem := ?m\<rparr>)"
    using buffer unfolding pal_svsm_debug_print_dec_def
    by (auto simp: Let_def case_prod_unfold simp flip: uval_def split: if_splits)
  have p: "?p = buf + of_nat (11 - length (int_decimal val))" using len
    by (simp add: i_def u64_of_int_def of_nat_diff)
  have unp: "unat ?p = unat buf + (11 - length (int_decimal val))"
    unfolding p by (rule unat_add_no_wrap [OF assms(5)]) simp
  have end_p: "?p + of_nat (length (int_decimal val)) = buf + 11"
    by (simp add: i_def u64_of_int_def)
  have end_out: "\<not> in_range ?p (length (int_decimal val)) (buf + 11)"
    unfolding end_p [symmetric] using len by (simp add: in_range_offset)
  have cstr: "cstr_at ?m ?p (int_decimal val)"
    using int_decimal_no_NUL [OF assms(2,3)] len end_out read_write_bytes [of "int_decimal val" ?base ?p]
    by (simp add: cstr_at_conv_read end_p write_bytes_other)
  have "?p \<noteq> NULL" using unp assms(4) by (metis add_is_0 unat_eq_0)
  from debug_print_cstr [OF assms(1) _ this, of "s\<lparr>mem := ?m\<rparr>"] cstr run
  have "pal_svsm_debug_print_dec svsm buf zero val s
      = Some (fold (pal_svsm_debug_putc svsm) (int_decimal val @ [0]) (s\<lparr>mem := ?m\<rparr>))" by simp
  moreover have "in_range buf 12 a \<or> ?m a = mem s a" for a
  proof (rule disjCI)
    assume out: "?m a \<noteq> mem s a"
    show "in_range buf 12 a"
    proof (cases "in_range ?p (length (int_decimal val)) a")
      case True
      then obtain j where "j < length (int_decimal val)" "a = ?p + of_nat j" by (rule in_rangeE)
      then have "a = buf + of_nat (11 - length (int_decimal val) + j)"
        "11 - length (int_decimal val) + j < 12" using p len by (auto simp: add.assoc)
      then show ?thesis using in_range_offsetI [of _ 12 buf] by (simp del: of_nat_add)
    next
      case False
      then have "?m a = ?base a" using len by (simp add: write_bytes_other)
      then have "a = buf + of_nat 11" using out by (auto split: if_splits)
      then show ?thesis using in_range_offsetI [of 11 12 buf] by simp
    qed
  qed
  ultimately show ?thesis by blast
qed

text \<open>A monitor that records the traps it receives; it is used by the witnesses.\<close>

definition recording_svsm :: "trap_regs list svsm" where
  "recording_svsm r _ s = ((fst r, fst (snd r), 0, snd (snd (snd r))), s\<lparr>world := world s @ [r]\<rparr>)"

lemma recording_keeps_mem: "console_keeps_mem recording_svsm"
  by (simp add: console_keeps_mem_def pal_svsm_debug_putc_def monitor_call_call4 recording_svsm_def)

theorem debug_print_dec_prints_witness:
  "\<exists>m. (\<forall>a. in_range 64 12 a \<or> m a = write_bytes (\<lambda>_. 0) 16 [48, 0] a)
    \<and> pal_svsm_debug_print_dec recording_svsm 64 16 (- 2147483648)
          \<lparr>mem = write_bytes (\<lambda>_. 0) 16 [48, 0], world = []\<rparr>
        = Some (fold (pal_svsm_debug_putc recording_svsm) (int_decimal (- 2147483648) @ [0])
                 \<lparr>mem = m, world = []\<rparr>)"
  using debug_print_dec_prints [OF recording_keeps_mem, of "- 2147483648" 64
      "\<lparr>mem = write_bytes (\<lambda>_. 0) 16 [48, 0], world = []\<rparr>" 16]
  by (simp add: no_wrap_def separate_def)

end
