(* ===== verification/Runtime_Client.thy ===== *)
theory Runtime_Client
  imports Monitor_Call
begin

text \<open>
  \<open>runtime/client/cpuid.c\<close>: the traps of the native runtimes of a trustlet.  Each loads rax, some also
  rcx and rdx, and executes cpuid; the registers it does not load keep what \<open>regs\<close> holds.  What
  comes back is declared clobbered and dropped.
\<close>

definition cpuid_trap :: "'x svsm \<Rightarrow> trap_regs \<Rightarrow> 'x machine \<Rightarrow> 'x machine" where
  "cpuid_trap svsm regs s = snd (svsm regs None s)"

fun with_rax :: "u64 \<Rightarrow> trap_regs \<Rightarrow> trap_regs" where
  "with_rax x (a, b, c, d) = (x, b, c, d)"

fun with_rcx :: "u64 \<Rightarrow> trap_regs \<Rightarrow> trap_regs" where
  "with_rcx x (a, b, c, d) = (a, b, x, d)"

fun with_rdx :: "u64 \<Rightarrow> trap_regs \<Rightarrow> trap_regs" where
  "with_rdx x (a, b, c, d) = (a, b, c, x)"

definition notify_monitor :: "'x svsm \<Rightarrow> trap_regs \<Rightarrow> 'x machine \<Rightarrow> 'x machine" where
  "notify_monitor svsm regs s = cpuid_trap svsm (with_rax 0x4FFFFFF8 regs) s"

definition call_outb :: "'x svsm \<Rightarrow> trap_regs \<Rightarrow> 'x machine \<Rightarrow> 'x machine" where
  "call_outb svsm regs s = cpuid_trap svsm (with_rax 0x4FFFFFA0 regs) s"

definition trustlet_exit :: "'x svsm \<Rightarrow> trap_regs \<Rightarrow> 'x machine \<Rightarrow> 'x machine" where
  "trustlet_exit svsm regs s = cpuid_trap svsm (with_rax 0x4FFFFFA1 regs) s"

definition call_outb_with_value :: "'x svsm \<Rightarrow> trap_regs \<Rightarrow> u64 \<Rightarrow> 'x machine \<Rightarrow> 'x machine" where
  "call_outb_with_value svsm regs v s = cpuid_trap svsm (with_rcx v (with_rax 0x4FFFFFA2 regs)) s"

definition resize_channel :: "'x svsm \<Rightarrow> trap_regs \<Rightarrow> u64 \<Rightarrow> u64 \<Rightarrow> 'x machine \<Rightarrow> 'x machine" where
  "resize_channel svsm regs sel siz s =
     cpuid_trap svsm (with_rdx siz (with_rcx sel (with_rax 0x4FFFFFA1 regs))) s"

definition nop_trap :: "'x svsm \<Rightarrow> trap_regs \<Rightarrow> 'x machine \<Rightarrow> 'x machine" where
  "nop_trap svsm regs s = cpuid_trap svsm (with_rax 0x4FFFFFF5 regs) s"

definition finalize_zygote :: "'x svsm \<Rightarrow> trap_regs \<Rightarrow> 'x machine \<Rightarrow> 'x machine" where
  "finalize_zygote svsm regs s = cpuid_trap svsm (with_rax 0x4FFFFFF4 regs) s"

text \<open>A monitor that looks only at rax cannot tell a resized channel from the end of the trustlet.\<close>

lemma resize_channel_is_exit:
  assumes "\<And>a b c d b' c' d' s. svsm (a, b, c, d) None s = svsm (a, b', c', d') None s"
  shows "resize_channel svsm regs sel siz s = trustlet_exit svsm regs s"
proof -
  obtain a b c d where "regs = (a, b, c, d)" by (metis prod_cases4)
  with assms [of "0x4FFFFFA1" b sel siz s b c d] show ?thesis
    by (simp add: resize_channel_def trustlet_exit_def cpuid_trap_def)
qed

end
