(* ===== verification/Sev_Vmpl.thy ===== *)
theory Sev_Vmpl
  imports Wallet_Prelude
begin

text \<open>
  The host: how \<open>host/kvm/svm/sev.c\<close> switches a vCPU of an SEV-SNP guest between its privilege levels
  (VMPLs).  Each level has a save area (VMSA) of its own; a trap of VMPL1 or VMPL3 (\<open>vc_interception\<close>,
  svm.c) goes to the monitor at VMPL0, the guest asks for a level by the GHCB, and one vCPU may give
  another a save area.  The rest of KVM is not modelled; constants of headers outside this
  repository, the memory of the guest and the checks of addresses are the parameter \<open>E\<close>.
\<close>

section \<open>State\<close>

record snp_env =
  VMPL_MAX :: nat
  INVALID_PAGE :: u64
  AP_VMPL_MASK :: u32
  AP_VMPL_SHIFT :: nat
  AP_CREATE_ON_INIT :: u32
  AP_CREATE :: u32
  AP_DESTROY :: u32
  FEAT_SNP_ACTIVE :: u64
  FEAT_INT_INJ_MODES :: u64
  LEVEL_MASK :: u64
  LEVEL_POS :: nat
  ERROR_MASK :: u64
  ERROR_POS :: nat
  RSVD_MASK :: u64
  RSVD_POS :: nat
  INFO_MASK :: u64
  INFO_POS :: nat
  VMPL_RESP :: u64
  gmem_page :: "u64 \<Rightarrow> u64 option"
  page_address_valid :: "u64 \<Rightarrow> bool"
  host_pages :: "u64 set"

definition EINVAL :: int where "EINVAL = 22"

datatype mp_state = RUNNABLE | UNINITIALIZED | HALTED | AP_RESET_HOLD | OTHER_STATE nat

datatype ap_reset_hold_type = AP_RESET_HOLD_NONE | AP_RESET_HOLD_NAE_EVENT | AP_RESET_HOLD_MSR_PROTO

text \<open>\<open>struct vmpl_switch_sa\<close>.\<close>

record vmpl_switch_sa =
  sa_exit_int_info :: u32
  sa_exit_int_info_err :: u32
  sa_cr0 :: u64
  sa_cr2 :: u64
  sa_cr4 :: u64
  sa_cr8 :: u64
  sa_efer :: u64

text \<open>
  The parts of \<open>struct vcpu_svm\<close>, its VMCB and \<open>struct kvm_vcpu\<close> that a switch uses; arrays over the levels
  are functions.  \<open>ghcb_mapped\<close> is \<open>ghcb != NULL\<close>, \<open>host_vmsa\<close> the page the host allocated itself.
\<close>

record vcpu =
  snp_current_vmpl :: nat
  snp_target_vmpl :: nat
  vmsa_pa :: "nat \<Rightarrow> u64"
  ghcb_gpa :: "nat \<Rightarrow> u64"
  snp_vmsa_gpa :: "nat \<Rightarrow> u64"
  snp_vmsa_ap_create :: "nat \<Rightarrow> bool"
  vssa :: "nat \<Rightarrow> vmpl_switch_sa"
  host_vmsa :: u64
  ghcb_mapped :: bool
  ghcb_sa_free :: bool
  ghcb_sa_sync :: bool
  ap_reset_hold :: ap_reset_hold_type
  control_vmsa_pa :: u64
  control_ghcb_gpa :: u64
  exit_int_info :: u32
  exit_int_info_err :: u32
  cr0 :: u64
  cr2 :: u64
  cr4 :: u64
  cr8 :: u64
  efer :: u64
  mp_state :: mp_state
  pv_unhalted :: bool
  all_dirty :: bool
  update_request :: bool

text \<open>How often the host holds a page of the guest's memory.\<close>

type_synonym pins = "u64 \<Rightarrow> int"

definition valid_page :: "snp_env \<Rightarrow> u64 \<Rightarrow> bool" where
  "valid_page E pa \<longleftrightarrow> pa \<noteq> INVALID_PAGE E"

section \<open>Switching\<close>

text \<open>The scratch area and the registers are written back to the guest's memory, which is not modelled.\<close>

definition sev_es_unmap_ghcb :: "vcpu \<Rightarrow> vcpu" where
  "sev_es_unmap_ghcb v =
     (let v = v\<lparr>ap_reset_hold := AP_RESET_HOLD_NONE\<rparr>
      in if \<not> ghcb_mapped v then v
         else (let v = (if ghcb_sa_free v then v\<lparr>ghcb_sa_sync := False, ghcb_sa_free := False\<rparr> else v)
               in v\<lparr>ghcb_mapped := False\<rparr>))"

definition enter_target_vmpl :: "vcpu \<Rightarrow> vcpu" where
  "enter_target_vmpl v =
     (let v = (if snp_current_vmpl v \<noteq> snp_target_vmpl v
               then (let v = sev_es_unmap_ghcb v;
                         v = v\<lparr>ghcb_gpa := (ghcb_gpa v)(snp_current_vmpl v := control_ghcb_gpa v)\<rparr>;
                         v = v\<lparr>control_ghcb_gpa := ghcb_gpa v (snp_target_vmpl v)\<rparr>
                     in v\<lparr>snp_current_vmpl := snp_target_vmpl v\<rparr>)
               else v)
      in v\<lparr>all_dirty := True\<rparr>)"

definition sev_snp_update_protected_guest_state :: "snp_env \<Rightarrow> vcpu \<Rightarrow> pins \<Rightarrow> int \<times> vcpu \<times> pins" where
  "sev_snp_update_protected_guest_state E v p =
     (let t = snp_target_vmpl v;
          v = v\<lparr>pv_unhalted := False, mp_state := HALTED\<rparr>;
          cur_pa = vmsa_pa v t;
          v = v\<lparr>vmsa_pa := (vmsa_pa v)(t := INVALID_PAGE E), control_vmsa_pa := INVALID_PAGE E\<rparr>;
          p = (if cur_pa \<noteq> host_vmsa v \<and> valid_page E cur_pa then p(cur_pa := p cur_pa - 1) else p)
      in if valid_page E (snp_vmsa_gpa v t)
         then (case gmem_page E (snp_vmsa_gpa v t) of
                 None \<Rightarrow> (- EINVAL, v, p)
               | Some pa \<Rightarrow>
                   (let p = p(pa := p pa + 1);
                        v = v\<lparr>vmsa_pa := (vmsa_pa v)(t := pa), control_vmsa_pa := pa\<rparr>;
                        v = v\<lparr>pv_unhalted := False, mp_state := RUNNABLE\<rparr>;
                        v = v\<lparr>snp_vmsa_gpa := (snp_vmsa_gpa v)(t := INVALID_PAGE E)\<rparr>
                    in (0, enter_target_vmpl v, p)))
         else (0, enter_target_vmpl v, p))"

definition sev_snp_init_protected_guest_state :: "snp_env \<Rightarrow> vcpu \<Rightarrow> pins \<Rightarrow> bool \<times> vcpu \<times> pins" where
  "sev_snp_init_protected_guest_state E v p =
     (let t = snp_target_vmpl v
      in if \<not> snp_vmsa_ap_create v t then (False, v, p)
         else (let v = v\<lparr>snp_vmsa_ap_create := (snp_vmsa_ap_create v)(t := False)\<rparr>;
                   (ret, v, p) = sev_snp_update_protected_guest_state E v p
               in (True, v, p)))"

definition save_vssa :: "vcpu \<Rightarrow> vmpl_switch_sa" where
  "save_vssa v =
     \<lparr>sa_exit_int_info = exit_int_info v, sa_exit_int_info_err = exit_int_info_err v, sa_cr0 = cr0 v, sa_cr2 = cr2 v,
      sa_cr4 = cr4 v, sa_cr8 = cr8 v, sa_efer = efer v\<rparr>"

definition load_vssa :: "vmpl_switch_sa \<Rightarrow> vcpu \<Rightarrow> vcpu" where
  "load_vssa sa v =
     v\<lparr>exit_int_info := sa_exit_int_info sa, exit_int_info_err := sa_exit_int_info_err sa, cr0 := sa_cr0 sa,
       cr2 := sa_cr2 sa, cr4 := sa_cr4 sa, cr8 := sa_cr8 sa, efer := sa_efer sa\<rparr>"

definition run_vmpl_vmsa :: "snp_env \<Rightarrow> nat \<Rightarrow> vcpu \<Rightarrow> pins \<Rightarrow> int \<times> vcpu \<times> pins" where
  "run_vmpl_vmsa E new_vmpl v p =
     (if VMPL_MAX E \<le> new_vmpl then (- EINVAL, v, p)
      else (let old_vmpl = snp_current_vmpl v; v = v\<lparr>snp_target_vmpl := new_vmpl\<rparr>
            in if snp_target_vmpl v = snp_current_vmpl v then (0, v, p)
               else (let (init, v, p) = sev_snp_init_protected_guest_state E v p
                     in if init then (0, v, p)
                        else if \<not> valid_page E (vmsa_pa v new_vmpl) then (- EINVAL, v, p)
                        else (let v = sev_es_unmap_ghcb v;
                                  v = v\<lparr>ghcb_gpa := (ghcb_gpa v)(old_vmpl := control_ghcb_gpa v)\<rparr>;
                                  v = v\<lparr>vssa := (vssa v)(old_vmpl := save_vssa v)\<rparr>;
                                  v = v\<lparr>control_vmsa_pa := vmsa_pa v new_vmpl\<rparr>;
                                  v = v\<lparr>control_ghcb_gpa := ghcb_gpa v new_vmpl\<rparr>;
                                  v = load_vssa (vssa v new_vmpl) v
                              in (0, v\<lparr>snp_current_vmpl := new_vmpl, all_dirty := True\<rparr>, p)))))"

definition SVMS_VMPL_LEVEL :: nat where "SVMS_VMPL_LEVEL = 0"

definition sev_vc_vmpl :: "snp_env \<Rightarrow> vcpu \<Rightarrow> pins \<Rightarrow> int \<times> vcpu \<times> pins" where
  "sev_vc_vmpl E v p =
     (let vmpl = snp_current_vmpl v
      in if vmpl = 0 \<or> vmpl = 2 then (1, v, p)
         else (let (ret, v, p) = run_vmpl_vmsa E SVMS_VMPL_LEVEL v p
               in if ret \<noteq> 0 then (ret, v, p) else (1, v, p)))"

text \<open>The request by the GHCB: \<open>sw_exit_info_1\<close> and the state.\<close>

definition sev_run_vmpl_vmsa :: "snp_env \<Rightarrow> u64 \<Rightarrow> vcpu \<Rightarrow> pins \<Rightarrow> u64 \<times> vcpu \<times> pins" where
  "sev_run_vmpl_vmsa E exit_info1 v p =
     (let vmpl = (ucast exit_info1 :: u32);
          (ret, v, p) = run_vmpl_vmsa E (unat vmpl) v p
      in if ret \<noteq> 0 then (2, v, p) else (0, v, p))"

definition set_ghcb_msr_bits :: "u64 \<Rightarrow> u64 \<Rightarrow> nat \<Rightarrow> vcpu \<Rightarrow> vcpu" where
  "set_ghcb_msr_bits x msk pos v =
     (let v = v\<lparr>control_ghcb_gpa := control_ghcb_gpa v AND NOT (push_bit pos msk)\<rparr>
      in v\<lparr>control_ghcb_gpa := control_ghcb_gpa v OR push_bit pos (x AND msk)\<rparr>)"

definition get_ghcb_msr_bits :: "u64 \<Rightarrow> nat \<Rightarrow> vcpu \<Rightarrow> u64" where
  "get_ghcb_msr_bits msk pos v = drop_bit pos (control_ghcb_gpa v) AND msk"

text \<open>\<open>GHCB_MSR_VMPL_REQ\<close> of the protocol by the GHCB register.\<close>

definition ghcb_msr_vmpl_req :: "snp_env \<Rightarrow> vcpu \<Rightarrow> pins \<Rightarrow> vcpu \<times> pins" where
  "ghcb_msr_vmpl_req E v p =
     (let vmpl = (ucast (get_ghcb_msr_bits (LEVEL_MASK E) (LEVEL_POS E) v) :: u32);
          v = set_ghcb_msr_bits 0 (ERROR_MASK E) (ERROR_POS E) v;
          v = set_ghcb_msr_bits 0 (RSVD_MASK E) (RSVD_POS E) v;
          v = set_ghcb_msr_bits (VMPL_RESP E) (INFO_MASK E) (INFO_POS E) v;
          (ret, v, p) = run_vmpl_vmsa E (unat vmpl) v p
      in (if ret \<noteq> 0 then set_ghcb_msr_bits 1 (ERROR_MASK E) (ERROR_POS E) v else v, p))"

section \<open>Giving a vCPU a save area\<close>

text \<open>The guest: its vCPUs by APIC id, the features of each level, the pages the host holds.\<close>

record vm =
  vcpus :: "u32 \<Rightarrow> vcpu option"
  sev_features :: "nat \<Rightarrow> u64"
  vm_pins :: pins

definition put_vcpu :: "u32 \<Rightarrow> vcpu \<Rightarrow> vm \<Rightarrow> vm" where
  "put_vcpu i v m = m\<lparr>vcpus := (vcpus m)(i \<mapsto> v)\<rparr>"

text \<open>\<open>out:\<close>, unless the request only takes effect on the next init.\<close>

definition kick_vcpu :: "vcpu \<Rightarrow> vcpu" where
  "kick_vcpu v =
     (let v = (if mp_state v = UNINITIALIZED then v\<lparr>mp_state := RUNNABLE\<rparr> else v) in v\<lparr>update_request := True\<rparr>)"

text \<open>The checks of a request that brings a save area; they may set the features of a level.\<close>

definition ap_create_checks :: "snp_env \<Rightarrow> nat \<Rightarrow> u64 \<Rightarrow> u64 \<Rightarrow> vm \<Rightarrow> bool \<times> vm" where
  "ap_create_checks E vmpl rax exit_info2 m =
     (let m = (if sev_features m vmpl = 0
               then m\<lparr>sev_features := (sev_features m)(vmpl := rax OR FEAT_SNP_ACTIVE E)\<rparr> else m);
          diff = rax XOR sev_features m vmpl
      in (diff AND FEAT_INT_INJ_MODES E = 0 \<and> page_address_valid E exit_info2 \<and> exit_info2 mod 0x200000 \<noteq> 0, m))"

text \<open>The vCPU \<open>me\<close> makes the request.\<close>

definition sev_snp_ap_creation :: "snp_env \<Rightarrow> u32 \<Rightarrow> vcpu \<Rightarrow> u64 \<Rightarrow> u64 \<Rightarrow> u64 \<Rightarrow> vm \<Rightarrow> int \<times> vm" where
  "sev_snp_ap_creation E me svm exit_info1 exit_info2 rax m =
     (let request = (ucast exit_info1 :: u32); apic_id = (ucast (drop_bit 32 exit_info1) :: u32);
          vmpl = unat (drop_bit (AP_VMPL_SHIFT E) (request AND AP_VMPL_MASK E));
          request = request AND NOT (AP_VMPL_MASK E)
      in if VMPL_MAX E \<le> vmpl then (- EINVAL, m)
         else (case vcpus m apic_id of
                 None \<Rightarrow> (- EINVAL, m)
               | Some target \<Rightarrow>
                   (let target = target\<lparr>snp_vmsa_gpa := (snp_vmsa_gpa target)(vmpl := INVALID_PAGE E),
                          snp_vmsa_ap_create := (snp_vmsa_ap_create target)(vmpl := True)\<rparr>;
                        fail = (\<lambda>m. (- EINVAL, put_vcpu apic_id (kick_vcpu target) m))
                    in if vmpl = 0 \<and> (me = apic_id \<or> vmsa_pa svm 0 \<noteq> control_vmsa_pa svm) then fail m
                       else (let (ok, m) = (if request < AP_DESTROY E then ap_create_checks E vmpl rax exit_info2 m
                                            else (True, m))
                             in if \<not> ok then fail m
                                else if request = AP_CREATE_ON_INIT E \<or> request = AP_CREATE E
                                then (let target = target\<lparr>snp_target_vmpl := vmpl,
                                            snp_vmsa_gpa := (snp_vmsa_gpa target)(vmpl := exit_info2 AND NOT 0xFFF)\<rparr>
                                      in (0, put_vcpu apic_id
                                               (if request = AP_CREATE_ON_INIT E then target else kick_vcpu target) m))
                                else if request = AP_DESTROY E then (0, put_vcpu apic_id (kick_vcpu target) m)
                                else fail m))))"

text \<open>What an init event does of this: \<open>svm_vcpu_reset\<close>, then the VMSA that \<open>sev_es_init_vmcb\<close> sets.\<close>

definition svm_vcpu_init_event :: "snp_env \<Rightarrow> vcpu \<Rightarrow> pins \<Rightarrow> vcpu \<times> pins" where
  "svm_vcpu_init_event E v p =
     (let (_, v, p) = sev_snp_init_protected_guest_state E v p
      in (v\<lparr>control_vmsa_pa := vmsa_pa v (snp_current_vmpl v)\<rparr>, p))"

text \<open>A created and reset vCPU, as far as the levels go.\<close>

definition sev_es_vcpu_reset :: "snp_env \<Rightarrow> u64 \<Rightarrow> vcpu \<Rightarrow> vcpu" where
  "sev_es_vcpu_reset E sev_info v =
     (let v = v\<lparr>control_ghcb_gpa := sev_info\<rparr>;
          v = v\<lparr>ghcb_gpa := (ghcb_gpa v)(0 := sev_info)\<rparr>
      in fold (\<lambda>i v. v\<lparr>vmsa_pa := (vmsa_pa v)(i := INVALID_PAGE E), ghcb_gpa := (ghcb_gpa v)(i := sev_info)\<rparr>)
           [1..<VMPL_MAX E] v)"

definition svm_vcpu_create :: "u64 \<Rightarrow> vcpu \<Rightarrow> vcpu" where
  "svm_vcpu_create pa v = v\<lparr>host_vmsa := pa, vmsa_pa := (vmsa_pa v)(0 := pa)\<rparr>"

section \<open>The machine\<close>

text \<open>\<open>svm_vcpu_create\<close> on zeroed memory, the reset, and the VMSA that \<open>sev_es_init_vmcb\<close> sets.\<close>

definition zero_vcpu :: vcpu where
  "zero_vcpu =
     \<lparr>snp_current_vmpl = 0, snp_target_vmpl = 0, vmsa_pa = \<lambda>_. 0, ghcb_gpa = \<lambda>_. 0, snp_vmsa_gpa = \<lambda>_. 0,
      snp_vmsa_ap_create = \<lambda>_. False, vssa = \<lambda>_. \<lparr>sa_exit_int_info = 0, sa_exit_int_info_err = 0, sa_cr0 = 0, sa_cr2 = 0,
        sa_cr4 = 0, sa_cr8 = 0, sa_efer = 0\<rparr>,
      host_vmsa = 0, ghcb_mapped = False, ghcb_sa_free = False, ghcb_sa_sync = False, ap_reset_hold = AP_RESET_HOLD_NONE,
      control_vmsa_pa = 0, control_ghcb_gpa = 0, exit_int_info = 0, exit_int_info_err = 0, cr0 = 0, cr2 = 0, cr4 = 0,
      cr8 = 0, efer = 0, mp_state = UNINITIALIZED, pv_unhalted = False, all_dirty = False, update_request = False\<rparr>"

definition new_vcpu :: "snp_env \<Rightarrow> u64 \<Rightarrow> u64 \<Rightarrow> vcpu" where
  "new_vcpu E pa sev_info =
     (let v = sev_es_vcpu_reset E sev_info (svm_vcpu_create pa zero_vcpu)
      in v\<lparr>control_vmsa_pa := vmsa_pa v (snp_current_vmpl v)\<rparr>)"

text \<open>What the guest changes of this state while it runs.\<close>

definition guest_ran :: "vcpu \<Rightarrow> vcpu \<Rightarrow> bool" where
  "guest_ran v w \<longleftrightarrow>
     w = v\<lparr>control_ghcb_gpa := control_ghcb_gpa w, ghcb_mapped := ghcb_mapped w, ghcb_sa_free := ghcb_sa_free w,
           ghcb_sa_sync := ghcb_sa_sync w, ap_reset_hold := ap_reset_hold w, exit_int_info := exit_int_info w,
           exit_int_info_err := exit_int_info_err w, cr0 := cr0 w, cr2 := cr2 w, cr4 := cr4 w, cr8 := cr8 w,
           efer := efer w, mp_state := mp_state w, pv_unhalted := pv_unhalted w, all_dirty := all_dirty w,
           update_request := update_request w\<rparr>"

text \<open>The steps of the vCPUs of a guest, in any order.\<close>

inductive vm_step :: "snp_env \<Rightarrow> vm \<Rightarrow> vm \<Rightarrow> bool" for E where
  step_guest: "vcpus m i = Some v \<Longrightarrow> guest_ran v w \<Longrightarrow> vm_step E m (put_vcpu i w m)"
| step_vc: "vcpus m i = Some v \<Longrightarrow> sev_vc_vmpl E v (vm_pins m) = (ret, w, p)
    \<Longrightarrow> vm_step E m ((put_vcpu i w m)\<lparr>vm_pins := p\<rparr>)"
| step_run: "vcpus m i = Some v \<Longrightarrow> sev_run_vmpl_vmsa E info v (vm_pins m) = (err, w, p)
    \<Longrightarrow> vm_step E m ((put_vcpu i w m)\<lparr>vm_pins := p\<rparr>)"
| step_msr: "vcpus m i = Some v \<Longrightarrow> ghcb_msr_vmpl_req E v (vm_pins m) = (w, p)
    \<Longrightarrow> vm_step E m ((put_vcpu i w m)\<lparr>vm_pins := p\<rparr>)"
| step_init: "vcpus m i = Some v \<Longrightarrow> svm_vcpu_init_event E v (vm_pins m) = (w, p)
    \<Longrightarrow> vm_step E m ((put_vcpu i w m)\<lparr>vm_pins := p\<rparr>)"
| step_create: "vcpus m i = Some v \<Longrightarrow> sev_snp_ap_creation E i v info1 info2 rax m = (ret, m') \<Longrightarrow> vm_step E m m'"

definition snp_env_ok :: "snp_env \<Rightarrow> bool" where
  "snp_env_ok E \<longleftrightarrow>
     0 < VMPL_MAX E \<and> (\<forall>g pa. gmem_page E g = Some pa \<longrightarrow> valid_page E pa \<and> pa \<notin> host_pages E)"

definition vm_start :: "snp_env \<Rightarrow> vm \<Rightarrow> bool" where
  "vm_start E m \<longleftrightarrow>
     (\<forall>i v. vcpus m i = Some v \<longrightarrow> (\<exists>pa\<in>host_pages E. \<exists>info. v = new_vcpu E pa info)) \<and> vm_pins m = (\<lambda>_. 0)"

section \<open>What a step keeps\<close>

definition vcpu_ok :: "snp_env \<Rightarrow> vcpu \<Rightarrow> bool" where
  "vcpu_ok E v \<longleftrightarrow>
     snp_current_vmpl v < VMPL_MAX E \<and> snp_target_vmpl v < VMPL_MAX E \<and> host_vmsa v \<in> host_pages E
     \<and> (control_vmsa_pa v = vmsa_pa v (snp_current_vmpl v) \<or> control_vmsa_pa v = INVALID_PAGE E)"

text \<open>How often a vCPU uses a page as save area.\<close>

primrec count_uses :: "nat \<Rightarrow> (nat \<Rightarrow> u64) \<Rightarrow> u64 \<Rightarrow> int" where
  "count_uses 0 f pa = 0"
| "count_uses (Suc n) f pa = count_uses n f pa + (if f n = pa then 1 else 0)"

definition uses :: "snp_env \<Rightarrow> vcpu \<Rightarrow> u64 \<Rightarrow> int" where
  "uses E v pa = count_uses (VMPL_MAX E) (vmsa_pa v) pa"

definition guest_page :: "snp_env \<Rightarrow> u64 \<Rightarrow> bool" where
  "guest_page E pa \<longleftrightarrow> valid_page E pa \<and> pa \<notin> host_pages E"

text \<open>A step of one vCPU: it stays well-formed, and what it holds changes with what it uses.\<close>

definition keeps :: "snp_env \<Rightarrow> vcpu \<Rightarrow> pins \<Rightarrow> vcpu \<Rightarrow> pins \<Rightarrow> bool" where
  "keeps E v p w q \<longleftrightarrow>
     vcpu_ok E w \<and> (\<forall>pa. guest_page E pa \<longrightarrow> q pa - uses E w pa = p pa - uses E v pa)"

lemma count_uses_above: "n \<le> t \<Longrightarrow> count_uses n (f(t := x)) pa = count_uses n f pa"
  by (induction n) auto

lemma count_uses_upd:
  "t < n \<Longrightarrow> count_uses n (f(t := x)) pa =
     count_uses n f pa - (if f t = pa then 1 else 0) + (if x = pa then 1 else 0)"
proof (induction n)
  case (Suc n)
  then show ?case using count_uses_above [of n n f x pa] by (cases "t = n") (simp_all add: fun_upd_same fun_upd_other del: fun_upd_apply)
qed simp

lemma enter_target_vmpl_keeps [simp]:
  "vmsa_pa (enter_target_vmpl v) = vmsa_pa v" "host_vmsa (enter_target_vmpl v) = host_vmsa v"
  "control_vmsa_pa (enter_target_vmpl v) = control_vmsa_pa v" "snp_target_vmpl (enter_target_vmpl v) = snp_target_vmpl v"
  "snp_current_vmpl (enter_target_vmpl v) = snp_target_vmpl v"
  by (simp_all add: enter_target_vmpl_def sev_es_unmap_ghcb_def Let_def)

lemma update_keeps:
  assumes "snp_env_ok E" "vcpu_ok E v" "sev_snp_update_protected_guest_state E v p = (r, w, q)"
  shows "keeps E v p w q"
proof -
  have t: "snp_target_vmpl v < VMPL_MAX E" using assms(2) by (simp add: vcpu_ok_def)
  have "vcpu_ok E w"
    using assms(2,3) by (auto simp: sev_snp_update_protected_guest_state_def vcpu_ok_def Let_def split: if_splits option.splits)
  moreover have "q pa - uses E w pa = p pa - uses E v pa" if "guest_page E pa" for pa
    using assms that
    by (auto simp: sev_snp_update_protected_guest_state_def vcpu_ok_def guest_page_def valid_page_def uses_def count_uses_upd [OF t]
        Let_def split: if_splits option.splits)
  ultimately show ?thesis by (simp add: keeps_def)
qed

lemma keeps_refl: "vcpu_ok E v \<Longrightarrow> keeps E v p v p"
  by (simp add: keeps_def)

lemma keeps_same:
  "keeps E v p w q \<Longrightarrow> vmsa_pa w' = vmsa_pa w \<Longrightarrow> vcpu_ok E w' \<Longrightarrow> keeps E v p w' q"
  by (simp add: keeps_def uses_def)

lemma keeps_from:
  "keeps E v p w q \<Longrightarrow> vmsa_pa v = vmsa_pa v' \<Longrightarrow> keeps E v' p w q"
  by (simp add: keeps_def uses_def)

lemma init_keeps:
  assumes "snp_env_ok E" "vcpu_ok E v" "sev_snp_init_protected_guest_state E v p = (r, w, q)"
  shows "keeps E v p w q"
proof (cases "snp_vmsa_ap_create v (snp_target_vmpl v)")
  case True
  let ?v = "v\<lparr>snp_vmsa_ap_create := (snp_vmsa_ap_create v)(snp_target_vmpl v := False)\<rparr>"
  obtain ret w' q' where u: "sev_snp_update_protected_guest_state E ?v p = (ret, w', q')" by (metis prod_cases3)
  have "vcpu_ok E ?v" using assms(2) by (simp add: vcpu_ok_def)
  from update_keeps [OF assms(1) this u] have "keeps E v p w' q'" by (rule keeps_from) simp
  with u assms(3) True show ?thesis by (simp add: sev_snp_init_protected_guest_state_def)
next
  case False
  with assms show ?thesis by (auto simp: sev_snp_init_protected_guest_state_def intro: keeps_refl)
qed

lemma init_no_request:
  "sev_snp_init_protected_guest_state E v p = (r, w, q) \<Longrightarrow> \<not> r \<Longrightarrow> w = v \<and> q = p"
  by (auto simp: sev_snp_init_protected_guest_state_def Let_def split: if_splits prod.splits)

lemma unmap_ghcb_simps [simp]:
  "snp_current_vmpl (sev_es_unmap_ghcb v) = snp_current_vmpl v" "snp_target_vmpl (sev_es_unmap_ghcb v) = snp_target_vmpl v"
  "vmsa_pa (sev_es_unmap_ghcb v) = vmsa_pa v" "host_vmsa (sev_es_unmap_ghcb v) = host_vmsa v"
  "control_vmsa_pa (sev_es_unmap_ghcb v) = control_vmsa_pa v" "ghcb_gpa (sev_es_unmap_ghcb v) = ghcb_gpa v"
  "control_ghcb_gpa (sev_es_unmap_ghcb v) = control_ghcb_gpa v" "vssa (sev_es_unmap_ghcb v) = vssa v"
  "snp_vmsa_ap_create (sev_es_unmap_ghcb v) = snp_vmsa_ap_create v" "save_vssa (sev_es_unmap_ghcb v) = save_vssa v"
  by (simp_all add: sev_es_unmap_ghcb_def save_vssa_def Let_def)

lemma load_vssa_simps [simp]:
  "snp_current_vmpl (load_vssa sa v) = snp_current_vmpl v" "snp_target_vmpl (load_vssa sa v) = snp_target_vmpl v"
  "vmsa_pa (load_vssa sa v) = vmsa_pa v" "host_vmsa (load_vssa sa v) = host_vmsa v"
  "control_vmsa_pa (load_vssa sa v) = control_vmsa_pa v" "ghcb_gpa (load_vssa sa v) = ghcb_gpa v"
  "control_ghcb_gpa (load_vssa sa v) = control_ghcb_gpa v" "vssa (load_vssa sa v) = vssa v"
  "snp_vmsa_ap_create (load_vssa sa v) = snp_vmsa_ap_create v" "save_vssa (load_vssa sa v) = sa"
  by (simp_all add: load_vssa_def save_vssa_def)

lemma run_keeps:
  assumes "snp_env_ok E" "vcpu_ok E v" "run_vmpl_vmsa E n v p = (r, w, q)"
  shows "keeps E v p w q"
proof (cases "n < VMPL_MAX E \<and> n \<noteq> snp_current_vmpl v")
  case True
  let ?v = "v\<lparr>snp_target_vmpl := n\<rparr>"
  have ok: "vcpu_ok E ?v" using assms(2) True by (simp add: vcpu_ok_def)
  obtain init w1 q1 where i: "sev_snp_init_protected_guest_state E ?v p = (init, w1, q1)" by (metis prod_cases3)
  have k: "keeps E v p w1 q1" by (rule keeps_from [OF init_keeps [OF assms(1) ok i]]) simp
  show ?thesis
  proof (cases init)
    case init: True
    with assms(3) True i k show ?thesis by (simp add: run_vmpl_vmsa_def)
  next
    case False
    with init_no_request [OF i] have "w1 = ?v" "q1 = p" by simp_all
    with assms(2,3) True i False k show ?thesis
      by (auto simp: run_vmpl_vmsa_def Let_def vcpu_ok_def keeps_def uses_def split: if_splits)
  qed
next
  case False
  with assms(2,3) show ?thesis
    by (auto simp: run_vmpl_vmsa_def vcpu_ok_def keeps_def uses_def split: if_splits)
qed

lemma vc_keeps:
  "snp_env_ok E \<Longrightarrow> vcpu_ok E v \<Longrightarrow> sev_vc_vmpl E v p = (r, w, q) \<Longrightarrow> keeps E v p w q"
  by (auto simp: sev_vc_vmpl_def Let_def intro: keeps_refl dest: run_keeps split: if_splits prod.splits)

lemma run_request_keeps:
  "snp_env_ok E \<Longrightarrow> vcpu_ok E v \<Longrightarrow> sev_run_vmpl_vmsa E info v p = (r, w, q) \<Longrightarrow> keeps E v p w q"
  by (auto simp: sev_run_vmpl_vmsa_def Let_def dest: run_keeps split: if_splits prod.splits)

lemma set_msr_bits_simps [simp]:
  "vmsa_pa (set_ghcb_msr_bits x b n v) = vmsa_pa v" "vcpu_ok E (set_ghcb_msr_bits x b n v) = vcpu_ok E v"
  by (simp_all add: set_ghcb_msr_bits_def vcpu_ok_def Let_def)

lemma msr_keeps:
  assumes "snp_env_ok E" "vcpu_ok E v" "ghcb_msr_vmpl_req E v p = (w, q)"
  shows "keeps E v p w q"
proof -
  define u where "u = set_ghcb_msr_bits (VMPL_RESP E) (INFO_MASK E) (INFO_POS E)
     (set_ghcb_msr_bits 0 (RSVD_MASK E) (RSVD_POS E) (set_ghcb_msr_bits 0 (ERROR_MASK E) (ERROR_POS E) v))"
  let ?n = "unat (ucast (get_ghcb_msr_bits (LEVEL_MASK E) (LEVEL_POS E) v) :: u32)"
  obtain r w' q' where r: "run_vmpl_vmsa E ?n u p = (r, w', q')" by (metis prod_cases3)
  have "vcpu_ok E u" "vmsa_pa u = vmsa_pa v" using assms(2) by (simp_all add: u_def)
  with run_keeps [OF assms(1) _ r] have k: "keeps E v p w' q'" by (blast intro: keeps_from)
  then have "vcpu_ok E w'" by (simp add: keeps_def)
  moreover have "w = (if r \<noteq> 0 then set_ghcb_msr_bits 1 (ERROR_MASK E) (ERROR_POS E) w' else w')" "q = q'"
    using assms(3) r by (simp_all add: ghcb_msr_vmpl_req_def u_def Let_def)
  ultimately show ?thesis by (auto intro!: keeps_same [OF k])
qed

lemma init_event_keeps:
  assumes "snp_env_ok E" "vcpu_ok E v" "svm_vcpu_init_event E v p = (w, q)"
  shows "keeps E v p w q"
proof -
  obtain r w' q' where i: "sev_snp_init_protected_guest_state E v p = (r, w', q')" by (metis prod_cases3)
  from init_keeps [OF assms(1,2) i] have k: "keeps E v p w' q'" .
  with assms(3) i show ?thesis
    by (auto simp: svm_vcpu_init_event_def keeps_def vcpu_ok_def uses_def)
qed

lemma guest_ran_keeps: "vcpu_ok E v \<Longrightarrow> guest_ran v w \<Longrightarrow> keeps E v p w p"
proof -
  assume v: "vcpu_ok E v" and g: "guest_ran v w"
  have "vmsa_pa w = vmsa_pa v" "vcpu_ok E w"
    by (subst g [unfolded guest_ran_def], use v in \<open>simp add: vcpu_ok_def\<close>)+
  then show ?thesis by (intro keeps_same [OF keeps_refl [OF v]])
qed

text \<open>The whole guest: every vCPU is well-formed, and every page of it is held as often as it is used.\<close>

definition used_by :: "snp_env \<Rightarrow> vm \<Rightarrow> u64 \<Rightarrow> u32 \<Rightarrow> int" where
  "used_by E m pa i = (case vcpus m i of None \<Rightarrow> 0 | Some v \<Rightarrow> uses E v pa)"

definition vm_inv :: "snp_env \<Rightarrow> vm \<Rightarrow> bool" where
  "vm_inv E m \<longleftrightarrow> (\<forall>i v. vcpus m i = Some v \<longrightarrow> vcpu_ok E v)
     \<and> (\<forall>pa. guest_page E pa \<longrightarrow> vm_pins m pa = sum (used_by E m pa) UNIV)"

lemma vm_inv_put:
  assumes "vm_inv E m" "vcpus m i = Some v" "keeps E v (vm_pins m) w q"
    and "vcpus m' = (vcpus m)(i \<mapsto> w)" "vm_pins m' = q"
  shows "vm_inv E m'"
proof -
  have "q pa = sum (used_by E m' pa) UNIV" if pa: "guest_page E pa" for pa
  proof -
    have "sum (used_by E m' pa) (UNIV - {i}) = sum (used_by E m pa) (UNIV - {i})"
      by (rule sum.cong) (auto simp: used_by_def assms(4))
    moreover have "used_by E m' pa i = uses E w pa" "used_by E m pa i = uses E v pa"
      using assms(2,4) by (simp_all add: used_by_def)
    moreover have "q pa - uses E w pa = vm_pins m pa - uses E v pa" using assms(3) pa by (simp add: keeps_def)
    moreover have "vm_pins m pa = sum (used_by E m pa) UNIV" using assms(1) pa by (simp add: vm_inv_def)
    ultimately show ?thesis
      using sum.remove [of UNIV i "used_by E m' pa"] sum.remove [of UNIV i "used_by E m pa"] by simp
  qed
  then show ?thesis using assms by (auto simp: vm_inv_def keeps_def)
qed

text \<open>Creation changes neither VMSAs nor pages, but may set a target level, a valid one.\<close>

lemma ap_checks_simps [simp]:
  "vcpus (snd (ap_create_checks E l rax x m)) = vcpus m" "vm_pins (snd (ap_create_checks E l rax x m)) = vm_pins m"
  by (simp_all add: ap_create_checks_def Let_def)

lemma kick_vcpu_simps [simp]:
  "vmsa_pa (kick_vcpu v) = vmsa_pa v" "vcpu_ok E (kick_vcpu v) = vcpu_ok E v"
  "snp_vmsa_gpa (kick_vcpu v) = snp_vmsa_gpa v" "snp_vmsa_ap_create (kick_vcpu v) = snp_vmsa_ap_create v"
  by (simp_all add: kick_vcpu_def vcpu_ok_def)

text \<open>The parts of a request, and the target with its level marked.\<close>

definition ap_level :: "snp_env \<Rightarrow> u64 \<Rightarrow> nat" where
  "ap_level E info = unat (drop_bit (AP_VMPL_SHIFT E) (ucast info AND AP_VMPL_MASK E))"

definition ap_target :: "u64 \<Rightarrow> u32" where
  "ap_target info = ucast (drop_bit 32 info)"

definition mark_level :: "snp_env \<Rightarrow> nat \<Rightarrow> vcpu \<Rightarrow> vcpu" where
  "mark_level E l v = v\<lparr>snp_vmsa_gpa := (snp_vmsa_gpa v)(l := INVALID_PAGE E),
     snp_vmsa_ap_create := (snp_vmsa_ap_create v)(l := True)\<rparr>"

lemma mark_level_simps [simp]:
  "vmsa_pa (mark_level E l v) = vmsa_pa v" "vcpu_ok E (mark_level E l v) = vcpu_ok E v"
  by (simp_all add: mark_level_def vcpu_ok_def)

lemma ap_creation_eq:
  assumes "ap_level E info1 < VMPL_MAX E" "vcpus m (ap_target info1) = Some v"
  shows "sev_snp_ap_creation E me svm info1 info2 rax m =
     (let l = ap_level E info1; i = ap_target info1; t = mark_level E l v; request = ucast info1 AND NOT (AP_VMPL_MASK E)
      in if l = 0 \<and> (me = i \<or> vmsa_pa svm 0 \<noteq> control_vmsa_pa svm) then (- EINVAL, put_vcpu i (kick_vcpu t) m)
         else (let (ok, m) = (if request < AP_DESTROY E then ap_create_checks E l rax info2 m else (True, m))
               in if \<not> ok then (- EINVAL, put_vcpu i (kick_vcpu t) m)
                  else if request = AP_CREATE_ON_INIT E \<or> request = AP_CREATE E
                  then (let t = t\<lparr>snp_target_vmpl := l, snp_vmsa_gpa := (snp_vmsa_gpa t)(l := info2 AND NOT 0xFFF)\<rparr>
                        in (0, put_vcpu i (if request = AP_CREATE_ON_INIT E then t else kick_vcpu t) m))
                  else if request = AP_DESTROY E then (0, put_vcpu i (kick_vcpu t) m)
                  else (- EINVAL, put_vcpu i (kick_vcpu t) m)))"
  using assms unfolding sev_snp_ap_creation_def ap_level_def ap_target_def mark_level_def
  by (simp only: Let_def option.case if_False not_le [symmetric] HOL.simp_thms)

lemma ap_creation_cases:
  assumes "sev_snp_ap_creation E me svm info1 info2 rax m = (r, m')" "ap_level E info1 < VMPL_MAX E"
    and "vcpus m (ap_target info1) = Some v"
  obtains (refused) "r = - EINVAL" "vcpus m' = (vcpus m)(ap_target info1 \<mapsto> kick_vcpu (mark_level E (ap_level E info1) v))"
      "vm_pins m' = vm_pins m"
  | (granted) w where "r = 0" "vcpus m' = (vcpus m)(ap_target info1 \<mapsto> w)" "vm_pins m' = vm_pins m"
      "vmsa_pa w = vmsa_pa v" "vcpu_ok E v \<Longrightarrow> vcpu_ok E w"
      "ap_level E info1 \<noteq> 0 \<or> (me \<noteq> ap_target info1 \<and> vmsa_pa svm 0 = control_vmsa_pa svm)"
proof -
  define l i t where "l = ap_level E info1" and "i = ap_target info1" and "t = mark_level E l v"
  have t: "vmsa_pa t = vmsa_pa v" "vcpu_ok E t = vcpu_ok E v" by (simp_all add: t_def)
  define w where "w = t\<lparr>snp_target_vmpl := l, snp_vmsa_gpa := (snp_vmsa_gpa t)(l := info2 AND NOT 0xFFF)\<rparr>"
  have w: "vmsa_pa w = vmsa_pa v" "vcpu_ok E v \<Longrightarrow> vcpu_ok E w"
    using assms(2) t by (simp_all add: w_def vcpu_ok_def l_def)
  note eq = ap_creation_eq [OF assms(2,3), of me svm info2 rax, folded l_def i_def]
  let ?req = "ucast info1 AND NOT (AP_VMPL_MASK E)"
  show thesis
  proof (cases "l = 0 \<and> (me = i \<or> vmsa_pa svm 0 \<noteq> control_vmsa_pa svm)")
    case True
    with eq assms(1) show thesis
      by (intro refused) (simp_all add: put_vcpu_def Let_def l_def i_def)
  next
    case False
    then have g: "l \<noteq> 0 \<or> (me \<noteq> i \<and> vmsa_pa svm 0 = control_vmsa_pa svm)" by auto
    obtain ok m1 where c: "(if ?req < AP_DESTROY E then ap_create_checks E l rax info2 m else (True, m)) = (ok, m1)"
      by (metis surj_pair)
    then have m1: "vcpus m1 = vcpus m" "vm_pins m1 = vm_pins m"
      using ap_checks_simps [of E l rax info2 m] by (cases "?req < AP_DESTROY E"; simp)+
    have e: "(r, m') =
        (if \<not> ok then (- EINVAL, put_vcpu i (kick_vcpu t) m1)
         else if ?req = AP_CREATE_ON_INIT E \<or> ?req = AP_CREATE E
         then (0, put_vcpu i (if ?req = AP_CREATE_ON_INIT E then w else kick_vcpu w) m1)
         else if ?req = AP_DESTROY E then (0, put_vcpu i (kick_vcpu t) m1)
         else (- EINVAL, put_vcpu i (kick_vcpu t) m1))"
      using eq assms(1) False c by (simp add: Let_def w_def t_def)
    consider "r = - EINVAL" "m' = put_vcpu i (kick_vcpu t) m1"
      | "r = 0" "m' = put_vcpu i w m1" | "r = 0" "m' = put_vcpu i (kick_vcpu w) m1"
      | "r = 0" "m' = put_vcpu i (kick_vcpu t) m1"
      using e by (auto split: if_splits)
    then show thesis
    proof cases
      case 1
      with m1 show thesis
        by (intro refused) (simp_all add: put_vcpu_def l_def i_def t_def)
    next
      case 2
      with m1 w g show thesis by (intro granted [of w]) (simp_all add: put_vcpu_def l_def i_def)
    next
      case 3
      with m1 w g show thesis by (intro granted [of "kick_vcpu w"]) (simp_all add: put_vcpu_def l_def i_def)
    next
      case 4
      with m1 t g show thesis by (intro granted [of "kick_vcpu t"]) (simp_all add: put_vcpu_def l_def i_def)
    qed
  qed
qed

lemma ap_creation_inv:
  assumes "vm_inv E m" "sev_snp_ap_creation E me svm info1 info2 rax m = (r, m')"
  shows "vm_inv E m'"
proof (cases "ap_level E info1 < VMPL_MAX E \<and> vcpus m (ap_target info1) \<noteq> None")
  case True
  then obtain v where v: "ap_level E info1 < VMPL_MAX E" "vcpus m (ap_target info1) = Some v" by blast
  have ok: "vcpu_ok E v" using assms(1) v(2) by (auto simp: vm_inv_def)
  from assms(2) v show ?thesis
  proof (cases rule: ap_creation_cases)
    case refused
    have "keeps E v (vm_pins m) (kick_vcpu (mark_level E (ap_level E info1) v)) (vm_pins m)"
      by (rule keeps_same [OF keeps_refl [OF ok]]) (simp_all add: ok)
    from vm_inv_put [OF assms(1) v(2) this refused(2,3)] show ?thesis .
  next
    case (granted w)
    have "keeps E v (vm_pins m) w (vm_pins m)"
      by (rule keeps_same [OF keeps_refl [OF ok]]) (use granted ok in simp_all)
    from vm_inv_put [OF assms(1) v(2) this granted(2,3)] show ?thesis .
  qed
next
  case False
  with assms show ?thesis
    by (auto simp: sev_snp_ap_creation_def ap_level_def ap_target_def Let_def split: if_splits)
qed

text \<open>
  What the machine asks of an operation of a vCPU on its own levels, and what it gets for it: the
  operations of sev.c that run on a vCPU each provide it.
\<close>

locale level_operation =
  fixes E :: snp_env
    and f :: "vcpu \<Rightarrow> pins \<Rightarrow> vcpu \<times> pins"
  assumes keeps_levels: "snp_env_ok E \<Longrightarrow> vcpu_ok E v \<Longrightarrow> f v p = (w, q) \<Longrightarrow> keeps E v p w q"
begin

lemma step_inv:
  assumes "snp_env_ok E" "vm_inv E m" "vcpus m i = Some v" "f v (vm_pins m) = (w, p)"
  shows "vm_inv E ((put_vcpu i w m)\<lparr>vm_pins := p\<rparr>)"
proof -
  have "keeps E v (vm_pins m) w p" using assms by (intro keeps_levels) (auto simp: vm_inv_def)
  from vm_inv_put [OF assms(2,3) this] show ?thesis by (simp add: put_vcpu_def)
qed

end

interpretation trap: level_operation E "\<lambda>v p. snd (sev_vc_vmpl E v p)"
  by unfold_locales (metis vc_keeps prod.collapse)

interpretation run: level_operation E "\<lambda>v p. snd (sev_run_vmpl_vmsa E info v p)"
  by unfold_locales (metis run_request_keeps prod.collapse)

interpretation msr: level_operation E "ghcb_msr_vmpl_req E"
  by unfold_locales (rule msr_keeps)

interpretation init: level_operation E "svm_vcpu_init_event E"
  by unfold_locales (rule init_event_keeps)

lemma vm_step_inv: "vm_step E m m' \<Longrightarrow> snp_env_ok E \<Longrightarrow> vm_inv E m \<Longrightarrow> vm_inv E m'"
proof (induction rule: vm_step.induct)
  case (step_guest m i v w)
  then have "keeps E v (vm_pins m) w (vm_pins m)" by (intro guest_ran_keeps) (auto simp: vm_inv_def)
  from vm_inv_put [OF step_guest(4,1) this] show ?case by (simp add: put_vcpu_def)
next
  case (step_vc m i v ret w p)
  from trap.step_inv [OF step_vc(3,4,1)] step_vc(2) show ?case by simp
next
  case (step_run m i v info err w p)
  from run.step_inv [OF step_run(3,4,1), of info] step_run(2) show ?case by simp
next
  case (step_msr m i v w p)
  from msr.step_inv [OF step_msr(3,4,1,2)] show ?case .
next
  case (step_init m i v w p)
  from init.step_inv [OF step_init(3,4,1,2)] show ?case .
next
  case (step_create m i v info1 info2 rax ret m')
  from ap_creation_inv [OF step_create(4) step_create(2)] show ?case .
qed

lemma count_uses_none: "(\<And>l. l < n \<Longrightarrow> f l \<noteq> pa) \<Longrightarrow> count_uses n f pa = 0"
  by (induction n) simp_all

lemma reset_levels:
  "fold (\<lambda>i v. v\<lparr>vmsa_pa := (vmsa_pa v)(i := x), ghcb_gpa := (ghcb_gpa v)(i := g)\<rparr>) xs v =
     v\<lparr>vmsa_pa := (\<lambda>l. if l \<in> set xs then x else vmsa_pa v l), ghcb_gpa := (\<lambda>l. if l \<in> set xs then g else ghcb_gpa v l)\<rparr>"
  by (induction xs arbitrary: v) (auto intro!: vcpu.equality)

lemma new_vcpu_simps:
  "snp_current_vmpl (new_vcpu E pa info) = 0" "snp_target_vmpl (new_vcpu E pa info) = 0"
  "host_vmsa (new_vcpu E pa info) = pa" "control_vmsa_pa (new_vcpu E pa info) = vmsa_pa (new_vcpu E pa info) 0"
  "l < VMPL_MAX E \<Longrightarrow> vmsa_pa (new_vcpu E pa info) l = (if l = 0 then pa else INVALID_PAGE E)"
  by (simp_all add: new_vcpu_def sev_es_vcpu_reset_def svm_vcpu_create_def zero_vcpu_def reset_levels Let_def)

lemma new_vcpu_ok:
  assumes "snp_env_ok E" "pa \<in> host_pages E"
  shows "vcpu_ok E (new_vcpu E pa info)" "guest_page E q \<Longrightarrow> uses E (new_vcpu E pa info) q = 0"
  using assms by (auto simp: vcpu_ok_def snp_env_ok_def uses_def guest_page_def valid_page_def new_vcpu_simps
      intro!: count_uses_none split: if_splits)

lemma vm_start_inv:
  assumes "snp_env_ok E" "vm_start E m"
  shows "vm_inv E m"
proof -
  have new: "\<exists>pa\<in>host_pages E. \<exists>info. v = new_vcpu E pa info" if "vcpus m i = Some v" for i v
    using assms(2) that by (simp add: vm_start_def)
  have "vcpu_ok E v" if "vcpus m i = Some v" for i v
    using new [OF that] new_vcpu_ok(1) [OF assms(1)] by blast
  moreover have "used_by E m pa i = 0" if "guest_page E pa" for pa i
    using new [of i] new_vcpu_ok(2) [OF assms(1) _ that] by (auto simp: used_by_def split: option.splits)
  ultimately show ?thesis using assms(2) by (simp add: vm_inv_def vm_start_def)
qed

lemma vm_reachable_inv:
  assumes "(vm_step E)\<^sup>*\<^sup>* m0 m" "snp_env_ok E" "vm_start E m0"
  shows "vm_inv E m"
  using assms(1)
proof induction
  case base
  then show ?case using assms(2,3) by (rule vm_start_inv)
next
  case (step m m')
  then show ?case using vm_step_inv assms(2) by blast
qed

section \<open>There and back\<close>

text \<open>A switch to a level that has a save area and no request for another.\<close>

definition switched :: "nat \<Rightarrow> vcpu \<Rightarrow> vcpu" where
  "switched n v =
     (let u = sev_es_unmap_ghcb (v\<lparr>snp_target_vmpl := n\<rparr>); a = snp_current_vmpl v
      in (load_vssa (vssa v n)
           (u\<lparr>ghcb_gpa := (ghcb_gpa v)(a := control_ghcb_gpa v), vssa := (vssa v)(a := save_vssa v),
              control_vmsa_pa := vmsa_pa v n, control_ghcb_gpa := ghcb_gpa v n\<rparr>))
         \<lparr>snp_current_vmpl := n, all_dirty := True\<rparr>)"

lemma save_vssa_upd [simp]:
  "save_vssa (v\<lparr>snp_target_vmpl := n\<rparr>) = save_vssa v" "save_vssa (v\<lparr>ghcb_gpa := g\<rparr>) = save_vssa v"
  "save_vssa (v\<lparr>snp_current_vmpl := n\<rparr>) = save_vssa v" "save_vssa (v\<lparr>all_dirty := b\<rparr>) = save_vssa v"
  by (simp_all add: save_vssa_def)

lemma run_vmpl_switched:
  assumes "n < VMPL_MAX E" "n \<noteq> snp_current_vmpl v" "\<not> snp_vmsa_ap_create v n" "valid_page E (vmsa_pa v n)"
  shows "run_vmpl_vmsa E n v p = (0, switched n v, p)"
  using assms by (simp add: run_vmpl_vmsa_def sev_snp_init_protected_guest_state_def switched_def Let_def)

text \<open>
  C6  A level is left and found again as it was.  A vCPU that goes from level \<open>a\<close> to level \<open>b\<close>, runs there,
  and comes back, without a request for another save area on either, has the save area of \<open>a\<close>, its
  GHCB, its pending event and its control registers as on leaving, whatever level \<open>b\<close> did with its own;
  and those of \<open>b\<close> are kept for the next time.  No page of the guest is taken or given back.
\<close>
theorem vmpl_switch_roundtrip:
  assumes "snp_current_vmpl v = a" "a \<noteq> b" "a < VMPL_MAX E" "b < VMPL_MAX E"
    and "\<not> snp_vmsa_ap_create v a" "\<not> snp_vmsa_ap_create v b"
    and "valid_page E (vmsa_pa v a)" "valid_page E (vmsa_pa v b)" "control_vmsa_pa v = vmsa_pa v a"
    and "run_vmpl_vmsa E b v p = (r, v1, q)" "guest_ran v1 w" "run_vmpl_vmsa E a w q = (r', v2, q')"
  shows "r = 0 \<and> r' = 0 \<and> q' = p
    \<and> snp_current_vmpl v1 = b \<and> control_vmsa_pa v1 = vmsa_pa v b
    \<and> snp_current_vmpl v2 = a \<and> control_vmsa_pa v2 = vmsa_pa v a \<and> control_ghcb_gpa v2 = control_ghcb_gpa v
    \<and> save_vssa v2 = save_vssa v \<and> vmsa_pa v2 = vmsa_pa v
    \<and> vssa v2 b = save_vssa w \<and> ghcb_gpa v2 b = control_ghcb_gpa w"
proof -
  have s1: "r = 0" "v1 = switched b v" "q = p"
    using run_vmpl_switched [of b E v p] assms by simp_all
  have w: "snp_current_vmpl w = b" "vmsa_pa w = vmsa_pa v" "ghcb_gpa w = (ghcb_gpa v)(a := control_ghcb_gpa v)"
    "vssa w = (vssa v)(a := save_vssa v)" "snp_vmsa_ap_create w = snp_vmsa_ap_create v"
    by (subst assms(11) [unfolded guest_ran_def], simp add: s1 switched_def assms(1) Let_def)+
  have s2: "r' = 0" "v2 = switched a w" "q' = p"
    using run_vmpl_switched [of a E w q] assms w s1 by simp_all
  show ?thesis
    using assms(1,2) by (simp add: s1 s2 switched_def w Let_def)
qed

section \<open>What a vCPU runs with\<close>

text \<open>
  C1  A vCPU never runs with the save area of another level.  From a start in which every vCPU has
  only the host's own page at VMPL0, after any sequence of traps, requests by GHCB and register, save
  areas given by one vCPU to another, and init events, the VMSA in the control block of every vCPU
  is that of its current level, which is a valid one, or there is none; and every page of the guest
  is held by the host exactly as often as it is the save area of a level of some vCPU.
\<close>
theorem vmsa_of_current_level:
  assumes "snp_env_ok E" "vm_start E m0" "(vm_step E)\<^sup>*\<^sup>* m0 m"
  shows "(\<forall>i v. vcpus m i = Some v \<longrightarrow> snp_current_vmpl v < VMPL_MAX E
            \<and> control_vmsa_pa v \<in> {vmsa_pa v (snp_current_vmpl v), INVALID_PAGE E})
    \<and> (\<forall>pa. guest_page E pa \<longrightarrow> vm_pins m pa = (\<Sum>i\<in>UNIV. used_by E m pa i))"
  using vm_reachable_inv [OF assms(3,1,2)] by (auto simp: vm_inv_def vcpu_ok_def)


text \<open>
  C28  Only VMPL0 of another vCPU gives VMPL0 a save area, but a refused request takes it away.  A
  request for VMPL0 succeeds only when it comes from another vCPU that runs with the save area of its
  VMPL0.  A refused request for a valid level of a vCPU that is there is an error to the caller, and
  still marks the level of the target: its next switch to the level, or its next init if that is its
  target, leaves the level without a save area.
\<close>
theorem refused_creation_disables_level:
  assumes "sev_snp_ap_creation E me svm info1 info2 rax m = (r, m')" "ap_level E info1 < VMPL_MAX E"
    and "vcpus m (ap_target info1) = Some v"
  shows "(r = 0 \<and> (ap_level E info1 \<noteq> 0 \<or> (me \<noteq> ap_target info1 \<and> vmsa_pa svm 0 = control_vmsa_pa svm)))
    \<or> (r = - EINVAL \<and> (\<exists>w. vcpus m' = (vcpus m)(ap_target info1 \<mapsto> w) \<and> update_request w
         \<and> snp_current_vmpl w = snp_current_vmpl v
         \<and> (\<forall>p. snp_current_vmpl w = ap_level E info1
              \<or> vmsa_pa (fst (snd (run_vmpl_vmsa E (ap_level E info1) w p))) (ap_level E info1) = INVALID_PAGE E)))"
  using assms
proof (cases rule: ap_creation_cases)
  case refused
  let ?l = "ap_level E info1" and ?w = "kick_vcpu (mark_level E (ap_level E info1) v)"
  have w: "update_request ?w" "snp_current_vmpl ?w = snp_current_vmpl v" "snp_vmsa_ap_create ?w ?l"
    "snp_vmsa_gpa ?w ?l = INVALID_PAGE E"
    by (simp_all add: kick_vcpu_def mark_level_def)
  have "vmsa_pa (fst (snd (run_vmpl_vmsa E ?l ?w p))) ?l = INVALID_PAGE E" if "snp_current_vmpl ?w \<noteq> ?l" for p
    using that assms(2) w(3,4)
    by (simp add: run_vmpl_vmsa_def sev_snp_init_protected_guest_state_def sev_snp_update_protected_guest_state_def
        valid_page_def Let_def case_prod_unfold)
  with refused w(1,2) show ?thesis by blast
next
  case (granted w)
  then show ?thesis by blast
qed

text \<open>
  The first switch to a level, which takes the new save area, neither saves the registers of the
  level it leaves nor loads those of the one it enters; on the way back the level gets what was saved
  for it before, or the zeros of the beginning.
\<close>

lemma enter_target_vmpl_keeps_more [simp]:
  "vssa (enter_target_vmpl v) = vssa v" "snp_vmsa_ap_create (enter_target_vmpl v) = snp_vmsa_ap_create v"
  "save_vssa (enter_target_vmpl v) = save_vssa v"
  by (simp_all add: enter_target_vmpl_def save_vssa_def sev_es_unmap_ghcb_def Let_def)

lemma first_switch_saves_nothing:
  assumes "snp_current_vmpl v = a" "a \<noteq> b" "a < VMPL_MAX E" "b < VMPL_MAX E"
    and "snp_vmsa_ap_create v b" "\<not> snp_vmsa_ap_create v a" "valid_page E (vmsa_pa v a)"
    and "valid_page E (snp_vmsa_gpa v b)" "gmem_page E (snp_vmsa_gpa v b) = Some pa"
    and "run_vmpl_vmsa E b v p = (r, v1, q)" "run_vmpl_vmsa E a v1 q = (r', v2, q')"
  shows "save_vssa v1 = save_vssa v \<and> save_vssa v2 = vssa v a"
proof -
  have v1: "snp_current_vmpl v1 = b" "vssa v1 = vssa v" "vmsa_pa v1 a = vmsa_pa v a" "save_vssa v1 = save_vssa v"
    "\<not> snp_vmsa_ap_create v1 a"
    using assms(1-10) by (auto simp: run_vmpl_vmsa_def sev_snp_init_protected_guest_state_def
        sev_snp_update_protected_guest_state_def Let_def) (simp_all add: save_vssa_def)
  with run_vmpl_switched [of a E v1 q] assms(2,3,7,11) have "v2 = switched a v1" by simp
  with v1 assms(2) show ?thesis by (simp add: switched_def Let_def)
qed

section \<open>Examples\<close>

definition demo_snp :: snp_env where
  "demo_snp =
     \<lparr>VMPL_MAX = 4, INVALID_PAGE = - 1, AP_VMPL_MASK = 0xF0000, AP_VMPL_SHIFT = 16, AP_CREATE_ON_INIT = 0, AP_CREATE = 1,
      AP_DESTROY = 2, FEAT_SNP_ACTIVE = 1, FEAT_INT_INJ_MODES = 0x18, LEVEL_MASK = 0xFF, LEVEL_POS = 32,
      ERROR_MASK = 0xFFFFFFFF, ERROR_POS = 32, RSVD_MASK = 0xFFFFF, RSVD_POS = 12, INFO_MASK = 0xFFF, INFO_POS = 0,
      VMPL_RESP = 0x17, gmem_page = \<lambda>g. if g = 0x5000 then Some 0x105000 else None,
      page_address_valid = \<lambda>a. a mod 0x1000 = 0, host_pages = {0x9000}\<rparr>"

definition demo_vcpu :: vcpu where
  "demo_vcpu = (new_vcpu demo_snp 0x9000 0)\<lparr>vmsa_pa := (vmsa_pa (new_vcpu demo_snp 0x9000 0))(1 := 0x105000), cr0 := 0x31\<rparr>"

definition demo_vm :: vm where
  "demo_vm = \<lparr>vcpus = [0 \<mapsto> new_vcpu demo_snp 0x9000 0], sev_features = \<lambda>_. 0, vm_pins = \<lambda>_. 0\<rparr>"

lemma demo_snp_ok: "snp_env_ok demo_snp" "VMPL_MAX demo_snp = 4" "valid_page demo_snp pa \<longleftrightarrow> pa \<noteq> - 1"
  "INVALID_PAGE demo_snp = - 1" "host_pages demo_snp = {0x9000}"
  by (auto simp: demo_snp_def snp_env_ok_def valid_page_def)

lemma demo_vcpu_simps:
  "snp_current_vmpl demo_vcpu = 0" "vmsa_pa demo_vcpu 0 = 0x9000" "vmsa_pa demo_vcpu (Suc 0) = 0x105000" "cr0 demo_vcpu = 0x31"
  "\<not> snp_vmsa_ap_create demo_vcpu l" "control_vmsa_pa demo_vcpu = 0x9000"
  by (simp_all add: demo_vcpu_def new_vcpu_simps demo_snp_ok new_vcpu_def sev_es_vcpu_reset_def svm_vcpu_create_def zero_vcpu_def
      reset_levels Let_def)

lemma vmpl_switch_roundtrip_witness:
  "\<exists>v1 v2. run_vmpl_vmsa demo_snp 1 demo_vcpu (\<lambda>_. 0) = (0, v1, \<lambda>_. 0)
     \<and> run_vmpl_vmsa demo_snp 0 (v1\<lparr>cr0 := 7\<rparr>) (\<lambda>_. 0) = (0, v2, \<lambda>_. 0)
     \<and> control_vmsa_pa v1 = 0x105000 \<and> control_vmsa_pa v2 = 0x9000 \<and> cr0 v2 = 0x31 \<and> sa_cr0 (vssa v2 1) = 7"
proof -
  obtain r v1 q where 1: "run_vmpl_vmsa demo_snp 1 demo_vcpu (\<lambda>_. 0) = (r, v1, q)" by (metis prod_cases3)
  obtain r' v2 q' where 2: "run_vmpl_vmsa demo_snp 0 (v1\<lparr>cr0 := 7\<rparr>) q = (r', v2, q')" by (metis prod_cases3)
  have "guest_ran v1 (v1\<lparr>cr0 := 7\<rparr>)" by (simp add: guest_ran_def)
  from vmpl_switch_roundtrip [OF _ _ _ _ _ _ _ _ _ 1 this 2] have
    "r = 0 \<and> r' = 0 \<and> q' = (\<lambda>_. 0) \<and> control_vmsa_pa v1 = 0x105000 \<and> control_vmsa_pa v2 = 0x9000
       \<and> save_vssa v2 = save_vssa demo_vcpu \<and> vssa v2 1 = save_vssa (v1\<lparr>cr0 := 7\<rparr>)"
    by (simp add: demo_vcpu_simps demo_snp_ok)
  moreover have "q = (\<lambda>_. 0)"
    using 1 run_vmpl_switched [of 1 demo_snp demo_vcpu "\<lambda>_. 0"] by (simp add: demo_vcpu_simps demo_snp_ok)
  moreover have "cr0 v2 = 0x31" if "save_vssa v2 = save_vssa demo_vcpu"
    using that by (simp add: save_vssa_def demo_vcpu_simps)
  ultimately show ?thesis using 1 2 by (simp add: save_vssa_def)
qed

lemma vmsa_of_current_level_witness:
  "\<exists>m v. vm_step demo_snp demo_vm m \<and> vcpus m 0 = Some v \<and> control_ghcb_gpa v = 5
     \<and> control_vmsa_pa v \<in> {vmsa_pa v (snp_current_vmpl v), - 1}"
proof -
  let ?v = "new_vcpu demo_snp 0x9000 0"
  let ?m = "put_vcpu 0 (?v\<lparr>control_ghcb_gpa := 5\<rparr>) demo_vm"
  have "vm_start demo_snp demo_vm"
    by (auto simp: vm_start_def demo_vm_def demo_snp_ok split: if_splits)
  moreover have "vm_step demo_snp demo_vm ?m"
    by (rule step_guest [of _ _ ?v]) (simp_all add: demo_vm_def guest_ran_def)
  moreover have v: "vcpus ?m 0 = Some (?v\<lparr>control_ghcb_gpa := 5\<rparr>)" by (simp add: put_vcpu_def)
  ultimately show ?thesis
    using vmsa_of_current_level [OF demo_snp_ok(1), of demo_vm ?m, THEN conjunct1, rule_format, OF _ _ v]
    by (intro exI [of _ ?m] exI [of _ "?v\<lparr>control_ghcb_gpa := 5\<rparr>"]) (auto simp: demo_snp_ok)
qed

definition demo_trapping :: vcpu where
  "demo_trapping = demo_vcpu\<lparr>snp_current_vmpl := 1, control_vmsa_pa := 0x105000\<rparr>"


lemma refused_creation_disables_level_witness:
  "fst (sev_snp_ap_creation demo_snp 0 (new_vcpu demo_snp 0x9000 0) 0 0x5000 1 demo_vm) = - EINVAL"
proof -
  obtain r m' where 1: "sev_snp_ap_creation demo_snp 0 (new_vcpu demo_snp 0x9000 0) 0 0x5000 1 demo_vm = (r, m')"
    by (metis surj_pair)
  have "ap_level demo_snp 0 = 0" "ap_target 0 = 0" by (simp_all add: ap_level_def ap_target_def)
  with refused_creation_disables_level [OF 1] 1 show ?thesis by (simp add: demo_snp_ok demo_vm_def)
qed

end
