(* ===== verification/Sev_Doorbell.thy ===== *)
theory Sev_Doorbell
  imports Sev_Vmpl
begin

text \<open>
  Restricted injection, \<open>host/kvm/svm/sev.c\<close> and \<open>svm.c\<close>: a level that asks for it gets its interrupts and
  NMIs by a doorbell page of its own memory, and an exception (#HC) when there is something new on
  it.  The page is guest memory, so the guest takes an interrupt by clearing the vector on it; the
  host finds that out at the next exit and then moves the interrupt into service.
\<close>

section \<open>State\<close>

text \<open>\<open>struct pending_event\<close>, without its reserved bits.\<close>

record pending_event =
  vector :: byte
  nmi :: bool
  machine_check :: bool
  no_further_signal :: bool

text \<open>
  What a vCPU has for it.  \<open>doorbell_map\<close> is the page mapped now, by its frame number, \<open>page_refs\<close> how
  often each frame is held by the host, \<open>pages\<close> the event on each frame that can be mapped; \<open>isr\<close> are
  the vectors in service at the APIC, \<open>irr\<close> the requested ones.
\<close>

record doorbell =
  snp_doorbell_gpa :: u64
  snp_doorbell_active :: bool
  snp_doorbell_presented_vector :: bool
  snp_doorbell_last_presented_vector :: byte
  doorbell_map :: "u64 option"
  page_refs :: "u64 \<Rightarrow> int"
  pages :: "u64 \<Rightarrow> pending_event option"
  event_inj :: u32
  event_inj_err :: u32
  lapic_in_kernel :: bool
  lapic_sw_enabled :: bool
  irr :: "byte set"
  isr :: "byte set"
  req_event :: bool

text \<open>Constants of kernel headers: the event that raises #HC, the requests, the feature.\<close>

record doorbell_env =
  HC_EVENT :: u32
  DOORBELL_GET_PREFERRED :: u32
  DOORBELL_SET :: u32
  DOORBELL_QUERY :: u32
  DOORBELL_CLEAR :: u32
  FEAT_RESTRICTED_INJECTION :: u64

definition DOORBELL_PAGE_GPA_NONE :: u64 where "DOORBELL_PAGE_GPA_NONE = 0xffffffffffffffff"

definition sev_restricted_injection_enabled :: "doorbell_env \<Rightarrow> (nat \<Rightarrow> u64) \<Rightarrow> nat \<Rightarrow> bool" where
  "sev_restricted_injection_enabled E features vmpl \<longleftrightarrow> features vmpl AND FEAT_RESTRICTED_INJECTION E \<noteq> 0"

section \<open>The page\<close>

definition EFAULT :: int where "EFAULT = 14"

definition ENOMEM :: int where "ENOMEM = 12"

definition doorbell_gfn :: "doorbell \<Rightarrow> u64" where
  "doorbell_gfn d = drop_bit 12 (snp_doorbell_gpa d)"

definition sev_map_doorbell_page :: "doorbell \<Rightarrow> int \<times> doorbell" where
  "sev_map_doorbell_page d =
     (let gfn = doorbell_gfn d
      in case pages d gfn of
           None \<Rightarrow> (- EFAULT, d)
         | Some _ \<Rightarrow> (0, d\<lparr>doorbell_map := Some gfn, page_refs := (page_refs d)(gfn := page_refs d gfn + 1)\<rparr>))"

definition sev_unmap_doorbell_page :: "doorbell \<Rightarrow> doorbell" where
  "sev_unmap_doorbell_page d =
     (case doorbell_map d of
        None \<Rightarrow> d
      | Some gfn \<Rightarrow> d\<lparr>doorbell_map := None, page_refs := (page_refs d)(gfn := page_refs d gfn - 1)\<rparr>)"

text \<open>The event on the page of the doorbell, and a change of it.\<close>

definition pending :: "doorbell \<Rightarrow> pending_event" where
  "pending d = the (pages d (doorbell_gfn d))"

definition set_pending :: "pending_event \<Rightarrow> doorbell \<Rightarrow> doorbell" where
  "set_pending e d = d\<lparr>pages := (pages d)(doorbell_gfn d \<mapsto> e)\<rparr>"

section \<open>Injection\<close>

text \<open>The end of both: the signal, unless the guest still has to look at the one before.\<close>

definition raise_hc :: "doorbell_env \<Rightarrow> doorbell \<Rightarrow> doorbell" where
  "raise_hc E d = d\<lparr>event_inj := HC_EVENT E, event_inj_err := 0\<rparr>"

definition sev_inject_restricted_nmi :: "doorbell_env \<Rightarrow> doorbell \<Rightarrow> doorbell" where
  "sev_inject_restricted_nmi E d =
     (if \<not> snp_doorbell_active d then d
      else (let (ret, d) = sev_map_doorbell_page d
            in if ret \<noteq> 0 then d
               else (let d = set_pending ((pending d)\<lparr>nmi := True\<rparr>) d;
                         (hv_required, d) =
                           (if \<not> no_further_signal (pending d)
                            then (True, set_pending ((pending d)\<lparr>no_further_signal := True\<rparr>) d)
                            else (False, d))
                     in if hv_required then raise_hc E d else d)))"

definition sev_inject_restricted_irq :: "doorbell_env \<Rightarrow> byte \<Rightarrow> doorbell \<Rightarrow> doorbell" where
  "sev_inject_restricted_irq E nr d =
     (if \<not> snp_doorbell_active d then d
      else (let (ret, d) = sev_map_doorbell_page d
            in if ret \<noteq> 0 then d
               else (let hv_required = (vector (pending d) = 0);
                         d = set_pending ((pending d)\<lparr>vector := nr\<rparr>) d;
                         d = d\<lparr>snp_doorbell_presented_vector := True, snp_doorbell_last_presented_vector := nr\<rparr>;
                         (hv_required, d) =
                           (if hv_required
                            then (if \<not> no_further_signal (pending d)
                                  then (True, set_pending ((pending d)\<lparr>no_further_signal := True\<rparr>) d)
                                  else (False, d))
                            else (False, d))
                     in if hv_required then raise_hc E d else d)))"

text \<open>At every exit: has the guest taken the interrupt that was presented last?\<close>

definition sev_restricted_injection_check_isr :: "doorbell \<Rightarrow> int \<times> doorbell" where
  "sev_restricted_injection_check_isr d =
     (if \<not> snp_doorbell_active d then (0, d)
      else if \<not> snp_doorbell_presented_vector d then (0, d)
      else (let (ret, d) = sev_map_doorbell_page d
            in if ret < 0 then (ret, d)
               else (let vec = vector (pending d)
                     in if vec = 0
                        then (let d = (if lapic_in_kernel d
                                       then d\<lparr>irr := irr d - {snp_doorbell_last_presented_vector d},
                                              isr := insert (snp_doorbell_last_presented_vector d) (isr d)\<rparr>
                                       else d)
                              in (ret, d\<lparr>snp_doorbell_presented_vector := False\<rparr>))
                        else (ret, d))))"

definition sev_should_skip_hlt :: "doorbell \<Rightarrow> int \<times> doorbell" where
  "sev_should_skip_hlt d =
     (if \<not> snp_doorbell_active d then (0, d)
      else if \<not> snp_doorbell_presented_vector d then (0, d)
      else (let (ret, d) = sev_map_doorbell_page d
            in if ret < 0 then (ret, d) else (if vector (pending d) \<noteq> 0 then 1 else 0, d)))"

definition sev_restricted_injection_blocked :: "doorbell \<Rightarrow> int \<times> doorbell" where
  "sev_restricted_injection_blocked d =
     (if \<not> snp_doorbell_active d then (0, d)
      else if \<not> snp_doorbell_presented_vector d then (0, d)
      else (let (ret, d) = sev_map_doorbell_page d
            in if ret \<noteq> 0 then (1, d) else (if vector (pending d) = 0 then 0 else 1, d)))"

definition sev_restricted_injection_nmi_blocked :: "doorbell \<Rightarrow> bool" where
  "sev_restricted_injection_nmi_blocked d \<longleftrightarrow> \<not> snp_doorbell_active d"

text \<open>The request of the guest: the result, and \<open>sw_exit_info_2\<close> where it is set.\<close>

definition sev_snp_hv_doorbell_page ::
    "doorbell_env \<Rightarrow> bool \<Rightarrow> u64 \<Rightarrow> u64 \<Rightarrow> doorbell \<Rightarrow> int \<times> u64 option \<times> doorbell" where
  "sev_snp_hv_doorbell_page E enabled exit_info1 exit_info2 d =
     (if \<not> enabled then (- EINVAL, None, d)
      else (let request = (ucast exit_info1 :: u32)
            in if request = DOORBELL_GET_PREFERRED E then (0, Some DOORBELL_PAGE_GPA_NONE, d)
               else if request = DOORBELL_SET E
               then (let new_doorbell_gpa = exit_info2
                     in if take_bit 12 new_doorbell_gpa \<noteq> 0 then (- EINVAL, None, d)
                        else (let d = d\<lparr>snp_doorbell_gpa := new_doorbell_gpa, snp_doorbell_active := True\<rparr>;
                                  d = (if lapic_in_kernel d then d\<lparr>lapic_sw_enabled := True\<rparr> else d)
                              in (0, Some new_doorbell_gpa, d\<lparr>req_event := True\<rparr>)))
               else if request = DOORBELL_QUERY E
               then (0, Some (if snp_doorbell_active d then snp_doorbell_gpa d else 0), d)
               else if request = DOORBELL_CLEAR E
               then (let d = d\<lparr>snp_doorbell_active := False\<rparr>;
                         d = (if lapic_in_kernel d then d\<lparr>lapic_sw_enabled := False\<rparr> else d)
                     in (0, None, d))
               else (- EINVAL, None, d)))"

section \<open>Where svm.c uses it\<close>

text \<open>
  \<open>svm_emulate_halt\<close>, \<open>svm_handle_exit\<close>, \<open>svm_inject_nmi\<close>, \<open>svm_inject_irq\<close>, \<open>svm_nmi_blocked\<close> and
  \<open>svm_interrupt_blocked\<close>: their branch for restricted injection; the other one, the KVM of Linux, is
  the last argument.
\<close>

definition svm_emulate_halt :: "bool \<Rightarrow> (doorbell \<Rightarrow> int \<times> doorbell) \<Rightarrow> doorbell \<Rightarrow> int \<times> doorbell" where
  "svm_emulate_halt enabled kvm_emulate_halt d =
     (let (ret, d) = (if enabled then sev_should_skip_hlt d else (0, d))
      in if ret < 0 then (ret, d) else if ret \<noteq> 0 then (1, d) else kvm_emulate_halt d)"

definition svm_handle_exit :: "bool \<Rightarrow> (doorbell \<Rightarrow> int \<times> doorbell) \<Rightarrow> doorbell \<Rightarrow> int \<times> doorbell" where
  "svm_handle_exit enabled handler d =
     (let (ret, d) = (if enabled then sev_restricted_injection_check_isr d else (0, d))
      in if ret < 0 then (ret, d) else handler d)"

definition svm_inject_nmi :: "doorbell_env \<Rightarrow> bool \<Rightarrow> (doorbell \<Rightarrow> doorbell) \<Rightarrow> doorbell \<Rightarrow> doorbell" where
  "svm_inject_nmi E enabled inject d = (if enabled then sev_inject_restricted_nmi E d else inject d)"

definition svm_inject_irq :: "doorbell_env \<Rightarrow> bool \<Rightarrow> byte \<Rightarrow> (doorbell \<Rightarrow> doorbell) \<Rightarrow> doorbell \<Rightarrow> doorbell" where
  "svm_inject_irq E enabled nr inject d = (if enabled then sev_inject_restricted_irq E nr d else inject d)"

definition svm_nmi_blocked :: "bool \<Rightarrow> (doorbell \<Rightarrow> bool) \<Rightarrow> doorbell \<Rightarrow> bool" where
  "svm_nmi_blocked enabled blocked d = (if enabled then sev_restricted_injection_nmi_blocked d else blocked d)"

definition svm_interrupt_blocked :: "bool \<Rightarrow> (doorbell \<Rightarrow> bool) \<Rightarrow> doorbell \<Rightarrow> bool \<times> doorbell" where
  "svm_interrupt_blocked enabled blocked d =
     (if enabled then (let (ret, d) = sev_restricted_injection_blocked d in (ret \<noteq> 0, d)) else (blocked d, d))"

section \<open>The machine\<close>

text \<open>
  A vCPU at a level with restricted injection: in the guest, which may take the vector and write the
  rest of its pages, or in the host between an exit and the next entry.  The two lists are the
  vectors presented and those moved into service.
\<close>

datatype place = Guest | Host

definition guest_wrote :: "doorbell \<Rightarrow> doorbell \<Rightarrow> bool" where
  "guest_wrote d d' \<longleftrightarrow>
     d' = d\<lparr>pages := pages d'\<rparr> \<and> dom (pages d') = dom (pages d)
     \<and> (doorbell_gfn d \<in> dom (pages d) \<longrightarrow> vector (pending d') \<in> {0, vector (pending d)})"

definition page_there :: "doorbell \<Rightarrow> bool" where
  "page_there d \<longleftrightarrow> doorbell_gfn d \<in> dom (pages d)"

inductive doorbell_step ::
    "doorbell_env \<Rightarrow> doorbell \<times> place \<times> byte list \<times> byte list \<Rightarrow> doorbell \<times> place \<times> byte list \<times> byte list \<Rightarrow> bool"
  for E where
  step_wrote: "guest_wrote d d' \<Longrightarrow> doorbell_step E (d, Guest, ps, ss) (d', Guest, ps, ss)"
| step_exit: "svm_handle_exit True (Pair 1) d = (r, d')
    \<Longrightarrow> ss' = (if snp_doorbell_presented_vector d \<and> \<not> snp_doorbell_presented_vector d'
                then ss @ [snp_doorbell_last_presented_vector d] else ss)
    \<Longrightarrow> doorbell_step E (d, Guest, ps, ss) (d', Host, ps, ss')"
| step_request: "sev_snp_hv_doorbell_page E True info1 info2 d = (r, info, d')
    \<Longrightarrow> ucast info1 = DOORBELL_SET E \<longrightarrow> \<not> snp_doorbell_presented_vector d
    \<Longrightarrow> doorbell_step E (d, Host, ps, ss) (d', Host, ps, ss)"
| step_halt: "svm_emulate_halt True (Pair 1) d = (r, d') \<Longrightarrow> doorbell_step E (d, Host, ps, ss) (d', Host, ps, ss)"
| step_nmi: "\<not> svm_nmi_blocked True blocked d \<Longrightarrow> svm_inject_nmi E True inject d = d'
    \<Longrightarrow> doorbell_step E (d, Host, ps, ss) (d', Host, ps, ss)"
| step_irq: "svm_interrupt_blocked True blocked d = (False, d1) \<Longrightarrow> svm_inject_irq E True nr inject d1 = d' \<Longrightarrow> nr \<noteq> 0
    \<Longrightarrow> ps' = (if snp_doorbell_active d \<and> page_there d then ps @ [nr] else ps)
    \<Longrightarrow> doorbell_step E (d, Host, ps, ss) (d', Host, ps', ss)"
| step_enter: "doorbell_step E (d, Host, ps, ss) (sev_unmap_doorbell_page d, Guest, ps, ss)"

section \<open>What each operation does\<close>

lemma map_doorbell_page:
  "sev_map_doorbell_page d =
     (if page_there d
      then (0, d\<lparr>doorbell_map := Some (doorbell_gfn d),
                 page_refs := (page_refs d)(doorbell_gfn d := page_refs d (doorbell_gfn d) + 1)\<rparr>)
      else (- EFAULT, d))"
  by (auto simp: sev_map_doorbell_page_def page_there_def Let_def split: option.splits)

definition mapped :: "doorbell \<Rightarrow> doorbell" where
  "mapped d = snd (sev_map_doorbell_page d)"

lemma mapped_simps [simp]:
  "pending (mapped d) = pending d" "pages (mapped d) = pages d" "snp_doorbell_active (mapped d) = snp_doorbell_active d"
  "snp_doorbell_presented_vector (mapped d) = snp_doorbell_presented_vector d"
  "snp_doorbell_last_presented_vector (mapped d) = snp_doorbell_last_presented_vector d"
  "doorbell_gfn (mapped d) = doorbell_gfn d" "page_there (mapped d) = page_there d"
  by (simp_all add: mapped_def map_doorbell_page pending_def doorbell_gfn_def page_there_def)

lemma set_pending_simps [simp]:
  "pending (set_pending e d) = e" "snp_doorbell_active (set_pending e d) = snp_doorbell_active d"
  "snp_doorbell_presented_vector (set_pending e d) = snp_doorbell_presented_vector d"
  "snp_doorbell_last_presented_vector (set_pending e d) = snp_doorbell_last_presented_vector d"
  "doorbell_gfn (set_pending e d) = doorbell_gfn d" "page_there (set_pending e d)"
  "event_inj (set_pending e d) = event_inj d"
  by (simp_all add: set_pending_def pending_def doorbell_gfn_def page_there_def)

lemma raise_hc_simps [simp]:
  "pending (raise_hc E d) = pending d" "snp_doorbell_active (raise_hc E d) = snp_doorbell_active d"
  "snp_doorbell_presented_vector (raise_hc E d) = snp_doorbell_presented_vector d"
  "snp_doorbell_last_presented_vector (raise_hc E d) = snp_doorbell_last_presented_vector d"
  "page_there (raise_hc E d) = page_there d" "event_inj (raise_hc E d) = HC_EVENT E"
  by (simp_all add: raise_hc_def pending_def doorbell_gfn_def page_there_def)

lemma present_simps [simp]:
  "pending (d\<lparr>snp_doorbell_presented_vector := b, snp_doorbell_last_presented_vector := v\<rparr>) = pending d"
  "page_there (d\<lparr>snp_doorbell_presented_vector := b, snp_doorbell_last_presented_vector := v\<rparr>) = page_there d"
  by (simp_all add: pending_def doorbell_gfn_def page_there_def)

lemma inject_nmi_keeps:
  "snp_doorbell_active (sev_inject_restricted_nmi E d) = snp_doorbell_active d"
  "snp_doorbell_presented_vector (sev_inject_restricted_nmi E d) = snp_doorbell_presented_vector d"
  "snp_doorbell_last_presented_vector (sev_inject_restricted_nmi E d) = snp_doorbell_last_presented_vector d"
  "page_there (sev_inject_restricted_nmi E d) = page_there d"
  "vector (pending (sev_inject_restricted_nmi E d)) = vector (pending d)"
  by (auto simp: sev_inject_restricted_nmi_def map_doorbell_page EFAULT_def pending_def set_pending_def raise_hc_def
      doorbell_gfn_def page_there_def Let_def)

lemma inject_irq_skipped:
  "\<not> (snp_doorbell_active d \<and> page_there d) \<Longrightarrow> sev_inject_restricted_irq E nr d = d"
  by (auto simp: sev_inject_restricted_irq_def map_doorbell_page EFAULT_def)

text \<open>An interrupt on a page that is there: #HC only if there was none before and no signal is out.\<close>

lemma inject_irq_presents:
  assumes "snp_doorbell_active d" "page_there d"
  shows "snp_doorbell_presented_vector (sev_inject_restricted_irq E nr d)"
    and "snp_doorbell_last_presented_vector (sev_inject_restricted_irq E nr d) = nr"
    and "vector (pending (sev_inject_restricted_irq E nr d)) = nr"
    and "no_further_signal (pending (sev_inject_restricted_irq E nr d)) =
      (no_further_signal (pending d) \<or> vector (pending d) = 0)"
    and "event_inj (sev_inject_restricted_irq E nr d) =
      (if vector (pending d) = 0 \<and> \<not> no_further_signal (pending d) then HC_EVENT E else event_inj d)"
  using assms
  by (auto simp: sev_inject_restricted_irq_def map_doorbell_page EFAULT_def pending_def set_pending_def raise_hc_def
      doorbell_gfn_def page_there_def Let_def)

lemma blocked_value:
  "fst (sev_restricted_injection_blocked d) =
     (if snp_doorbell_active d \<and> snp_doorbell_presented_vector d \<and> (page_there d \<longrightarrow> vector (pending d) \<noteq> 0) then 1 else 0)"
  "snd (sev_restricted_injection_blocked d) =
     (if snp_doorbell_active d \<and> snp_doorbell_presented_vector d then mapped d else d)"
  by (auto simp: sev_restricted_injection_blocked_def map_doorbell_page mapped_def EFAULT_def pending_def doorbell_gfn_def
      Let_def)

lemma check_isr_keeps:
  "snp_doorbell_presented_vector (snd (sev_restricted_injection_check_isr d)) \<longleftrightarrow>
     snp_doorbell_presented_vector d \<and> \<not> (snp_doorbell_active d \<and> page_there d \<and> vector (pending d) = 0)"
  "snp_doorbell_last_presented_vector (snd (sev_restricted_injection_check_isr d)) = snp_doorbell_last_presented_vector d"
  "snp_doorbell_active (snd (sev_restricted_injection_check_isr d)) = snp_doorbell_active d"
  "page_there (snd (sev_restricted_injection_check_isr d)) = page_there d"
  "pending (snd (sev_restricted_injection_check_isr d)) = pending d"
  by (auto simp: sev_restricted_injection_check_isr_def map_doorbell_page EFAULT_def pending_def doorbell_gfn_def
      page_there_def Let_def)

lemma skip_hlt_value:
  "snd (sev_should_skip_hlt d) = (if snp_doorbell_active d \<and> snp_doorbell_presented_vector d then mapped d else d)"
  by (simp add: sev_should_skip_hlt_def map_doorbell_page mapped_def EFAULT_def Let_def)

lemma halt_pair: "snd (svm_emulate_halt True (Pair 1) d) = snd (sev_should_skip_hlt d)"
  by (simp add: svm_emulate_halt_def case_prod_unfold Let_def)

lemma exit_pair: "snd (svm_handle_exit True (Pair 1) d) = snd (sev_restricted_injection_check_isr d)"
  by (simp add: svm_handle_exit_def case_prod_unfold Let_def)

section \<open>Order\<close>

text \<open>What is outstanding is the last vector presented; in the host it still stands on the page.\<close>

fun doorbell_inv :: "doorbell \<times> place \<times> byte list \<times> byte list \<Rightarrow> bool" where
  "doorbell_inv (d, pl, ps, ss) \<longleftrightarrow>
     ps = ss @ (if snp_doorbell_presented_vector d then [snp_doorbell_last_presented_vector d] else [])
     \<and> (pl = Host \<and> snp_doorbell_active d \<and> snp_doorbell_presented_vector d \<and> page_there d \<longrightarrow> vector (pending d) \<noteq> 0)"

lemma request_keeps_presented:
  assumes "sev_snp_hv_doorbell_page E True info1 info2 d = (r, info, d')"
  shows "snp_doorbell_presented_vector d' = snp_doorbell_presented_vector d"
    and "snp_doorbell_last_presented_vector d' = snp_doorbell_last_presented_vector d"
    and "pages d' = pages d"
    and "ucast info1 \<noteq> DOORBELL_SET E \<Longrightarrow> snp_doorbell_active d' \<Longrightarrow> snp_doorbell_active d \<and> doorbell_gfn d' = doorbell_gfn d"
  using assms by (auto simp: sev_snp_hv_doorbell_page_def doorbell_gfn_def Let_def split: if_splits)

lemma doorbell_step_inv: "doorbell_step E c c' \<Longrightarrow> doorbell_inv c \<Longrightarrow> doorbell_inv c'"
proof (induction rule: doorbell_step.induct)
  case (step_wrote d d' ps ss)
  have "snp_doorbell_presented_vector d' = snp_doorbell_presented_vector d"
    "snp_doorbell_last_presented_vector d' = snp_doorbell_last_presented_vector d"
    by (subst conjunct1 [OF step_wrote(1) [unfolded guest_wrote_def]], simp)+
  with step_wrote show ?case by simp
next
  case (step_exit d r d' ss' ps ss)
  have "d' = snd (sev_restricted_injection_check_isr d)" using exit_pair [of d] step_exit(1) by simp
  note k = check_isr_keeps [of d, folded this]
  from k step_exit(2,3) show ?case by auto
next
  case (step_request info1 info2 d r info d' ps ss)
  note k = request_keeps_presented [OF step_request(1)]
  show ?case
  proof (cases "ucast info1 = DOORBELL_SET E")
    case True
    with step_request(2,3) k(1-2) show ?thesis by simp
  next
    case False
    with step_request(3) k show ?thesis by (auto simp: page_there_def pending_def)
  qed
next
  case (step_halt d r d' ps ss)
  have "d' = snd (sev_should_skip_hlt d)" using halt_pair [of d] step_halt(1) by simp
  with step_halt(2) show ?case by (simp add: skip_hlt_value)
next
  case (step_nmi blocked d inject d' ps ss)
  then have "d' = sev_inject_restricted_nmi E d" by (simp add: svm_inject_nmi_def)
  with step_nmi(3) show ?case by (simp add: inject_nmi_keeps)
next
  case (step_irq blocked d d1 nr inject d' ps' ps ss)
  have b: "fst (sev_restricted_injection_blocked d) = 0" "d1 = snd (sev_restricted_injection_blocked d)"
    using step_irq(1) by (auto simp: svm_interrupt_blocked_def Let_def case_prod_unfold)
  have d1: "snp_doorbell_active d1 = snp_doorbell_active d" "page_there d1 = page_there d"
    "snp_doorbell_presented_vector d1 = snp_doorbell_presented_vector d" "pending d1 = pending d"
    "snp_doorbell_last_presented_vector d1 = snp_doorbell_last_presented_vector d"
    by (simp_all add: b(2) blocked_value)
  have d': "d' = sev_inject_restricted_irq E nr d1" using step_irq(2) by (simp add: svm_inject_irq_def)
  show ?case
  proof (cases "snp_doorbell_active d \<and> page_there d")
    case True
    with b(1) step_irq(5) have "\<not> snp_doorbell_presented_vector d" by (auto simp: blocked_value split: if_splits)
    moreover note inject_irq_presents [of d1 E nr, folded d']
    ultimately show ?thesis using True step_irq(3-5) d1 by simp
  next
    case False
    then have "d' = d1" using inject_irq_skipped [of d1 E nr] d' d1 by simp
    with False step_irq(3-5) d1 show ?thesis by auto
  qed
next
  case (step_enter d ps ss)
  then show ?case by (simp add: sev_unmap_doorbell_page_def split: option.splits)
qed

definition doorbell_start :: "doorbell \<times> place \<times> byte list \<times> byte list \<Rightarrow> bool" where
  "doorbell_start c = (case c of (d, pl, ps, ss) \<Rightarrow> \<not> snp_doorbell_presented_vector d \<and> ps = [] \<and> ss = [])"

lemma doorbell_reachable_inv: "(doorbell_step E)\<^sup>*\<^sup>* c c' \<Longrightarrow> doorbell_start c \<Longrightarrow> doorbell_inv c'"
  by (induction rule: rtranclp_induct) (auto simp: doorbell_start_def intro: doorbell_step_inv split: prod.splits)


text \<open>
  Before the guest has given a page, or after it took it back, interrupts are not held back although
  NMIs are; what is injected then goes nowhere.
\<close>

lemma interrupt_without_page_lost:
  "\<not> snp_doorbell_active d \<Longrightarrow>
     svm_interrupt_blocked True blocked d = (False, d) \<and> svm_inject_irq E True nr inject d = d
     \<and> svm_nmi_blocked True nmi_blocked d"
  by (simp add: svm_interrupt_blocked_def svm_inject_irq_def svm_nmi_blocked_def sev_inject_restricted_irq_def
      sev_restricted_injection_blocked_def sev_restricted_injection_nmi_blocked_def)

text \<open>
  The page is mapped anew by each operation and unmapped once, at the entry: an exit with an untaken
  interrupt leaves the host holding the page once more than before.
\<close>

lemma untaken_interrupt_holds_page:
  assumes "snp_doorbell_active d" "snp_doorbell_presented_vector d" "page_there d" "vector (pending d) \<noteq> 0"
    and "d1 = snd (sev_restricted_injection_check_isr d)" "d2 = snd (sev_restricted_injection_blocked d1)"
  shows "page_refs (sev_unmap_doorbell_page d2) (doorbell_gfn d) = page_refs d (doorbell_gfn d) + 1"
proof -
  have d1: "d1 = mapped d"
    using assms(1-5) by (simp add: sev_restricted_injection_check_isr_def map_doorbell_page mapped_def pending_def
        doorbell_gfn_def Let_def)
  have "d2 = mapped (mapped d)" using assms(1,2) by (simp add: assms(6) d1 blocked_value)
  with assms(3) show ?thesis
    by (simp add: mapped_def map_doorbell_page sev_unmap_doorbell_page_def doorbell_gfn_def page_there_def)
qed

section \<open>Examples\<close>

definition demo_denv :: doorbell_env where
  "demo_denv =
     \<lparr>HC_EVENT = 0x8000031C, DOORBELL_GET_PREFERRED = 0, DOORBELL_SET = 1, DOORBELL_QUERY = 2, DOORBELL_CLEAR = 3,
      FEAT_RESTRICTED_INJECTION = 8\<rparr>"

definition demo_doorbell :: doorbell where
  "demo_doorbell =
     \<lparr>snp_doorbell_gpa = 0, snp_doorbell_active = False, snp_doorbell_presented_vector = False,
      snp_doorbell_last_presented_vector = 0, doorbell_map = None, page_refs = \<lambda>_. 0,
      pages = [7 \<mapsto> \<lparr>vector = 0, nmi = False, machine_check = False, no_further_signal = False\<rparr>], event_inj = 0,
      event_inj_err = 0, lapic_in_kernel = True, lapic_sw_enabled = False, irr = {}, isr = {}, req_event = False\<rparr>"


end
