(* ===== verification/Sev_Io.thy ===== *)
theory Sev_Io
  imports Wallet_Prelude
begin

text \<open>
  Port and memory-mapped requests of an SEV guest, \<open>host/kvm/x86.c\<close>: what the devices of the kernel do
  not serve goes to user space in pieces, a page of port data or eight bytes of memory at a time, and
  is taken up again when user space is back.
\<close>

section \<open>State\<close>

text \<open>
  The buffer of the request, the state of a string request and of a memory request in \<open>vcpu->arch\<close>,
  and \<open>vcpu->run\<close>.  A pointer into the buffer is an offset; \<open>pio_data\<close> are the bytes of the page shared
  with user space that the request uses, \<open>bus\<close> the devices of the kernel.
\<close>

record mmio_fragment =
  frag_pos :: nat
  frag_len :: u32
  frag_gpa :: u64

datatype io_completion = Complete_Outs | Complete_Ins | Complete_Mmio

datatype io_exit = Exit_Io | Exit_Mmio

record 'x io =
  buf :: "byte list"
  sev_pio_pos :: nat
  sev_pio_count :: u32
  pio_in :: bool
  pio_port :: "16 word"
  pio_count :: u32
  pio_size :: u32
  pio_data :: "byte list"
  mmio_fragments :: "mmio_fragment list"
  mmio_nr_fragments :: nat
  mmio_cur_fragment :: nat
  mmio_needed :: bool
  mmio_is_write :: bool
  run_addr :: u64
  run_len :: u32
  run_write :: bool
  run_data :: "byte list"
  io_exit :: "io_exit option"
  io_completion :: "io_completion option"
  bus :: 'x

text \<open>
  The buses: a port read or write fails when there is no device; a memory read or write returns how
  many bytes were handled (and, a read, these).
\<close>

record 'x buses =
  kvm_io_bus_read :: "16 word \<Rightarrow> nat \<Rightarrow> 'x \<Rightarrow> byte list option \<times> 'x"
  kvm_io_bus_write :: "16 word \<Rightarrow> byte list \<Rightarrow> 'x \<Rightarrow> bool \<times> 'x"
  vcpu_mmio_read :: "u64 \<Rightarrow> u32 \<Rightarrow> 'x \<Rightarrow> byte list \<times> 'x"
  vcpu_mmio_write :: "u64 \<Rightarrow> byte list \<Rightarrow> 'x \<Rightarrow> u32 \<times> 'x"

definition overwrite :: "nat \<Rightarrow> 'a list \<Rightarrow> 'a list \<Rightarrow> 'a list" where
  "overwrite pos bs xs = take pos xs @ bs @ drop (pos + length bs) xs"

definition chunk :: "nat \<Rightarrow> nat \<Rightarrow> 'a list \<Rightarrow> 'a list" where
  "chunk pos n xs = take n (drop pos xs)"

section \<open>Ports\<close>

text \<open>The loop of \<open>emulator_pio_in_out\<close>; \<open>False\<close> is the jump to \<open>userspace_io\<close>.\<close>

fun pio_loop :: "'x buses \<Rightarrow> bool \<Rightarrow> nat \<Rightarrow> 16 word \<Rightarrow> bool \<Rightarrow> nat \<Rightarrow> nat \<Rightarrow> 'x io \<Rightarrow> bool \<times> 'x io" where
  "pio_loop B inp siz port start 0 pos s = (True, s)"
| "pio_loop B inp siz port start (Suc n) pos s =
     (if inp
      then (case kvm_io_bus_read B port siz (bus s) of
              (None, b) \<Rightarrow>
                (let s = s\<lparr>bus := b\<rparr>
                 in if start then (False, s) else (True, s\<lparr>buf := overwrite pos (replicate (siz * Suc n) 0) (buf s)\<rparr>))
            | (Some bs, b) \<Rightarrow>
                pio_loop B inp siz port False n (pos + siz) (s\<lparr>bus := b, buf := overwrite pos bs (buf s)\<rparr>))
      else (case kvm_io_bus_write B port (chunk pos siz (buf s)) (bus s) of
              (True, b) \<Rightarrow> (let s = s\<lparr>bus := b\<rparr> in if start then (False, s) else (True, s))
            | (False, b) \<Rightarrow> pio_loop B inp siz port False n (pos + siz) (s\<lparr>bus := b\<rparr>)))"

definition emulator_pio_in_out :: "'x buses \<Rightarrow> u32 \<Rightarrow> 16 word \<Rightarrow> nat \<Rightarrow> u32 \<Rightarrow> bool \<Rightarrow> 'x io \<Rightarrow> bool \<times> 'x io" where
  "emulator_pio_in_out B siz port pos count inp s =
     (let (ret, s) = pio_loop B inp (unat siz) port True (unat count) pos s
      in if ret then (True, s)
         else (let s = s\<lparr>pio_port := port, pio_in := inp, pio_count := count, pio_size := siz\<rparr>;
                   n = unat siz * unat count;
                   s = s\<lparr>pio_data := (if inp then replicate n 0 else chunk pos n (buf s))\<rparr>
               in (False, s\<lparr>io_exit := Some Exit_Io\<rparr>)))"

definition complete_emulator_pio_in :: "nat \<Rightarrow> 'x io \<Rightarrow> 'x io" where
  "complete_emulator_pio_in pos s =
     (let n = unat (pio_size s) * unat (pio_count s)
      in s\<lparr>buf := overwrite pos (take n (pio_data s)) (buf s), pio_count := 0\<rparr>)"

definition advance_sev_es_emulated_pio :: "u32 \<Rightarrow> u32 \<Rightarrow> 'x io \<Rightarrow> 'x io" where
  "advance_sev_es_emulated_pio count siz s =
     s\<lparr>sev_pio_count := sev_pio_count s - count, sev_pio_pos := sev_pio_pos s + unat count * unat siz\<rparr>"

text \<open>
  \<open>PAGE_SIZE / size\<close> with a size of 0 is a fault of the host, the value \<open>None\<close>, as is a loop that never
  ends.  The result is 1 when the request is done, 0 when user space has to do the next piece.
\<close>

definition page_count :: "u32 \<Rightarrow> u32 \<Rightarrow> u32 option" where
  "page_count siz left = (if siz = 0 then None else Some (min (4096 div siz) left))"

partial_function (option) kvm_sev_es_outs :: "'x buses \<Rightarrow> u32 \<Rightarrow> 16 word \<Rightarrow> 'x io \<Rightarrow> (int \<times> 'x io) option" where
  "kvm_sev_es_outs B siz port s =
     (case page_count siz (sev_pio_count s) of
        None \<Rightarrow> None
      | Some count \<Rightarrow>
          (let (ret, s) = emulator_pio_in_out B siz port (sev_pio_pos s) count False s;
               s = advance_sev_es_emulated_pio count siz s
           in if \<not> ret then Some (0, s\<lparr>io_completion := Some Complete_Outs\<rparr>)
              else if sev_pio_count s = 0 then Some (1, s)
              else kvm_sev_es_outs B siz port s))"

definition complete_sev_es_emulated_outs :: "'x buses \<Rightarrow> 'x io \<Rightarrow> (int \<times> 'x io) option" where
  "complete_sev_es_emulated_outs B s =
     (let siz = pio_size s; port = pio_port s; s = s\<lparr>pio_count := 0\<rparr>
      in if sev_pio_count s \<noteq> 0 then kvm_sev_es_outs B siz port s else Some (1, s))"

partial_function (option) kvm_sev_es_ins :: "'x buses \<Rightarrow> u32 \<Rightarrow> 16 word \<Rightarrow> 'x io \<Rightarrow> (int \<times> 'x io) option" where
  "kvm_sev_es_ins B siz port s =
     (case page_count siz (sev_pio_count s) of
        None \<Rightarrow> None
      | Some count \<Rightarrow>
          (let (ret, s) = emulator_pio_in_out B siz port (sev_pio_pos s) count True s
           in if \<not> ret then Some (0, s\<lparr>io_completion := Some Complete_Ins\<rparr>)
              else (let s = advance_sev_es_emulated_pio count siz s
                    in if sev_pio_count s = 0 then Some (1, s) else kvm_sev_es_ins B siz port s)))"

definition complete_sev_es_emulated_ins :: "'x buses \<Rightarrow> 'x io \<Rightarrow> (int \<times> 'x io) option" where
  "complete_sev_es_emulated_ins B s =
     (let count = pio_count s; siz = pio_size s; port = pio_port s;
          s = complete_emulator_pio_in (sev_pio_pos s) s;
          s = advance_sev_es_emulated_pio count siz s
      in if sev_pio_count s \<noteq> 0 then kvm_sev_es_ins B siz port s else Some (1, s))"

definition kvm_sev_es_string_io ::
    "'x buses \<Rightarrow> u32 \<Rightarrow> u32 \<Rightarrow> byte list \<Rightarrow> u32 \<Rightarrow> bool \<Rightarrow> 'x io \<Rightarrow> (int \<times> 'x io) option" where
  "kvm_sev_es_string_io B siz port data count inp s =
     (let s = s\<lparr>buf := data, sev_pio_pos := 0, sev_pio_count := count\<rparr>
      in if inp then kvm_sev_es_ins B siz (ucast port) s else kvm_sev_es_outs B siz (ucast port) s)"

section \<open>Memory\<close>

definition EINVAL_io :: int where "EINVAL_io = 22"

text \<open>\<open>memcpy(run->mmio.data, frag->data, min(8u, frag->len))\<close>.\<close>

definition load_run_data :: "mmio_fragment \<Rightarrow> 'x io \<Rightarrow> 'x io" where
  "load_run_data f s = s\<lparr>run_data := overwrite 0 (chunk (frag_pos f) (unat (min 8 (frag_len f))) (buf s)) (run_data s)\<rparr>"

text \<open>The rest of both requests, once the kernel has handled what it can.\<close>

definition start_mmio :: "bool \<Rightarrow> u64 \<Rightarrow> u32 \<Rightarrow> nat \<Rightarrow> 'x io \<Rightarrow> 'x io" where
  "start_mmio wr gpa bytes pos s =
     (let frag = \<lparr>frag_pos = pos, frag_len = bytes, frag_gpa = gpa\<rparr>;
          s = s\<lparr>mmio_nr_fragments := 1, mmio_fragments := (mmio_fragments s)[0 := frag]\<rparr>;
          s = s\<lparr>mmio_needed := True, mmio_cur_fragment := 0\<rparr>;
          s = s\<lparr>run_addr := gpa, run_len := min 8 bytes, run_write := wr\<rparr>;
          s = (if wr then load_run_data frag s else s)
      in s\<lparr>io_exit := Some Exit_Mmio, io_completion := Some Complete_Mmio\<rparr>)"

definition kvm_sev_es_mmio_write :: "'x buses \<Rightarrow> u64 \<Rightarrow> u32 \<Rightarrow> byte list option \<Rightarrow> 'x io \<Rightarrow> int \<times> 'x io" where
  "kvm_sev_es_mmio_write B gpa bytes data s =
     (case data of
        None \<Rightarrow> (- EINVAL_io, s)
      | Some bs \<Rightarrow>
          (let s = s\<lparr>buf := bs\<rparr>;
               (handled, b) = vcpu_mmio_write B gpa (take (unat bytes) bs) (bus s);
               s = s\<lparr>bus := b\<rparr>
           in if handled = bytes then (1, s)
              else (0, start_mmio True (gpa + ucast handled) (bytes - handled) (unat handled) s)))"

definition kvm_sev_es_mmio_read :: "'x buses \<Rightarrow> u64 \<Rightarrow> u32 \<Rightarrow> byte list option \<Rightarrow> 'x io \<Rightarrow> int \<times> 'x io" where
  "kvm_sev_es_mmio_read B gpa bytes data s =
     (case data of
        None \<Rightarrow> (- EINVAL_io, s)
      | Some bs \<Rightarrow>
          (let (got, b) = vcpu_mmio_read B gpa bytes (bus s);
               s = s\<lparr>buf := overwrite 0 got bs, bus := b\<rparr>;
               handled = of_nat (length got)
           in if handled = bytes then (1, s)
              else (0, start_mmio False (gpa + ucast handled) (bytes - handled) (unat handled) s)))"

text \<open>\<open>BUG_ON(!vcpu->mmio_needed)\<close> is \<open>None\<close>.\<close>

definition complete_sev_es_emulated_mmio :: "'x io \<Rightarrow> (int \<times> 'x io) option" where
  "complete_sev_es_emulated_mmio s =
     (if \<not> mmio_needed s then None
      else (let cur = mmio_cur_fragment s; frag = mmio_fragments s ! cur; len = min 8 (frag_len frag);
                s = (if \<not> mmio_is_write s then s\<lparr>buf := overwrite (frag_pos frag) (take (unat len) (run_data s)) (buf s)\<rparr> else s);
                s = (if frag_len frag \<le> 8 then s\<lparr>mmio_cur_fragment := cur + 1\<rparr>
                     else s\<lparr>mmio_fragments := (mmio_fragments s)[cur := frag\<lparr>frag_pos := frag_pos frag + unat len,
                              frag_gpa := frag_gpa frag + ucast len, frag_len := frag_len frag - len\<rparr>]\<rparr>)
            in if mmio_nr_fragments s \<le> mmio_cur_fragment s then Some (1, s\<lparr>mmio_needed := False\<rparr>)
               else (let frag = mmio_fragments s ! mmio_cur_fragment s;
                         s = s\<lparr>run_addr := frag_gpa frag, run_len := min 8 (frag_len frag), run_write := mmio_is_write s\<rparr>;
                         s = (if run_write s then load_run_data frag s else s)
                     in Some (0, s\<lparr>io_exit := Some Exit_Mmio, io_completion := Some Complete_Mmio\<rparr>))))"

section \<open>User space\<close>

text \<open>
  A request up to its end: user space notes each piece of output; of input it supplies the next bytes
  it has.
\<close>

partial_function (option) out_session :: "'x buses \<Rightarrow> (int \<times> 'x io) option \<Rightarrow> byte list list option" where
  "out_session B r =
     (case r of
        None \<Rightarrow> None
      | Some (ret, s) \<Rightarrow>
          if ret \<noteq> 0 then Some []
          else Option.bind (out_session B (complete_sev_es_emulated_outs B s)) (\<lambda>bss. Some (pio_data s # bss)))"

partial_function (option) in_session :: "'x buses \<Rightarrow> byte list \<Rightarrow> (int \<times> 'x io) option \<Rightarrow> 'x io option" where
  "in_session B given r =
     (case r of
        None \<Rightarrow> None
      | Some (ret, s) \<Rightarrow>
          if ret \<noteq> 0 then Some s
          else (let n = length (pio_data s)
                in in_session B (drop n given) (complete_sev_es_emulated_ins B (s\<lparr>pio_data := take n given\<rparr>))))"

text \<open>The exits of a memory request; user space reads from \<open>dev\<close>.\<close>

type_synonym mmio_exit = "u64 \<times> u32 \<times> bool \<times> byte list"

definition user_mmio :: "(u64 \<Rightarrow> byte) \<Rightarrow> 'x io \<Rightarrow> 'x io" where
  "user_mmio dev s =
     (if run_write s then s
      else s\<lparr>run_data := overwrite 0 (map (\<lambda>i. dev (run_addr s + of_nat i)) [0..<unat (run_len s)]) (run_data s)\<rparr>)"

partial_function (option) mmio_session ::
    "(u64 \<Rightarrow> byte) \<Rightarrow> (int \<times> 'x io) option \<Rightarrow> (mmio_exit list \<times> 'x io) option" where
  "mmio_session dev r =
     (case r of
        None \<Rightarrow> None
      | Some (ret, s) \<Rightarrow>
          if ret \<noteq> 0 then Some ([], s)
          else (let s = user_mmio dev s
                in Option.bind (mmio_session dev (complete_sev_es_emulated_mmio s))
                     (\<lambda>(es, s'). Some ((run_addr s, run_len s, run_write s, take (unat (run_len s)) (run_data s)) # es, s'))))"

lemma out_session_simps [simp]:
  "out_session B (Some (1, s)) = Some []"
  "out_session B (Some (0, s)) =
     Option.bind (out_session B (complete_sev_es_emulated_outs B s)) (\<lambda>bss. Some (pio_data s # bss))"
  by (subst out_session.simps, simp)+

lemma in_session_simps [simp]:
  "in_session B given (Some (1, s)) = Some s"
  "in_session B given (Some (0, s)) =
     in_session B (drop (length (pio_data s)) given)
       (complete_sev_es_emulated_ins B (s\<lparr>pio_data := take (length (pio_data s)) given\<rparr>))"
  by (subst in_session.simps, simp add: Let_def)+

section \<open>Pieces\<close>

lemma length_overwrite: "pos + length bs \<le> length xs \<Longrightarrow> length (overwrite pos bs xs) = length xs"
  by (simp add: overwrite_def)

lemma overwrite_overwrite:
  "pos + length as + length bs \<le> length xs \<Longrightarrow> overwrite (pos + length as) bs (overwrite pos as xs) = overwrite pos (as @ bs) xs"
  by (cases as) (auto simp: overwrite_def min_def ac_simps)

lemma chunk_append: "chunk pos m xs @ chunk (pos + m) n xs = chunk pos (m + n) xs"
  by (simp add: chunk_def take_add add.commute)

lemma length_chunk: "pos + n \<le> length xs \<Longrightarrow> length (chunk pos n xs) = n"
  by (simp add: chunk_def)

definition no_port :: "'x buses \<Rightarrow> 16 word \<Rightarrow> bool" where
  "no_port B port \<longleftrightarrow> (\<forall>n bs x. fst (kvm_io_bus_read B port n x) = None \<and> fst (kvm_io_bus_write B port bs x))"

lemma pio_to_user:
  assumes "no_port B port" "0 < unat count"
  shows "\<exists>b. emulator_pio_in_out B siz port pos count inp s =
     (False, s\<lparr>bus := b, pio_port := port, pio_in := inp, pio_count := count, pio_size := siz,
        pio_data := (if inp then replicate (unat siz * unat count) 0 else chunk pos (unat siz * unat count) (buf s)),
        io_exit := Some Exit_Io\<rparr>)"
proof -
  obtain n where n: "unat count = Suc n" using assms(2) by (cases "unat count") auto
  obtain b where "pio_loop B inp (unat siz) port True (unat count) pos s = (False, s\<lparr>bus := b\<rparr>)"
  proof (cases inp)
    case True
    have "fst (kvm_io_bus_read B port (unat siz) (bus s)) = None" using assms(1) by (simp add: no_port_def)
    with True n that [of "snd (kvm_io_bus_read B port (unat siz) (bus s))"] show thesis
      by (simp add: case_prod_unfold split: option.splits)
  next
    case False
    have "fst (kvm_io_bus_write B port (chunk pos (unat siz) (buf s)) (bus s))" using assms(1) by (simp add: no_port_def)
    with False n that [of "snd (kvm_io_bus_write B port (chunk pos (unat siz) (buf s)) (bus s))"] show thesis
      by (cases "kvm_io_bus_write B port (chunk pos (unat siz) (buf s)) (bus s)") simp
  qed
  then show ?thesis by (auto simp: emulator_pio_in_out_def Let_def)
qed

text \<open>The size of the next piece.\<close>

lemma page_count_pos:
  assumes "0 < unat siz" "unat siz \<le> 4096" "0 < unat (left :: u32)"
  shows "\<exists>count. page_count siz left = Some count \<and> 0 < unat count \<and> unat count \<le> unat left \<and> unat siz * unat count \<le> 4096"
proof -
  have s: "siz \<noteq> 0" using assms(1) by auto
  have d: "unat (4096 div siz) = 4096 div unat siz" by (simp add: unat_div)
  have m: "unat (min (4096 div siz) left) = min (4096 div unat siz) (unat left)"
    by (simp add: min_def word_le_nat_alt d)
  have "1 \<le> 4096 div unat siz" using assms(1,2) by (simp add: Suc_le_eq div_greater_zero_iff)
  moreover have "unat siz * (4096 div unat siz) \<le> 4096" by simp
  then have "unat siz * min (4096 div unat siz) (unat left) \<le> 4096"
    by (meson le_trans min.cobounded1 mult_le_mono2)
  ultimately show ?thesis using s assms(3) m by (auto simp: page_count_def)
qed

lemma outs_to_user:
  assumes "no_port B port" "0 < unat siz" "unat siz \<le> 4096" "0 < unat (sev_pio_count s)"
  shows "\<exists>(count :: u32) s'. kvm_sev_es_outs B siz port s = Some (0, s') \<and> 0 < unat count \<and> unat count \<le> unat (sev_pio_count s)
    \<and> unat siz * unat count \<le> 4096 \<and> pio_data s' = chunk (sev_pio_pos s) (unat siz * unat count) (buf s)
    \<and> buf s' = buf s \<and> sev_pio_pos s' = sev_pio_pos s + unat siz * unat count
    \<and> unat (sev_pio_count s') = unat (sev_pio_count s) - unat count \<and> pio_size s' = siz \<and> pio_port s' = port"
proof -
  obtain count where c: "page_count siz (sev_pio_count s) = Some count" "0 < unat count"
    "unat count \<le> unat (sev_pio_count s)" "unat siz * unat count \<le> 4096"
    using page_count_pos [OF assms(2-4)] by blast
  obtain b where "emulator_pio_in_out B siz port (sev_pio_pos s) count False s =
     (False, s\<lparr>bus := b, pio_port := port, pio_in := False, pio_count := count, pio_size := siz,
        pio_data := chunk (sev_pio_pos s) (unat siz * unat count) (buf s), io_exit := Some Exit_Io\<rparr>)"
    using pio_to_user [OF assms(1) c(2), of siz "sev_pio_pos s" False s] by auto
  then have "kvm_sev_es_outs B siz port s = Some (0, (advance_sev_es_emulated_pio count siz
      (s\<lparr>bus := b, pio_port := port, pio_in := False, pio_count := count, pio_size := siz,
        pio_data := chunk (sev_pio_pos s) (unat siz * unat count) (buf s), io_exit := Some Exit_Io\<rparr>))
        \<lparr>io_completion := Some Complete_Outs\<rparr>)"
    by (subst kvm_sev_es_outs.simps) (simp add: c(1))
  moreover have "unat (sev_pio_count s - count) = unat (sev_pio_count s) - unat count"
    using c(3) by (simp add: unat_sub word_le_nat_alt)
  ultimately show ?thesis
    using c(2-4) by (auto simp: advance_sev_es_emulated_pio_def mult.commute intro!: exI [of _ count])
qed

lemma out_session_delivers:
  assumes "no_port B port" "0 < unat siz" "unat siz \<le> 4096"
  shows "\<exists>bss. out_session B (kvm_sev_es_outs B siz port s) = Some bss
    \<and> concat bss = chunk (sev_pio_pos s) (unat siz * unat (sev_pio_count s)) (buf s) \<and> list_all (\<lambda>bs. length bs \<le> 4096) bss"
proof (induction "unat (sev_pio_count s)" arbitrary: s rule: less_induct)
  case less
  show ?case
  proof (cases "unat (sev_pio_count s) = 0")
    case True
    have "siz \<noteq> 0" using assms(2) by auto
    with True have "kvm_sev_es_outs B siz port s = Some (1, advance_sev_es_emulated_pio 0 siz s)"
      by (subst kvm_sev_es_outs.simps)
        (simp add: page_count_def emulator_pio_in_out_def advance_sev_es_emulated_pio_def unat_eq_0)
    with True show ?thesis by (simp add: chunk_def)
  next
    case False
    then have "0 < unat (sev_pio_count s)" by simp
    from outs_to_user [OF assms this] obtain count :: u32 and s' where
      o: "kvm_sev_es_outs B siz port s = Some (0, s')" "0 < unat count" "unat count \<le> unat (sev_pio_count s)"
      "unat siz * unat count \<le> 4096" "pio_data s' = chunk (sev_pio_pos s) (unat siz * unat count) (buf s)" "buf s' = buf s"
      "sev_pio_pos s' = sev_pio_pos s + unat siz * unat count"
      "unat (sev_pio_count s') = unat (sev_pio_count s) - unat count" "pio_size s' = siz" "pio_port s' = port"
      by blast
    have "\<exists>bss. out_session B (complete_sev_es_emulated_outs B s') = Some bss
      \<and> concat bss = chunk (sev_pio_pos s') (unat siz * unat (sev_pio_count s')) (buf s')
      \<and> list_all (\<lambda>bs. length bs \<le> 4096) bss"
    proof (cases "sev_pio_count s' = 0")
      case True
      then show ?thesis by (simp add: complete_sev_es_emulated_outs_def chunk_def)
    next
      case nz: False
      have "unat (sev_pio_count (s'\<lparr>pio_count := 0\<rparr>)) < unat (sev_pio_count s)" using o(2,3,8) by simp
      from less [OF this] show ?thesis
        unfolding complete_sev_es_emulated_outs_def o(9,10) Let_def using nz by simp
    qed
    then obtain bss where b: "out_session B (complete_sev_es_emulated_outs B s') = Some bss"
      "concat bss = chunk (sev_pio_pos s') (unat siz * unat (sev_pio_count s')) (buf s')"
      "list_all (\<lambda>bs. length bs \<le> 4096) bss" by blast
    have l: "length (pio_data s') \<le> 4096" using o(4,5) by (simp add: chunk_def)
    have "unat siz * unat count + unat siz * unat (sev_pio_count s') = unat siz * unat (sev_pio_count s)"
      using o(3,8) by (simp flip: distrib_left)
    then have "concat (pio_data s' # bss) = chunk (sev_pio_pos s) (unat siz * unat (sev_pio_count s)) (buf s)"
      using b(2) o(5-7) by (simp add: chunk_append)
    moreover have "out_session B (kvm_sev_es_outs B siz port s) = Some (pio_data s' # bss)"
      by (simp add: o(1) b(1))
    ultimately show ?thesis using b(3) l by auto
  qed
qed

text \<open>With a size the loops end, whatever devices there are.\<close>

lemma pio_loop_keeps_count: "sev_pio_count (snd (pio_loop B inp siz port start n pos s)) = sev_pio_count s"
  by (induction n arbitrary: start pos s) (auto simp: Let_def split: prod.splits option.splits bool.splits)

lemma pio_keeps_count: "emulator_pio_in_out B siz port pos count inp s = (r, s') \<Longrightarrow> sev_pio_count s' = sev_pio_count s"
  using pio_loop_keeps_count [of B inp "unat siz" port True "unat count" pos s]
  by (auto simp: emulator_pio_in_out_def Let_def case_prod_unfold split: if_splits)

lemma pio_none: "emulator_pio_in_out B siz port pos 0 inp s = (True, s)"
  by (simp add: emulator_pio_in_out_def)

lemma string_io_step:
  assumes "0 < unat siz" "unat siz \<le> 4096"
  obtains count where "page_count siz (left :: u32) = Some count" "unat (left - count) = unat left - unat count"
    "left = 0 \<Longrightarrow> count = 0" "left \<noteq> 0 \<Longrightarrow> unat (left - count) < unat left"
proof (cases "left = 0")
  case True
  have "siz \<noteq> 0" using assms(1) by auto
  with True that [of 0] show thesis by (simp add: page_count_def)
next
  case False
  then have "0 < unat left" by (simp add: unat_gt_0)
  from page_count_pos [OF assms this] obtain count where
    c: "page_count siz left = Some count" "0 < unat count" "unat count \<le> unat left" by blast
  then have "unat (left - count) = unat left - unat count" by (simp add: unat_sub word_le_nat_alt)
  with c False that [of count] show thesis by simp
qed

lemma outs_returns:
  assumes "0 < unat siz" "unat siz \<le> 4096"
  shows "kvm_sev_es_outs B siz port s \<noteq> None"
proof (induction "unat (sev_pio_count s)" arbitrary: s rule: less_induct)
  case less
  obtain count where c: "page_count siz (sev_pio_count s) = Some count"
    "sev_pio_count s = 0 \<Longrightarrow> count = 0" "sev_pio_count s \<noteq> 0 \<Longrightarrow> unat (sev_pio_count s - count) < unat (sev_pio_count s)"
    using string_io_step [OF assms] by metis
  obtain r s1 where e: "emulator_pio_in_out B siz port (sev_pio_pos s) count False s = (r, s1)" by (metis surj_pair)
  define t where "t = advance_sev_es_emulated_pio count siz s1"
  have t: "sev_pio_count t = sev_pio_count s - count"
    using pio_keeps_count [OF e] by (simp add: t_def advance_sev_es_emulated_pio_def)
  have step: "kvm_sev_es_outs B siz port s =
      (if \<not> r then Some (0, t\<lparr>io_completion := Some Complete_Outs\<rparr>)
       else if sev_pio_count t = 0 then Some (1, t) else kvm_sev_es_outs B siz port t)"
    by (subst kvm_sev_es_outs.simps) (simp add: c(1) e t_def Let_def)
  show ?case
  proof (cases "sev_pio_count s = 0")
    case True
    with c(2) t step show ?thesis by simp
  next
    case False
    with less.hyps [of t] c(3) t step show ?thesis by auto
  qed
qed

lemma ins_returns:
  assumes "0 < unat siz" "unat siz \<le> 4096"
  shows "kvm_sev_es_ins B siz port s \<noteq> None"
proof (induction "unat (sev_pio_count s)" arbitrary: s rule: less_induct)
  case less
  obtain count where c: "page_count siz (sev_pio_count s) = Some count"
    "sev_pio_count s = 0 \<Longrightarrow> count = 0" "sev_pio_count s \<noteq> 0 \<Longrightarrow> unat (sev_pio_count s - count) < unat (sev_pio_count s)"
    using string_io_step [OF assms] by metis
  obtain r s1 where e: "emulator_pio_in_out B siz port (sev_pio_pos s) count True s = (r, s1)" by (metis surj_pair)
  define t where "t = advance_sev_es_emulated_pio count siz s1"
  have t: "sev_pio_count t = sev_pio_count s - count"
    using pio_keeps_count [OF e] by (simp add: t_def advance_sev_es_emulated_pio_def)
  have step: "kvm_sev_es_ins B siz port s =
      (if \<not> r then Some (0, s1\<lparr>io_completion := Some Complete_Ins\<rparr>)
       else if sev_pio_count t = 0 then Some (1, t) else kvm_sev_es_ins B siz port t)"
    by (subst kvm_sev_es_ins.simps) (simp add: c(1) e t_def Let_def)
  show ?case
  proof (cases "sev_pio_count s = 0")
    case True
    with c(2) t step show ?thesis by simp
  next
    case False
    with less.hyps [of t] c(3) t step show ?thesis by auto
  qed
qed

lemma ins_to_user:
  assumes "no_port B port" "0 < unat siz" "unat siz \<le> 4096" "0 < unat (sev_pio_count s)"
  shows "\<exists>(count :: u32) s'. kvm_sev_es_ins B siz port s = Some (0, s') \<and> 0 < unat count
    \<and> unat count \<le> unat (sev_pio_count s) \<and> length (pio_data s') = unat siz * unat count
    \<and> buf s' = buf s \<and> sev_pio_pos s' = sev_pio_pos s \<and> sev_pio_count s' = sev_pio_count s
    \<and> pio_count s' = count \<and> pio_size s' = siz \<and> pio_port s' = port"
proof -
  obtain count where c: "page_count siz (sev_pio_count s) = Some count" "0 < unat count"
    "unat count \<le> unat (sev_pio_count s)"
    using page_count_pos [OF assms(2-4)] by blast
  obtain b where "emulator_pio_in_out B siz port (sev_pio_pos s) count True s =
     (False, s\<lparr>bus := b, pio_port := port, pio_in := True, pio_count := count, pio_size := siz,
        pio_data := replicate (unat siz * unat count) 0, io_exit := Some Exit_Io\<rparr>)"
    using pio_to_user [OF assms(1) c(2), of siz "sev_pio_pos s" True s] by auto
  then have "kvm_sev_es_ins B siz port s = Some (0, s\<lparr>bus := b, pio_port := port, pio_in := True, pio_count := count,
      pio_size := siz, pio_data := replicate (unat siz * unat count) 0, io_exit := Some Exit_Io,
      io_completion := Some Complete_Ins\<rparr>)"
    by (subst kvm_sev_es_ins.simps) (simp add: c(1))
  then show ?thesis using c(2,3) by (auto intro!: exI [of _ count])
qed

lemma in_session_fills:
  assumes "no_port B port" "0 < unat siz" "unat siz \<le> 4096"
  shows "sev_pio_pos s + unat siz * unat (sev_pio_count s) \<le> length (buf s) \<Longrightarrow>
    unat siz * unat (sev_pio_count s) \<le> length given \<Longrightarrow>
    \<exists>s'. in_session B given (kvm_sev_es_ins B siz port s) = Some s'
      \<and> buf s' = overwrite (sev_pio_pos s) (take (unat siz * unat (sev_pio_count s)) given) (buf s)"
proof (induction "unat (sev_pio_count s)" arbitrary: s given rule: less_induct)
  case less
  show ?case
  proof (cases "unat (sev_pio_count s) = 0")
    case True
    have "siz \<noteq> 0" using assms(2) by auto
    with True have "kvm_sev_es_ins B siz port s = Some (1, advance_sev_es_emulated_pio 0 siz s)"
      by (subst kvm_sev_es_ins.simps)
        (simp add: page_count_def emulator_pio_in_out_def advance_sev_es_emulated_pio_def unat_eq_0)
    with True show ?thesis by (simp add: advance_sev_es_emulated_pio_def overwrite_def)
  next
    case False
    then have "0 < unat (sev_pio_count s)" by simp
    from ins_to_user [OF assms this] obtain count :: u32 and s' where
      o: "kvm_sev_es_ins B siz port s = Some (0, s')" "0 < unat count" "unat count \<le> unat (sev_pio_count s)"
      "length (pio_data s') = unat siz * unat count" "buf s' = buf s" "sev_pio_pos s' = sev_pio_pos s"
      "sev_pio_count s' = sev_pio_count s" "pio_count s' = count" "pio_size s' = siz" "pio_port s' = port"
      by blast
    define n where "n = unat siz * unat count"
    define left where "left = unat siz * unat (sev_pio_count s - count)"
    have u: "unat (sev_pio_count s - count) = unat (sev_pio_count s) - unat count"
      using o(3) by (simp add: unat_sub word_le_nat_alt)
    have sum: "n + left = unat siz * unat (sev_pio_count s)"
      using o(3) by (simp add: n_def left_def u flip: distrib_left)
    define t where "t = advance_sev_es_emulated_pio count siz
       (complete_emulator_pio_in (sev_pio_pos s) (s'\<lparr>pio_data := take n given\<rparr>))"
    have len: "length (take n given) = n" using less.prems(2) sum by simp
    have t: "buf t = overwrite (sev_pio_pos s) (take n given) (buf s)" "sev_pio_pos t = sev_pio_pos s + n"
      "sev_pio_count t = sev_pio_count s - count"
      by (simp_all add: t_def advance_sev_es_emulated_pio_def complete_emulator_pio_in_def o n_def mult.commute Let_def)
    have step: "in_session B given (kvm_sev_es_ins B siz port s) =
        in_session B (drop n given)
          (if sev_pio_count t \<noteq> 0 then kvm_sev_es_ins B siz port t else Some (1, t))"
      by (simp add: o(1) complete_sev_es_emulated_ins_def o(4,6,8-10) t_def n_def Let_def)
    have all: "take (n + left) given = take n given @ take left (drop n given)" by (simp add: take_add)
    show ?thesis
    proof (cases "sev_pio_count t = 0")
      case True
      then have "left = 0" using t(3) by (simp add: left_def)
      with True step t(1) sum show ?thesis by simp
    next
      case nz: False
      have lb: "length (buf t) = length (buf s)"
        unfolding t(1) using less.prems(1) len sum by (intro length_overwrite) simp
      have lt: "unat (sev_pio_count t) < unat (sev_pio_count s)" using o(2,3) by (simp add: t(3) u)
      have left: "unat siz * unat (sev_pio_count t) = left" by (simp add: t(3) left_def)
      have "sev_pio_pos t + left \<le> length (buf t)" "left \<le> length (drop n given)"
        using less.prems sum lb t(2) by simp_all
      from less.hyps [OF lt, unfolded left, OF this] obtain w where
        w: "in_session B (drop n given) (kvm_sev_es_ins B siz port t) = Some w"
        "buf w = overwrite (sev_pio_pos t) (take left (drop n given)) (buf t)"
        by blast
      have "buf w = overwrite (sev_pio_pos s) (take (n + left) given) (buf s)"
        unfolding w(2) t(1,2) all using overwrite_overwrite [of "sev_pio_pos s" "take n given" "take left (drop n given)" "buf s"]
          less.prems sum len by simp
      with step nz w(1) sum show ?thesis by simp
    qed
  qed
qed

text \<open>
  C32  A string request that user space serves is served whole.  With an element size of 1 to 4096, the
  bytes that user space gets of an output request are those of the buffer, in order, in pieces of at
  most a page, and after an input request the buffer holds what user space supplied; in both cases
  the request comes to its end.
\<close>
theorem string_request_served:
  assumes "no_port B (ucast port)" "0 < unat siz" "unat siz \<le> 4096" "length data = unat siz * unat count"
    and "length data \<le> length given"
  shows "(\<exists>bss. out_session B (kvm_sev_es_string_io B siz port data count False s) = Some bss
      \<and> concat bss = data \<and> list_all (\<lambda>bs. length bs \<le> 4096) bss)
    \<and> (\<exists>s'. in_session B given (kvm_sev_es_string_io B siz port data count True s) = Some s'
      \<and> buf s' = take (length data) given)"
  using out_session_delivers [OF assms(1-3), of "s\<lparr>buf := data, sev_pio_pos := 0, sev_pio_count := count\<rparr>"]
    in_session_fills [OF assms(1-3), of "s\<lparr>buf := data, sev_pio_pos := 0, sev_pio_count := count\<rparr>" given] assms(4,5)
  by (simp add: kvm_sev_es_string_io_def chunk_def overwrite_def)

text \<open>An element size of 0, which the guest can ask for, divides by zero in the host.\<close>

lemma string_io_size_0: "kvm_sev_es_string_io B 0 port data count inp s = None"
  by (subst kvm_sev_es_string_io_def, subst kvm_sev_es_ins.simps, subst kvm_sev_es_outs.simps)
    (simp add: page_count_def Let_def)

lemma string_io_returns_iff:
  "unat siz \<le> 4096 \<Longrightarrow> kvm_sev_es_string_io B siz port data count inp s = None \<longleftrightarrow> siz = 0"
  using outs_returns [of siz B "ucast port"] ins_returns [of siz B "ucast port"]
  by (cases "siz = 0", simp add: string_io_size_0, simp add: kvm_sev_es_string_io_def Let_def unat_gt_0)

section \<open>Memory requests\<close>

lemma mmio_session_simps [simp]:
  "mmio_session dev (Some (1, s)) = Some ([], s)"
  "mmio_session dev (Some (0, s)) =
     Option.bind (mmio_session dev (complete_sev_es_emulated_mmio (user_mmio dev s)))
       (\<lambda>(es, s'). Some ((run_addr (user_mmio dev s), run_len (user_mmio dev s), run_write (user_mmio dev s),
          take (unat (run_len (user_mmio dev s))) (run_data (user_mmio dev s))) # es, s'))"
  by (subst mmio_session.simps, simp add: Let_def)+

text \<open>A request on its way: the piece at \<open>pos\<close>, \<open>len\<close> bytes left, for the address \<open>gpa\<close>.\<close>

definition mmio_waiting :: "'x io \<Rightarrow> nat \<Rightarrow> u32 \<Rightarrow> u64 \<Rightarrow> bool" where
  "mmio_waiting s pos len gpa \<longleftrightarrow>
     mmio_needed s \<and> mmio_nr_fragments s = 1 \<and> mmio_cur_fragment s = 0 \<and> mmio_fragments s \<noteq> []
     \<and> mmio_fragments s ! 0 = \<lparr>frag_pos = pos, frag_len = len, frag_gpa = gpa\<rparr> \<and> run_addr s = gpa
     \<and> run_len s = min 8 len \<and> length (run_data s) = 8 \<and> pos + unat len \<le> length (buf s) \<and> \<not> mmio_is_write s"

definition dev_bytes :: "(u64 \<Rightarrow> byte) \<Rightarrow> u64 \<Rightarrow> nat \<Rightarrow> byte list" where
  "dev_bytes dev a n = map (\<lambda>i. dev (a + of_nat i)) [0..<n]"

lemma length_dev_bytes [simp]: "length (dev_bytes dev a n) = n" "dev_bytes dev a 0 = []"
  by (simp_all add: dev_bytes_def)

lemma dev_bytes_append: "dev_bytes dev a m @ dev_bytes dev (a + of_nat m) n = dev_bytes dev a (m + n)"
  by (rule nth_equalityI) (auto simp: dev_bytes_def nth_append)

lemma unat_min_8: "unat (min 8 (len :: u32)) = min 8 (unat len)"
  by (simp add: min_def word_le_nat_alt)

text \<open>The last piece, and one with more to come, with \<open>bs\<close> in \<open>run->mmio.data\<close>.\<close>

lemma complete_last:
  assumes "mmio_waiting s pos len gpa" "unat len \<le> 8"
  shows "\<exists>s'. complete_sev_es_emulated_mmio s = Some (1, s') \<and> buf s' = overwrite pos (take (unat len) (run_data s)) (buf s)"
proof -
  have "len \<le> 8" using assms(2) by (simp add: word_le_nat_alt)
  then have "min 8 len = len" by (simp add: min_def)
  with assms \<open>len \<le> 8\<close> show ?thesis
    by (simp add: complete_sev_es_emulated_mmio_def mmio_waiting_def Let_def)
qed

lemma complete_more:
  assumes "mmio_waiting s pos len gpa" "8 < unat len"
  shows "\<exists>s'. complete_sev_es_emulated_mmio s = Some (0, s') \<and> mmio_waiting s' (pos + 8) (len - 8) (gpa + 8)
    \<and> \<not> run_write s' \<and> buf s' = overwrite pos (run_data s) (buf s)"
proof -
  have l: "\<not> len \<le> 8" "8 \<le> len" using assms(2) by (simp_all add: word_le_nat_alt)
  then have m: "min 8 len = 8" by (simp add: min_def)
  have u: "unat (len - 8) = unat len - 8" using l(2) by (simp add: unat_sub)
  from assms l m u show ?thesis
    by (auto simp: complete_sev_es_emulated_mmio_def mmio_waiting_def length_overwrite Let_def)
qed

lemma user_mmio_read:
  assumes "mmio_waiting s pos len gpa" "\<not> run_write s"
  shows "mmio_waiting (user_mmio dev s) pos len gpa" "\<not> run_write (user_mmio dev s)" "buf (user_mmio dev s) = buf s"
    and "take (min 8 (unat len)) (run_data (user_mmio dev s)) = dev_bytes dev gpa (min 8 (unat len))"
proof -
  have "user_mmio dev s = s\<lparr>run_data := overwrite 0 (dev_bytes dev gpa (min 8 (unat len))) (run_data s)\<rparr>"
    using assms by (simp add: user_mmio_def mmio_waiting_def dev_bytes_def unat_min_8)
  with assms show "mmio_waiting (user_mmio dev s) pos len gpa" "\<not> run_write (user_mmio dev s)"
    "buf (user_mmio dev s) = buf s"
    "take (min 8 (unat len)) (run_data (user_mmio dev s)) = dev_bytes dev gpa (min 8 (unat len))"
    by (simp_all add: mmio_waiting_def length_overwrite) (simp add: overwrite_def)
qed

lemma mmio_reads:
  assumes "mmio_waiting s pos len gpa" "\<not> run_write s" "0 < unat len"
  shows "\<exists>es s'. mmio_session dev (Some (0, s)) = Some (es, s')
    \<and> buf s' = overwrite pos (dev_bytes dev gpa (unat len)) (buf s) \<and> length es = (unat len + 7) div 8
    \<and> list_all (\<lambda>(a, n, wr, bs). \<not> wr) es \<and> concat (map (\<lambda>(a, n, wr, bs). bs) es) = dev_bytes dev gpa (unat len)"
  using assms
proof (induction "unat len" arbitrary: s pos len gpa rule: less_induct)
  case less
  let ?u = "user_mmio dev s"
  note u = user_mmio_read [OF less.prems(1,2), of dev]
  have r: "run_len ?u = min 8 len" using u(1) by (simp add: mmio_waiting_def)
  show ?case
  proof (cases "unat len \<le> 8")
    case True
    with complete_last [OF u(1)] obtain w where
      w: "complete_sev_es_emulated_mmio ?u = Some (1, w)" "buf w = overwrite pos (take (unat len) (run_data ?u)) (buf ?u)"
      by blast
    have "(unat len + 7) div 8 = 1" using True less.prems(3) by simp
    moreover have "min 8 (unat len) = unat len" using True by simp
    ultimately show ?thesis using w u r by (simp add: unat_min_8)
  next
    case False
    then have "8 < unat len" by simp
    from complete_more [OF u(1) this] obtain w where
      w: "complete_sev_es_emulated_mmio ?u = Some (0, w)" "mmio_waiting w (pos + 8) (len - 8) (gpa + 8)"
      "\<not> run_write w" "buf w = overwrite pos (run_data ?u) (buf ?u)" by blast
    have l: "8 \<le> len" using False by (simp add: word_le_nat_alt)
    then have n: "unat (len - 8) = unat len - 8" by (simp add: unat_sub)
    have "length (run_data ?u) = 8" using u(1) by (simp add: mmio_waiting_def)
    with u(4) False have d: "run_data ?u = dev_bytes dev gpa 8" by simp
    from less.hyps [OF _ w(2,3)] n \<open>8 < unat len\<close> obtain es s' where
      s': "mmio_session dev (Some (0, w)) = Some (es, s')"
      "buf s' = overwrite (pos + 8) (dev_bytes dev (gpa + 8) (unat len - 8)) (buf w)"
      "length es = (unat len - 8 + 7) div 8" "list_all (\<lambda>(a, n, wr, bs). \<not> wr) es"
      "concat (map (\<lambda>(a, n, wr, bs). bs) es) = dev_bytes dev (gpa + 8) (unat len - 8)"
      by fastforce
    have all: "dev_bytes dev gpa 8 @ dev_bytes dev (gpa + 8) (unat len - 8) = dev_bytes dev gpa (unat len)"
      using dev_bytes_append [of dev gpa 8 "unat len - 8"] False by simp
    have "pos + unat len \<le> length (buf s)" using less.prems(1) by (simp add: mmio_waiting_def)
    then have "overwrite (pos + 8) (dev_bytes dev (gpa + 8) (unat len - 8)) (overwrite pos (dev_bytes dev gpa 8) (buf s)) =
        overwrite pos (dev_bytes dev gpa (unat len)) (buf s)"
      using overwrite_overwrite [of pos "dev_bytes dev gpa 8" "dev_bytes dev (gpa + 8) (unat len - 8)" "buf s"] False all
      by simp
    moreover have "Suc ((unat len - 8 + 7) div 8) = (unat len + 7) div 8" using False by simp
    moreover have "min 8 (unat len) = 8" using False by simp
    ultimately show ?thesis
      using w(1,4) s' u(2-4) d r all
      by (simp del: mmio_session_simps(2) add: mmio_session_simps(2) [of dev s] unat_min_8)
  qed
qed

text \<open>A vCPU as an SEV guest has it: its writes are not emulated, so nothing sets \<open>mmio_is_write\<close>.\<close>

definition mmio_ready :: "'x io \<Rightarrow> bool" where
  "mmio_ready s \<longleftrightarrow> mmio_fragments s \<noteq> [] \<and> length (run_data s) = 8 \<and> \<not> mmio_is_write s"

lemma start_mmio_waiting:
  assumes "mmio_ready s" "pos + unat bytes \<le> length (buf s)"
  shows "mmio_waiting (start_mmio wr gpa bytes pos s) pos bytes gpa"
    and "run_write (start_mmio wr gpa bytes pos s) = wr" "buf (start_mmio wr gpa bytes pos s) = buf s"
    and "wr \<Longrightarrow> take (min 8 (unat bytes)) (run_data (start_mmio wr gpa bytes pos s)) = chunk pos (min 8 (unat bytes)) (buf s)"
  using assms
  by (simp_all add: start_mmio_def mmio_waiting_def mmio_ready_def load_run_data_def unat_min_8 Let_def length_overwrite
      length_chunk) (simp add: overwrite_def length_chunk)

lemma ucast_unat: "ucast (x :: u32) = (of_nat (unat x) :: u64)"
  by simp

text \<open>
  A memory read of any length is served whole.  What the devices of the kernel do not supply, the
  bytes from the first missing address on, is read by user space in exits of eight bytes and ends up in
  the buffer in its place.
\<close>
theorem mmio_read_served:
  assumes "mmio_ready s" "vcpu_mmio_read B gpa bytes (bus s) = (got, b)" "length got < unat bytes"
    and "length data = unat bytes"
  shows "\<exists>es s'. mmio_session dev (Some (kvm_sev_es_mmio_read B gpa bytes (Some data) s)) = Some (es, s')
    \<and> buf s' = got @ dev_bytes dev (gpa + of_nat (length got)) (unat bytes - length got)
    \<and> length es = (unat bytes - length got + 7) div 8 \<and> list_all (\<lambda>(a, n, wr, bs). \<not> wr) es"
proof -
  let ?h = "of_nat (length got) :: u32" and ?t = "s\<lparr>buf := overwrite 0 got data, bus := b\<rparr>"
  have h: "unat ?h = length got"
    using assms(3) unsigned_less [of bytes, where ?'a = nat]
    by (simp add: unsigned_of_nat take_bit_nat_eq_self_iff)
  then have n: "?h \<noteq> bytes" "unat (bytes - ?h) = unat bytes - length got"
    using assms(3) by (auto simp: unat_sub word_le_nat_alt)
  have l: "length (buf ?t) = unat bytes" using assms(3,4) by (simp add: length_overwrite)
  have "mmio_ready ?t" using assms(1) by (simp add: mmio_ready_def)
  define u where "u = start_mmio False (gpa + ucast ?h) (bytes - ?h) (unat ?h) ?t"
  from start_mmio_waiting [OF \<open>mmio_ready ?t\<close>, of "unat ?h" "bytes - ?h" False "gpa + ucast ?h", folded u_def]
  have w: "mmio_waiting u (unat ?h) (bytes - ?h) (gpa + ucast ?h)" "\<not> run_write u" "buf u = overwrite 0 got data"
    using l h n assms(3) by simp_all
  have e: "kvm_sev_es_mmio_read B gpa bytes (Some data) s = (0, u)"
    using n(1) by (simp add: kvm_sev_es_mmio_read_def assms(2) u_def Let_def)
  have o: "overwrite (length got) (dev_bytes dev a (unat bytes - length got)) (overwrite 0 got data) =
      got @ dev_bytes dev a (unat bytes - length got)" for a
    using assms(3,4) by (simp add: overwrite_def)
  have "0 < unat (bytes - ?h)" using n(2) assms(3) by simp
  from mmio_reads [OF w(1,2) this, of dev] show ?thesis
    unfolding e w(3) ucast_unat h n(2) o by blast
qed

text \<open>
  C33  Of a memory write of more than eight bytes only the first eight reach user space.  The write goes
  out in one exit; the later pieces, because nothing notes that the request is a write, are read exits,
  and their bytes replace those of the guest in the buffer.
\<close>
theorem mmio_write_tail_read:
  assumes "mmio_ready s" "vcpu_mmio_write B gpa data (bus s) = (handled, b)" "handled < bytes"
    and "length data = unat bytes"
  shows "\<exists>es s'. mmio_session dev (Some (kvm_sev_es_mmio_write B gpa bytes (Some data) s)) =
      Some ((gpa + ucast handled, min 8 (bytes - handled), True, chunk (unat handled) 8 data) # es, s')
    \<and> list_all (\<lambda>(a, n, wr, bs). \<not> wr) es \<and> length es = (unat bytes - unat handled - 1) div 8
    \<and> buf s' = take (unat handled + 8) data @ dev_bytes dev (gpa + ucast handled + 8) (unat bytes - unat handled - 8)"
proof -
  define h len t where "h = unat handled" and "len = bytes - handled"
    and "t = start_mmio True (gpa + ucast handled) len h (s\<lparr>buf := data, bus := b\<rparr>)"
  have lt: "h < unat bytes" using assms(3) by (simp add: h_def word_less_nat_alt)
  have n: "unat len = unat bytes - h" "handled \<noteq> bytes"
    using assms(3) by (auto simp: len_def h_def unat_sub word_le_nat_alt word_less_nat_alt)
  have "mmio_ready (s\<lparr>buf := data, bus := b\<rparr>)" using assms(1) by (simp add: mmio_ready_def)
  from start_mmio_waiting [OF this, of h len True "gpa + ucast handled"]
  have w: "mmio_waiting t h len (gpa + ucast handled)" "run_write t" "buf t = data"
    "take (min 8 (unat len)) (run_data t) = chunk h (min 8 (unat len)) data"
    using n lt assms(4) by (simp_all add: t_def)
  have u: "user_mmio dev t = t" using w(2) by (simp add: user_mmio_def)
  have e: "kvm_sev_es_mmio_write B gpa bytes (Some data) s = (0, t)"
    using n(2) assms(4) by (simp add: kvm_sev_es_mmio_write_def assms(2) t_def len_def h_def Let_def)
  have c: "chunk h (min 8 (unat len)) data = chunk h 8 data"
    using n(1) lt assms(4) by (simp add: chunk_def min_def)
  have r: "run_addr t = gpa + ucast handled" "run_len t = min 8 len" using w(1) by (simp_all add: mmio_waiting_def)
  show ?thesis
  proof (cases "unat len \<le> 8")
    case True
    with complete_last [OF w(1)] obtain s' where
      s': "complete_sev_es_emulated_mmio t = Some (1, s')" "buf s' = overwrite h (take (unat len) (run_data t)) (buf t)" by blast
    have "take (unat len) (run_data t) = chunk h 8 data" using w(4) c True by (simp add: min_def)
    then have "buf s' = data" using s'(2) w(3) n(1) assms(4) True
      by (simp add: overwrite_def chunk_def)
    then show ?thesis
      using s'(1) True n(1) lt assms(4) w(2,4) c r
      by (simp add: e u unat_min_8 h_def [symmetric] len_def [symmetric])
  next
    case False
    then have "8 < unat len" by simp
    from complete_more [OF w(1) this] obtain v where
      v: "complete_sev_es_emulated_mmio t = Some (0, v)" "mmio_waiting v (h + 8) (len - 8) (gpa + ucast handled + 8)"
      "\<not> run_write v" "buf v = overwrite h (run_data t) (buf t)" by blast
    have "8 \<le> len" using False by (simp add: word_le_nat_alt)
    then have n8: "unat (len - 8) = unat bytes - h - 8" using n(1) by (simp add: unat_sub)
    have "length (run_data t) = 8" using w(1) by (simp add: mmio_waiting_def)
    then have rd: "run_data t = chunk h 8 data" using w(4) c False by simp
    have bv: "buf v = data"
      using v(4) rd w(3) n(1) assms(4) False lt
      by (simp add: overwrite_def chunk_def min_def) (metis add.commute append_take_drop_id take_drop drop_drop append.assoc take_add)
    from mmio_reads [OF v(2,3)] n8 n(1) False obtain es s' where
      s': "mmio_session dev (Some (0, v)) = Some (es, s')"
      "buf s' = overwrite (h + 8) (dev_bytes dev (gpa + ucast handled + 8) (unat bytes - h - 8)) data"
      "length es = (unat bytes - h - 8 + 7) div 8" "list_all (\<lambda>(a, n, wr, bs). \<not> wr) es"
      unfolding bv by fastforce
    have "unat bytes - h - 8 + 7 = unat bytes - h - 1" using n(1) False by simp
    moreover have "overwrite (h + 8) (dev_bytes dev a (unat bytes - h - 8)) data =
        take (h + 8) data @ dev_bytes dev a (unat bytes - h - 8)" for a
      using n(1) False assms(4) by (simp add: overwrite_def)
    moreover have "min 8 (unat len) = 8" using False by simp
    moreover have "length (chunk h 8 data) \<le> 8" by (simp add: chunk_def)
    ultimately show ?thesis
      using v(1) s' w(2) rd r
      by (simp del: mmio_session_simps(2) add: mmio_session_simps(2) [of dev t] e u unat_min_8 h_def [symmetric] len_def [symmetric])
  qed
qed

section \<open>Examples\<close>

text \<open>A kernel without devices, and a vCPU without a request.\<close>

definition no_buses :: "unit buses" where
  "no_buses =
     \<lparr>kvm_io_bus_read = \<lambda>_ _ x. (None, x), kvm_io_bus_write = \<lambda>_ _ x. (True, x), vcpu_mmio_read = \<lambda>_ _ x. ([], x),
      vcpu_mmio_write = \<lambda>_ _ x. (0, x)\<rparr>"

definition idle_io :: "unit io" where
  "idle_io =
     \<lparr>buf = [], sev_pio_pos = 0, sev_pio_count = 0, pio_in = False, pio_port = 0, pio_count = 0, pio_size = 0, pio_data = [],
      mmio_fragments = replicate 2 \<lparr>frag_pos = 0, frag_len = 0, frag_gpa = 0\<rparr>, mmio_nr_fragments = 0,
      mmio_cur_fragment = 0, mmio_needed = False, mmio_is_write = False, run_addr = 0, run_len = 0, run_write = False,
      run_data = replicate 8 0, io_exit = None, io_completion = None, bus = ()\<rparr>"

lemma idle_io_ready: "mmio_ready idle_io"
  by (simp add: mmio_ready_def idle_io_def)

lemma string_request_served_witness:
  "(\<exists>bss. out_session no_buses (kvm_sev_es_string_io no_buses 2 0x3F8 [1, 2, 3, 4] 2 False idle_io) = Some bss
     \<and> concat bss = [1, 2, 3, 4])
   \<and> (\<exists>s'. in_session no_buses [5, 6, 7, 8, 9] (kvm_sev_es_string_io no_buses 2 0x3F8 [1, 2, 3, 4] 2 True idle_io) = Some s'
     \<and> buf s' = [5, 6, 7, 8])"
proof -
  have "no_port no_buses (ucast (0x3F8 :: u32))" by (simp add: no_port_def no_buses_def)
  from string_request_served [OF this, of 2 "[1, 2, 3, 4]" 2 "[5, 6, 7, 8, 9]" idle_io] show ?thesis by auto
qed

lemma mmio_read_served_witness:
  "\<exists>es s'. mmio_session (\<lambda>a. ucast a) (Some (kvm_sev_es_mmio_read no_buses 0x20 3 (Some [0, 0, 0]) idle_io)) = Some (es, s')
     \<and> buf s' = [0x20, 0x21, 0x22] \<and> length es = 1"
proof -
  have r: "vcpu_mmio_read no_buses 0x20 3 (bus idle_io) = ([], ())" by (simp add: no_buses_def)
  have "[0..<3] = [0, 1, 2 :: nat]" by (simp add: upt_conv_Cons)
  then have d: "dev_bytes (\<lambda>a. ucast a) 0x20 3 = [0x20, 0x21, 0x22]" by (simp add: dev_bytes_def)
  have "length ([0, 0, 0] :: byte list) = unat (3 :: u32)" "length ([] :: byte list) < unat (3 :: u32)" by simp_all
  from mmio_read_served [OF idle_io_ready r this(2,1), of "\<lambda>a. ucast a"] show ?thesis
    by (simp add: d) blast
qed

lemma mmio_write_tail_read_witness:
  "\<exists>es s'. mmio_session (\<lambda>_. 0xFF) (Some (kvm_sev_es_mmio_write no_buses 0x20 12 (Some (replicate 12 7)) idle_io)) = Some (es, s')
     \<and> length es = 2 \<and> buf s' = replicate 8 7 @ replicate 4 0xFF"
proof -
  obtain b where b: "vcpu_mmio_write no_buses 0x20 (replicate 12 7) (bus idle_io) = (0, b)"
    by (simp add: no_buses_def)
  have d: "dev_bytes (\<lambda>_. 0xFF) a 4 = replicate 4 0xFF" for a by (simp add: dev_bytes_def map_replicate_const)
  obtain es s' where "mmio_session (\<lambda>_. 0xFF) (Some (kvm_sev_es_mmio_write no_buses 0x20 12 (Some (replicate 12 7)) idle_io)) =
      Some ((0x20, 8, True, chunk 0 8 (replicate 12 7)) # es, s')" "length es = 1"
    "buf s' = take 8 (replicate 12 7) @ replicate 4 0xFF"
    using mmio_write_tail_read [OF idle_io_ready b, of 12 "\<lambda>_. 0xFF"] by (auto simp: d min_def)
  then show ?thesis by auto
qed

end
