(* ===== verification/Sev_Ghcb.thy ===== *)
theory Sev_Ghcb
  imports Sev_Doorbell Sev_Io
begin

text \<open>
  The requests of a guest to the host, \<open>host/kvm/svm/sev.c\<close>: the page it shares with the host (GHCB),
  whose registers and exit information are copied in and checked, the scratch area of a request, the
  requests by the GHCB register alone, and the handler of all of them.  Which number stands for which
  event comes from headers outside this repository, so the decoding is a parameter.
\<close>

section \<open>State\<close>

datatype ghcb_field =
  CPL | RAX | RBX | RCX | RDX | RSI | XCR0 | SW_EXIT_CODE | SW_EXIT_INFO_1 | SW_EXIT_INFO_2 | SW_SCRATCH

record ghcb =
  ghcb_usage :: u32
  save :: "ghcb_field \<Rightarrow> u64"
  ghcb_valid :: "ghcb_field set"
  ghcb_page :: "byte list"

text \<open>\<open>ghcb_page\<close> are the bytes of the page, for its shared buffer.  The buffer of a request is the GHCB, at an offset, or a copy of guest memory.\<close>

datatype scratch = In_Ghcb u64 | Kernel_Buffer "byte list"

text \<open>What a request leaves for user space (\<open>vcpu->run\<close>), and what is to be done when it is back.\<close>

datatype user_exit =
    Exit_Psc_Msr u64 byte
  | Exit_Psc u64
  | Exit_Ext_Guest_Req u64 u64
  | Exit_Sev_Term u64
  | Exit_Ap_Reset_Hold
  | Exit_Other nat

datatype completion = Complete_Psc_Msr | Complete_Psc | Complete_Ext_Guest_Req | Complete_Io

text \<open>
  A vCPU of a guest.  Its levels are those of vCPU \<open>me\<close> of \<open>machine\<close>; \<open>bell\<close> is its doorbell.  \<open>fw\<close> is
  the firmware and the state of pages it keeps.
\<close>

record 'x svm =
  me :: u32
  machine :: vm
  bell :: doorbell
  regs :: "ghcb_field \<Rightarrow> u64"
  xcr0 :: u64
  cpl :: byte
  exit_code :: u32
  exit_code_hi :: u32
  exit_info_1 :: u64
  exit_info_2 :: u64
  valid_bitmap :: "ghcb_field set"
  sw_scratch :: u64
  ghcb_map_gfn :: u64
  ghcb_sa :: "scratch option"
  ghcb_sa_len :: u32
  ghcb_registered_gpa :: "nat \<Rightarrow> u64"
  ghcb_pages :: "u64 \<Rightarrow> ghcb option"
  guest_mem :: "u64 \<Rightarrow> byte option"
  ap_jump_table :: u64
  nmi_masked :: bool
  received_first_sipi :: bool
  snp_guest :: bool
  snp_transaction_id :: u64
  user_exit :: "user_exit option"
  complete_userspace_io :: "completion option"
  io :: "'x io"
  fw :: 'x

definition level :: "'x svm \<Rightarrow> vcpu" where
  "level s = the (vcpus (machine s) (me s))"

definition set_level :: "vcpu \<Rightarrow> 'x svm \<Rightarrow> 'x svm" where
  "set_level v s = s\<lparr>machine := put_vcpu (me s) v (machine s)\<rparr>"

definition on_level :: "(vcpu \<Rightarrow> vcpu) \<Rightarrow> 'x svm \<Rightarrow> 'x svm" where
  "on_level f s = set_level (f (level s)) s"

text \<open>\<open>svm->sev_es.ghcb\<close> points into the page that is mapped.\<close>

definition the_ghcb :: "'x svm \<Rightarrow> ghcb" where
  "the_ghcb s = the (ghcb_pages s (ghcb_map_gfn s))"

definition ghcb_set :: "ghcb_field \<Rightarrow> u64 \<Rightarrow> 'x svm \<Rightarrow> 'x svm" where
  "ghcb_set f x s =
     (let g = the_ghcb s
      in s\<lparr>ghcb_pages := (ghcb_pages s)(ghcb_map_gfn s \<mapsto> g\<lparr>save := (save g)(f := x), ghcb_valid := insert f (ghcb_valid g)\<rparr>)\<rparr>)"

text \<open>The answer of most requests.\<close>

definition ghcb_answer :: "u64 \<Rightarrow> u64 \<Rightarrow> 'x svm \<Rightarrow> 'x svm" where
  "ghcb_answer info1 info2 s = ghcb_set SW_EXIT_INFO_2 info2 (ghcb_set SW_EXIT_INFO_1 info1 s)"

section \<open>The rest of KVM\<close>

datatype vmgexit =
    EXIT_READ_DR7 | EXIT_WRITE_DR7 | EXIT_RDTSC | EXIT_RDPMC | EXIT_CPUID | EXIT_INVD | EXIT_IOIO | EXIT_MSR
  | EXIT_VMMCALL | EXIT_RDTSCP | EXIT_WBINVD | EXIT_MONITOR | EXIT_MWAIT | MMIO_READ | MMIO_WRITE | NMI_COMPLETE
  | AP_HLT_LOOP | AP_JUMP_TABLE | UNSUPPORTED_EVENT | HV_FEATURES | PSC | TERM_REQUEST | GUEST_REQUEST
  | EXT_GUEST_REQUEST | AP_CREATION | GET_APIC_IDS | RUN_VMPL | HV_DOORBELL_PAGE | UNKNOWN_EXIT

datatype msr_request =
    SEV_INFO_REQ | CPUID_REQ | AP_RESET_HOLD_REQ | HV_FT_REQ | PREF_GPA_REQ | REG_GPA_REQ | PSC_REQ | VMPL_REQ | TERM_REQ
  | UNKNOWN_REQ

type_synonym msr_bits = "u64 \<times> nat"

text \<open>Constants and macros of headers, and the functions of KVM and the kernel that sev.c calls.\<close>

record 'x kvm =
  snp :: snp_env
  door :: doorbell_env
  event_of :: "u64 \<Rightarrow> vmgexit"
  msr_request_of :: "u64 \<Rightarrow> msr_request"
  ERR_INVALID_USAGE :: u64
  ERR_MISSING_INPUT :: u64
  ERR_INVALID_EVENT :: u64
  ERR_INVALID_SCRATCH_AREA :: u64
  ERR_INVALID_INPUT :: u64
  IOIO_STR_MASK :: u64
  IOIO_TYPE_MASK :: u64
  IOIO_SIZE_MASK :: u32
  IOIO_SIZE_SHIFT :: nat
  SHARED_BUFFER :: u64
  RESERVED_0xff0 :: u64
  SEV_INFO :: u64
  HV_FT_SUPPORTED :: u64
  CPUID_FUNC :: msr_bits
  CPUID_REG :: msr_bits
  CPUID_VALUE :: msr_bits
  AP_RESET_HOLD_RESULT :: msr_bits
  HV_FT :: msr_bits
  GPA_VALUE :: msr_bits
  INFO :: msr_bits
  CPUID_RESP :: u64
  AP_RESET_HOLD_RESP :: u64
  HV_FT_RESP :: u64
  PREF_GPA_NONE :: u64
  PREF_GPA_RESP :: u64
  REG_GPA_RESP :: u64
  PSC_RESP :: u64
  PSC_RESP_ERROR :: u64
  PSC_REQ_TO_GFN :: "u64 \<Rightarrow> u64"
  PSC_REQ_TO_OP :: "u64 \<Rightarrow> byte"
  PAGE_STATE_PRIVATE :: byte
  PAGE_STATE_SHARED :: byte
  DOORBELL_GP :: u64
  VMM_ERR_GENERIC :: u32
  VMM_ERR_INVALID_LEN :: u32
  VMM_ERR_BUSY :: u32
  GUEST_ERR :: "u32 \<Rightarrow> u32 \<Rightarrow> u64"
  kvzalloc_ok :: "'x svm \<Rightarrow> u64 \<Rightarrow> bool"
  invoke_exit_handler :: "vmgexit \<Rightarrow> 'x svm \<Rightarrow> int \<times> 'x svm"
  buses :: "'x buses"
  skip_emulated_instruction :: "'x svm \<Rightarrow> bool \<times> 'x svm"
  gfn_to_pfn :: "u64 \<Rightarrow> u64 option"
  rmp_make_private :: "u64 \<Rightarrow> 'x \<Rightarrow> bool \<times> 'x"
  snp_page_reclaim :: "u64 \<Rightarrow> 'x \<Rightarrow> bool \<times> 'x"
  rmp_make_shared :: "u64 \<Rightarrow> 'x \<Rightarrow> bool \<times> 'x"
  guest_request_cmd :: "u64 \<Rightarrow> u64 \<Rightarrow> 'x \<Rightarrow> (bool \<times> u32) \<times> 'x"
  transaction_get_id :: "'x \<Rightarrow> u64"
  transaction_is_stale :: "u64 \<Rightarrow> 'x \<Rightarrow> bool"
  vcpu_ids :: "u32 list"

section \<open>The GHCB\<close>

text \<open>\<open>kvm_ghcb_get_..._if_valid\<close>: by the copied bitmap.\<close>

definition get_if_valid :: "ghcb_field \<Rightarrow> 'x svm \<Rightarrow> u64" where
  "get_if_valid f s = (if f \<in> valid_bitmap s then save (the_ghcb s) f else 0)"

definition sev_es_sync_to_ghcb :: "'x svm \<Rightarrow> 'x svm" where
  "sev_es_sync_to_ghcb s =
     (let s = ghcb_set RAX (regs s RAX) s; s = ghcb_set RBX (regs s RBX) s; s = ghcb_set RCX (regs s RCX) s
      in ghcb_set RDX (regs s RDX) s)"

definition sev_es_sync_from_ghcb :: "'x svm \<Rightarrow> 'x svm" where
  "sev_es_sync_from_ghcb s =
     (let s = s\<lparr>regs := (\<lambda>_. 0), valid_bitmap := ghcb_valid (the_ghcb s)\<rparr>;
          s = s\<lparr>regs := (regs s)(RAX := get_if_valid RAX s, RBX := get_if_valid RBX s, RCX := get_if_valid RCX s,
                  RDX := get_if_valid RDX s, RSI := get_if_valid RSI s), cpl := ucast (get_if_valid CPL s)\<rparr>;
          s = (if XCR0 \<in> valid_bitmap s then s\<lparr>xcr0 := save (the_ghcb s) XCR0\<rparr> else s);
          code = save (the_ghcb s) SW_EXIT_CODE;
          s = s\<lparr>exit_code := ucast code, exit_code_hi := ucast (drop_bit 32 code),
                exit_info_1 := save (the_ghcb s) SW_EXIT_INFO_1, exit_info_2 := save (the_ghcb s) SW_EXIT_INFO_2,
                sw_scratch := get_if_valid SW_SCRATCH s\<rparr>
      in s\<lparr>ghcb_pages := (ghcb_pages s)(ghcb_map_gfn s \<mapsto> (the_ghcb s)\<lparr>ghcb_valid := {}\<rparr>)\<rparr>)"

definition kvm_ghcb_get_sw_exit_code :: "'x svm \<Rightarrow> u64" where
  "kvm_ghcb_get_sw_exit_code s = push_bit 32 (ucast (exit_code_hi s)) OR ucast (exit_code s)"

text \<open>Guest memory is written up to the first address that is not there, and read whole or not at all.\<close>

fun write_guest_bytes :: "u64 \<Rightarrow> byte list \<Rightarrow> (u64 \<Rightarrow> byte option) \<Rightarrow> bool \<times> (u64 \<Rightarrow> byte option)" where
  "write_guest_bytes a [] m = (True, m)"
| "write_guest_bytes a (b # bs) m =
     (if m a = None then (False, m) else write_guest_bytes (a + 1) bs (m(a \<mapsto> b)))"

definition kvm_write_guest :: "u64 \<Rightarrow> byte list \<Rightarrow> 'x svm \<Rightarrow> bool \<times> 'x svm" where
  "kvm_write_guest a bs s = (let (ok, m) = write_guest_bytes a bs (guest_mem s) in (ok, s\<lparr>guest_mem := m\<rparr>))"

definition kvm_read_guest :: "u64 \<Rightarrow> nat \<Rightarrow> 'x svm \<Rightarrow> byte list option" where
  "kvm_read_guest a n s =
     (let bs = map (\<lambda>i. guest_mem s (a + of_nat i)) [0..<n]
      in if list_all (\<lambda>b. b \<noteq> None) bs then Some (map the bs) else None)"

text \<open>\<open>sev_es_unmap_ghcb\<close> with the memory it writes: the buffer, then the registers.\<close>

definition ghcb_write_back :: "'x svm \<Rightarrow> 'x svm" where
  "ghcb_write_back s =
     (let s = (if ghcb_sa_free (level s)
               then (let s = (case ghcb_sa s of
                                Some (Kernel_Buffer bs) \<Rightarrow>
                                  if ghcb_sa_sync (level s) then snd (kvm_write_guest (sw_scratch s) (take (unat (ghcb_sa_len s)) bs) s) else s
                              | _ \<Rightarrow> s)
                     in s\<lparr>ghcb_sa := None\<rparr>)
               else s)
      in sev_es_sync_to_ghcb s)"

definition unmap_ghcb :: "'x svm \<Rightarrow> 'x svm" where
  "unmap_ghcb s = on_level sev_es_unmap_ghcb (if ghcb_mapped (level s) then ghcb_write_back s else s)"

text \<open>An operation on the levels that unmaps the GHCB on its way.\<close>

definition with_levels :: "vcpu \<Rightarrow> pins \<Rightarrow> 'x svm \<Rightarrow> 'x svm" where
  "with_levels v p s =
     (let s = (if ghcb_mapped (level s) \<and> \<not> ghcb_mapped v then ghcb_write_back s else s); s = set_level v s
      in s\<lparr>machine := (machine s)\<lparr>vm_pins := p\<rparr>\<rparr>)"

section \<open>Checking a request\<close>

definition sev_es_validate_vmgexit :: "'x kvm \<Rightarrow> 'x svm \<Rightarrow> int \<times> 'x svm" where
  "sev_es_validate_vmgexit K s =
     (let code = kvm_ghcb_get_sw_exit_code s;
          valid = (\<lambda>f. f \<in> valid_bitmap s);
          vmgexit_err = (\<lambda>reason. (1, ghcb_answer 2 reason s));
          need = (\<lambda>b. if b then (0, s) else vmgexit_err (ERR_MISSING_INPUT K))
      in if ghcb_usage (the_ghcb s) \<noteq> 0 then vmgexit_err (ERR_INVALID_USAGE K)
         else if \<not> valid SW_EXIT_CODE \<or> \<not> valid SW_EXIT_INFO_1 \<or> \<not> valid SW_EXIT_INFO_2
         then vmgexit_err (ERR_MISSING_INPUT K)
         else (case event_of K code of
                 EXIT_READ_DR7 \<Rightarrow> (0, s)
               | EXIT_WRITE_DR7 \<Rightarrow> need (valid RAX)
               | EXIT_RDTSC \<Rightarrow> (0, s)
               | EXIT_RDPMC \<Rightarrow> need (valid RCX)
               | EXIT_CPUID \<Rightarrow> need (valid RAX \<and> valid RCX \<and> (regs s RAX = 0xd \<longrightarrow> valid XCR0))
               | EXIT_INVD \<Rightarrow> (0, s)
               | EXIT_IOIO \<Rightarrow>
                   need (if exit_info_1 s AND IOIO_STR_MASK K \<noteq> 0 then valid SW_SCRATCH
                         else exit_info_1 s AND IOIO_TYPE_MASK K = 0 \<longrightarrow> valid RAX)
               | EXIT_MSR \<Rightarrow> need (valid RCX \<and> (exit_info_1 s \<noteq> 0 \<longrightarrow> valid RAX \<and> valid RDX))
               | EXIT_VMMCALL \<Rightarrow> need (valid RAX \<and> valid CPL)
               | EXIT_RDTSCP \<Rightarrow> (0, s)
               | EXIT_WBINVD \<Rightarrow> (0, s)
               | EXIT_MONITOR \<Rightarrow> need (valid RAX \<and> valid RCX \<and> valid RDX)
               | EXIT_MWAIT \<Rightarrow> need (valid RAX \<and> valid RCX)
               | MMIO_READ \<Rightarrow> need (valid SW_SCRATCH)
               | MMIO_WRITE \<Rightarrow> need (valid SW_SCRATCH)
               | AP_CREATION \<Rightarrow>
                   (let request = (ucast (exit_info_1 s) :: u32); request = request AND NOT (AP_VMPL_MASK (snp K))
                    in need (request \<noteq> AP_DESTROY (snp K) \<longrightarrow> valid RAX))
               | GET_APIC_IDS \<Rightarrow> need (valid RAX)
               | NMI_COMPLETE \<Rightarrow> (0, s)
               | AP_HLT_LOOP \<Rightarrow> (0, s)
               | AP_JUMP_TABLE \<Rightarrow> (0, s)
               | UNSUPPORTED_EVENT \<Rightarrow> (0, s)
               | HV_FEATURES \<Rightarrow> (0, s)
               | PSC \<Rightarrow> (0, s)
               | TERM_REQUEST \<Rightarrow> (0, s)
               | GUEST_REQUEST \<Rightarrow> (0, s)
               | EXT_GUEST_REQUEST \<Rightarrow> (0, s)
               | RUN_VMPL \<Rightarrow> (0, s)
               | HV_DOORBELL_PAGE \<Rightarrow> (0, s)
               | UNKNOWN_EXIT \<Rightarrow> vmgexit_err (ERR_INVALID_EVENT K)))"

section \<open>The scratch area\<close>

definition GHCB_SCRATCH_AREA_LIMIT :: u64 where "GHCB_SCRATCH_AREA_LIMIT = 16 * 4096"

definition setup_vmgexit_scratch :: "'x kvm \<Rightarrow> bool \<Rightarrow> u64 \<Rightarrow> 'x svm \<Rightarrow> int \<times> 'x svm" where
  "setup_vmgexit_scratch K sync len s =
     (let scratch_gpa_beg = sw_scratch s;
          scratch_gpa_end = scratch_gpa_beg + len;
          e_scratch = (1, ghcb_answer 2 (ERR_INVALID_SCRATCH_AREA K) s);
          gpa = control_ghcb_gpa (level s);
          done_with = (\<lambda>va s. (0, s\<lparr>ghcb_sa := Some va, ghcb_sa_len := ucast len\<rparr>))
      in if scratch_gpa_beg = 0 then e_scratch
         else if scratch_gpa_end < scratch_gpa_beg then e_scratch
         else if scratch_gpa_beg AND NOT 0xFFF = gpa
         then (let ghcb_scratch_beg = gpa + SHARED_BUFFER K; ghcb_scratch_end = gpa + RESERVED_0xff0 K
               in if scratch_gpa_beg < ghcb_scratch_beg \<or> ghcb_scratch_end < scratch_gpa_end then e_scratch
                  else done_with (In_Ghcb (scratch_gpa_beg - gpa)) s)
         else if GHCB_SCRATCH_AREA_LIMIT < len then e_scratch
         else if \<not> kvzalloc_ok K s len then (- ENOMEM, s)
         else (case kvm_read_guest scratch_gpa_beg (unat len) s of
                 None \<Rightarrow> (- EFAULT, s)
               | Some bs \<Rightarrow>
                   done_with (Kernel_Buffer bs) (on_level (\<lambda>v. v\<lparr>ghcb_sa_sync := sync, ghcb_sa_free := True\<rparr>) s)))"

text \<open>The bytes of the scratch area, and what a request leaves in them.\<close>

definition sa_bytes :: "'x svm \<Rightarrow> byte list" where
  "sa_bytes s =
     (case ghcb_sa s of
        None \<Rightarrow> []
      | Some (Kernel_Buffer bs) \<Rightarrow> bs
      | Some (In_Ghcb off) \<Rightarrow> chunk (unat off) (unat (ghcb_sa_len s)) (ghcb_page (the_ghcb s)))"

definition sa_store :: "byte list \<Rightarrow> 'x svm \<Rightarrow> 'x svm" where
  "sa_store bs s =
     (case ghcb_sa s of
        None \<Rightarrow> s
      | Some (Kernel_Buffer _) \<Rightarrow> s\<lparr>ghcb_sa := Some (Kernel_Buffer bs)\<rparr>
      | Some (In_Ghcb off) \<Rightarrow>
          (let g = the_ghcb s
           in s\<lparr>ghcb_pages := (ghcb_pages s)(ghcb_map_gfn s \<mapsto> g\<lparr>ghcb_page := overwrite (unat off) bs (ghcb_page g)\<rparr>)\<rparr>))"

text \<open>A step of a port or memory request on the scratch area.\<close>

definition io_step :: "int \<times> 'x io \<Rightarrow> 'x svm \<Rightarrow> int \<times> 'x svm" where
  "io_step r s =
     (case r of (ret, i) \<Rightarrow>
        (ret, sa_store (buf i) (s\<lparr>io := i, complete_userspace_io := (if ret = 0 then Some Complete_Io else complete_userspace_io s)\<rparr>)))"

section \<open>Ports\<close>

text \<open>\<open>io_interception\<close> and \<open>sev_es_string_io\<close>: \<open>int count = exit_info_2\<close>, \<open>bytes = count * size\<close>.\<close>

definition INT_MAX :: int where "INT_MAX = 2147483647"

definition sev_es_string_io :: "'x kvm \<Rightarrow> u32 \<Rightarrow> u32 \<Rightarrow> bool \<Rightarrow> 'x svm \<Rightarrow> (int \<times> 'x svm) option" where
  "sev_es_string_io K siz port inp s =
     (if INT_MAX < uint (exit_info_2 s) then Some (- EINVAL, s)
      else (let count = uint (exit_info_2 s); bytes = count * uint siz
            in if INT_MAX < bytes then Some (- EINVAL, s)
               else (let (r, s) = setup_vmgexit_scratch K inp (word_of_int bytes) s
                     in if r \<noteq> 0 then Some (r, s)
                        else map_option (\<lambda>r. io_step r s)
                               (kvm_sev_es_string_io (buses K) siz port (sa_bytes s) (word_of_int count) inp (io s)))))"

definition io_interception :: "'x kvm \<Rightarrow> 'x svm \<Rightarrow> (int \<times> 'x svm) option" where
  "io_interception K s =
     (let io_info = (ucast (exit_info_1 s) :: u32);
          str = (io_info AND ucast (IOIO_STR_MASK K) \<noteq> 0);
          inp = (io_info AND ucast (IOIO_TYPE_MASK K) \<noteq> 0);
          port = drop_bit 16 io_info;
          siz = drop_bit (IOIO_SIZE_SHIFT K) (io_info AND IOIO_SIZE_MASK K)
      in if str then sev_es_string_io K siz port inp s else Some (invoke_exit_handler K EXIT_IOIO s))"

text \<open>User space is back from a port or memory request.\<close>

definition complete_io :: "'x kvm \<Rightarrow> 'x svm \<Rightarrow> (int \<times> 'x svm) option" where
  "complete_io K s =
     (let i = (io s)\<lparr>buf := sa_bytes s\<rparr>
      in map_option (\<lambda>r. io_step r s)
           (case io_completion i of
              Some Complete_Outs \<Rightarrow> complete_sev_es_emulated_outs (buses K) i
            | Some Complete_Ins \<Rightarrow> complete_sev_es_emulated_ins (buses K) i
            | Some Complete_Mmio \<Rightarrow> complete_sev_es_emulated_mmio i
            | None \<Rightarrow> None))"

section \<open>Page states\<close>

definition set_ghcb_msr :: "u64 \<Rightarrow> 'x svm \<Rightarrow> 'x svm" where
  "set_ghcb_msr x s = on_level (\<lambda>v. v\<lparr>control_ghcb_gpa := x\<rparr>) s"

definition snp_complete_psc_msr :: "'x kvm \<Rightarrow> u64 \<Rightarrow> 'x svm \<Rightarrow> int \<times> 'x svm" where
  "snp_complete_psc_msr K vmm_ret s = (1, set_ghcb_msr (push_bit 32 vmm_ret OR PSC_RESP K) s)"

definition snp_begin_psc_msr :: "'x kvm \<Rightarrow> u64 \<Rightarrow> 'x svm \<Rightarrow> int \<times> 'x svm" where
  "snp_begin_psc_msr K ghcb_msr s =
     (let gpa = push_bit 12 (PSC_REQ_TO_GFN K ghcb_msr); opn = PSC_REQ_TO_OP K ghcb_msr
      in if opn \<noteq> PAGE_STATE_PRIVATE K \<and> opn \<noteq> PAGE_STATE_SHARED K then (1, set_ghcb_msr (PSC_RESP_ERROR K) s)
         else (0, s\<lparr>user_exit := Some (Exit_Psc_Msr gpa opn), complete_userspace_io := Some Complete_Psc_Msr\<rparr>))"

definition snp_complete_psc :: "u64 \<Rightarrow> 'x svm \<Rightarrow> int \<times> 'x svm" where
  "snp_complete_psc ret s = (1, ghcb_set SW_EXIT_INFO_2 ret s)"

section \<open>Requests to the firmware\<close>

text \<open>The pages of a request: \<open>data\<close> has their frames.\<close>

definition snp_setup_guest_buf :: "'x kvm \<Rightarrow> u64 \<Rightarrow> u64 \<Rightarrow> 'x \<Rightarrow> (u64 \<times> u64) option \<times> 'x" where
  "snp_setup_guest_buf K req_gpa resp_gpa x =
     (if take_bit 12 req_gpa \<noteq> 0 \<or> take_bit 12 resp_gpa \<noteq> 0 then (None, x)
      else (case gfn_to_pfn K (drop_bit 12 req_gpa) of
              None \<Rightarrow> (None, x)
            | Some req_pfn \<Rightarrow>
                (case gfn_to_pfn K (drop_bit 12 resp_gpa) of
                   None \<Rightarrow> (None, x)
                 | Some resp_pfn \<Rightarrow>
                     (let (err, x) = rmp_make_private K resp_pfn x
                      in if err then (None, x) else (Some (req_pfn, resp_pfn), x)))))"

definition snp_cleanup_guest_buf :: "'x kvm \<Rightarrow> u64 \<Rightarrow> 'x \<Rightarrow> bool \<times> 'x" where
  "snp_cleanup_guest_buf K pfn x =
     (let (err, x) = snp_page_reclaim K pfn x
      in if err then (False, x)
         else (let (err, x) = rmp_make_shared K pfn x in if err then (False, x) else (True, x)))"

definition do_handle_guest_req :: "'x kvm \<Rightarrow> u64 \<Rightarrow> u64 \<Rightarrow> 'x svm \<Rightarrow> bool \<times> u32 \<times> 'x svm" where
  "do_handle_guest_req K req_gpa resp_gpa s =
     (if \<not> snp_guest s then (False, 0, s)
      else (let (buf, x) = snp_setup_guest_buf K req_gpa resp_gpa (fw s)
            in case buf of
                 None \<Rightarrow> (False, 0, s\<lparr>fw := x\<rparr>)
               | Some (req_pfn, resp_pfn) \<Rightarrow>
                   (let ((err, fw_err), x) = guest_request_cmd K req_pfn resp_pfn x;
                        ret = (if err then False else True);
                        (clean, x) = snp_cleanup_guest_buf K resp_pfn x
                    in (if clean then ret else False, fw_err, s\<lparr>fw := x\<rparr>))))"

definition snp_handle_guest_req :: "'x kvm \<Rightarrow> u64 \<Rightarrow> u64 \<Rightarrow> 'x svm \<Rightarrow> 'x svm" where
  "snp_handle_guest_req K req_gpa resp_gpa s =
     (let (ok, fw_err, s) = do_handle_guest_req K req_gpa resp_gpa s
      in ghcb_set SW_EXIT_INFO_2 (GUEST_ERR K (if ok then 0 else VMM_ERR_GENERIC K) fw_err) s)"

text \<open>\<open>fw_err\<close> is not initialised here: \<open>junk\<close> is what it holds.\<close>

definition snp_begin_ext_guest_req :: "'x kvm \<Rightarrow> u32 \<Rightarrow> 'x svm \<Rightarrow> int \<times> 'x svm" where
  "snp_begin_ext_guest_req K junk s =
     (let abort_request = (\<lambda>vmm_ret s. (1, ghcb_set SW_EXIT_INFO_2 (GUEST_ERR K vmm_ret junk) s))
      in if \<not> snp_guest s then abort_request (VMM_ERR_GENERIC K) s
         else (let data_gpa = regs s RAX; data_npages = regs s RBX
               in if take_bit 12 data_gpa \<noteq> 0 then abort_request (VMM_ERR_GENERIC K) s
                  else (let s = s\<lparr>snp_transaction_id := transaction_get_id K (fw s)\<rparr>
                        in if transaction_is_stale K (snp_transaction_id s) (fw s) then abort_request (VMM_ERR_BUSY K) s
                           else (0, s\<lparr>user_exit := Some (Exit_Ext_Guest_Req data_gpa data_npages),
                                     complete_userspace_io := Some Complete_Ext_Guest_Req\<rparr>))))"

text \<open>User space is back, with its result and how many pages of certificates there are.\<close>

definition snp_complete_ext_guest_req :: "'x kvm \<Rightarrow> u32 \<Rightarrow> u64 \<Rightarrow> 'x svm \<Rightarrow> int \<times> 'x svm" where
  "snp_complete_ext_guest_req K vmm_ret data_npages s =
     (if vmm_ret \<noteq> 0
      then (let s = (if vmm_ret = VMM_ERR_INVALID_LEN K then s\<lparr>regs := (regs s)(RBX := data_npages)\<rparr> else s)
            in (1, ghcb_set SW_EXIT_INFO_2 (GUEST_ERR K vmm_ret 0) s))
      else (let (ok, fw_err, s) = do_handle_guest_req K (exit_info_1 s) (exit_info_2 s) s;
                vmm_ret = (if ok then 0 else VMM_ERR_GENERIC K);
                vmm_ret = (if transaction_is_stale K (snp_transaction_id s) (fw s) then VMM_ERR_BUSY K else vmm_ret)
            in (1, ghcb_set SW_EXIT_INFO_2 (GUEST_ERR K vmm_ret fw_err) s)))"

section \<open>The list of vCPUs\<close>

text \<open>A 32-bit number in memory, and the structure: their number, then the ids.\<close>

definition le32_bytes :: "u32 \<Rightarrow> byte list" where
  "le32_bytes x = map (\<lambda>i. ucast (drop_bit (8 * i) x)) [0..<4]"

definition apic_id_desc :: "u32 list \<Rightarrow> byte list" where
  "apic_id_desc ids = le32_bytes (of_nat (length ids)) @ concat (map le32_bytes ids)"

definition sev_get_apic_ids :: "'x kvm \<Rightarrow> 'x svm \<Rightarrow> 'x svm" where
  "sev_get_apic_ids K s =
     (let ids = vcpu_ids K;
          pages = regs s RAX;
          id_desc_size = (4 + of_nat (length ids) * 4 :: u32)
      in if pages * 4096 < ucast id_desc_size
         then s\<lparr>regs := (regs s)(RAX := drop_bit 12 (ucast id_desc_size + 4095))\<rparr>
         else (let gpa = exit_info_1 s; s = ghcb_answer 2 5 s
               in if \<not> page_address_valid (snp K) gpa then s
                  else (case gfn_to_pfn K (drop_bit 12 gpa) of
                          None \<Rightarrow> s
                        | Some pfn \<Rightarrow>
                            if pages = 0 then s
                            else if \<not> kvzalloc_ok K s (ucast id_desc_size) then s
                            else (let (ok, s) = kvm_write_guest gpa (apic_id_desc ids) s
                                  in if ok then ghcb_answer 0 0 s else s))))"

section \<open>The request by the register\<close>

definition set_msr_bits :: "u64 \<Rightarrow> msr_bits \<Rightarrow> 'x svm \<Rightarrow> 'x svm" where
  "set_msr_bits x b s = on_level (set_ghcb_msr_bits x (fst b) (snd b)) s"

definition get_msr_bits :: "msr_bits \<Rightarrow> 'x svm \<Rightarrow> u64" where
  "get_msr_bits b s = get_ghcb_msr_bits (fst b) (snd b) (level s)"

text \<open>\<open>kvm_emulate_ap_reset_hold\<close> and \<open>__kvm_emulate_halt\<close> of x86.c.\<close>

definition kvm_emulate_ap_reset_hold :: "'x kvm \<Rightarrow> 'x svm \<Rightarrow> int \<times> 'x svm" where
  "kvm_emulate_ap_reset_hold K s =
     (let (ret, s) = skip_emulated_instruction K s;
          (halted, s) = (if lapic_in_kernel (bell s) then (True, on_level (\<lambda>v. v\<lparr>mp_state := AP_RESET_HOLD\<rparr>) s)
                         else (False, s\<lparr>user_exit := Some Exit_Ap_Reset_Hold\<rparr>))
      in (if halted \<and> ret then 1 else 0, s))"

definition sev_handle_vmgexit_msr_protocol :: "'x kvm \<Rightarrow> 'x svm \<Rightarrow> int \<times> 'x svm" where
  "sev_handle_vmgexit_msr_protocol K s =
     (case msr_request_of K (control_ghcb_gpa (level s) AND fst (INFO K)) of
        SEV_INFO_REQ \<Rightarrow> (1, set_ghcb_msr (SEV_INFO K) s)
      | CPUID_REQ \<Rightarrow>
          (let cpuid_fn = get_msr_bits (CPUID_FUNC K) s;
               s = s\<lparr>regs := (regs s)(RAX := cpuid_fn, RCX := 0)\<rparr>;
               (ret, s) = invoke_exit_handler K EXIT_CPUID s
           in if ret = 0 then (ret, s)
              else (let cpuid_reg = get_msr_bits (CPUID_REG K) s;
                        cpuid_value = (if cpuid_reg = 0 then regs s RAX else if cpuid_reg = 1 then regs s RBX
                                       else if cpuid_reg = 2 then regs s RCX else regs s RDX);
                        s = set_msr_bits cpuid_value (CPUID_VALUE K) s
                    in (ret, set_msr_bits (CPUID_RESP K) (INFO K) s)))
      | AP_RESET_HOLD_REQ \<Rightarrow>
          (let s = on_level (\<lambda>v. v\<lparr>ap_reset_hold := AP_RESET_HOLD_MSR_PROTO\<rparr>) s;
               (ret, s) = kvm_emulate_ap_reset_hold K s;
               s = set_msr_bits 0 (AP_RESET_HOLD_RESULT K) s
           in (ret, set_msr_bits (AP_RESET_HOLD_RESP K) (INFO K) s))
      | HV_FT_REQ \<Rightarrow> (1, set_msr_bits (HV_FT_RESP K) (INFO K) (set_msr_bits (HV_FT_SUPPORTED K) (HV_FT K) s))
      | PREF_GPA_REQ \<Rightarrow> (1, set_msr_bits (PREF_GPA_RESP K) (INFO K) (set_msr_bits (PREF_GPA_NONE K) (GPA_VALUE K) s))
      | REG_GPA_REQ \<Rightarrow>
          (let gfn = get_msr_bits (GPA_VALUE K) s;
               s = s\<lparr>ghcb_registered_gpa := (ghcb_registered_gpa s)(snp_current_vmpl (level s) := push_bit 12 gfn)\<rparr>;
               s = set_msr_bits gfn (GPA_VALUE K) s
           in (1, set_msr_bits (REG_GPA_RESP K) (INFO K) s))
      | PSC_REQ \<Rightarrow> snp_begin_psc_msr K (control_ghcb_gpa (level s)) s
      | VMPL_REQ \<Rightarrow>
          (let (v, p) = ghcb_msr_vmpl_req (snp K) (level s) (vm_pins (machine s)) in (1, with_levels v p s))
      | TERM_REQ \<Rightarrow> (0, s\<lparr>user_exit := Some (Exit_Sev_Term (control_ghcb_gpa (level s)))\<rparr>)
      | UNKNOWN_REQ \<Rightarrow> (1, s))"

section \<open>The handler\<close>

text \<open>\<open>sev_run_vmpl_vmsa\<close> with the checks and answers around the switch.\<close>

definition run_vmpl_request :: "'x kvm \<Rightarrow> 'x svm \<Rightarrow> 'x svm" where
  "run_vmpl_request K s =
     (let s = ghcb_answer 0 0 s
      in if \<not> snp_guest s then ghcb_answer 2 0 s
         else (let (err, v, p) = sev_run_vmpl_vmsa (snp K) (exit_info_1 s) (level s) (vm_pins (machine s));
                   s = with_levels v p s
               in if err \<noteq> 0 then ghcb_answer 2 0 s else s))"

definition doorbell_request :: "'x kvm \<Rightarrow> 'x svm \<Rightarrow> 'x svm" where
  "doorbell_request K s =
     (let enabled = sev_restricted_injection_enabled (door K) (sev_features (machine s)) (snp_current_vmpl (level s));
          (ret, info, d) = sev_snp_hv_doorbell_page (door K) enabled (exit_info_1 s) (exit_info_2 s) (bell s);
          s = s\<lparr>bell := d\<rparr>;
          s = (case info of None \<Rightarrow> s | Some x \<Rightarrow> ghcb_set SW_EXIT_INFO_2 x s)
      in if ret \<noteq> 0 then ghcb_answer 1 (DOORBELL_GP K) s else s)"

definition ap_jump_table_request :: "'x kvm \<Rightarrow> 'x svm \<Rightarrow> 'x svm" where
  "ap_jump_table_request K s =
     (if exit_info_1 s = 0 then s\<lparr>ap_jump_table := exit_info_2 s\<rparr>
      else if exit_info_1 s = 1 then ghcb_set SW_EXIT_INFO_2 (ap_jump_table s) s
      else ghcb_answer 2 (ERR_INVALID_INPUT K) s)"

definition ap_creation_request :: "'x kvm \<Rightarrow> 'x svm \<Rightarrow> 'x svm" where
  "ap_creation_request K s =
     (let (ret, m) = sev_snp_ap_creation (snp K) (me s) (level s) (exit_info_1 s) (exit_info_2 s) (regs s RAX) (machine s);
          s = s\<lparr>machine := m\<rparr>
      in if ret \<noteq> 0 then ghcb_answer 2 (ERR_INVALID_INPUT K) s else s)"

definition mmio_request :: "'x kvm \<Rightarrow> bool \<Rightarrow> 'x svm \<Rightarrow> int \<times> 'x svm" where
  "mmio_request K rd s =
     (let (ret, s) = setup_vmgexit_scratch K rd (exit_info_2 s) s;
          bytes = ucast (exit_info_2 s); data = Some (sa_bytes s)
      in if ret \<noteq> 0 then (ret, s)
         else io_step (if rd then kvm_sev_es_mmio_read (buses K) (exit_info_1 s) bytes data (io s)
                       else kvm_sev_es_mmio_write (buses K) (exit_info_1 s) bytes data (io s)) s)"

definition vmgexit_switch :: "'x kvm \<Rightarrow> u32 \<Rightarrow> 'x svm \<Rightarrow> (int \<times> 'x svm) option" where
  "vmgexit_switch K junk s =
     (case event_of K (kvm_ghcb_get_sw_exit_code s) of
        MMIO_READ \<Rightarrow> Some (mmio_request K True s)
      | MMIO_WRITE \<Rightarrow> Some (mmio_request K False s)
      | NMI_COMPLETE \<Rightarrow> Some (1, s\<lparr>nmi_masked := False, bell := (bell s)\<lparr>req_event := True\<rparr>\<rparr>)
      | AP_HLT_LOOP \<Rightarrow> Some (kvm_emulate_ap_reset_hold K (on_level (\<lambda>v. v\<lparr>ap_reset_hold := AP_RESET_HOLD_NAE_EVENT\<rparr>) s))
      | AP_JUMP_TABLE \<Rightarrow> Some (1, ap_jump_table_request K s)
      | HV_FEATURES \<Rightarrow> Some (1, ghcb_set SW_EXIT_INFO_2 (HV_FT_SUPPORTED K) s)
      | PSC \<Rightarrow> Some (0, s\<lparr>user_exit := Some (Exit_Psc (sw_scratch s)), complete_userspace_io := Some Complete_Psc\<rparr>)
      | AP_CREATION \<Rightarrow> Some (1, ap_creation_request K s)
      | TERM_REQUEST \<Rightarrow> Some (0, s\<lparr>user_exit := Some (Exit_Sev_Term (control_ghcb_gpa (level s)))\<rparr>)
      | GUEST_REQUEST \<Rightarrow> Some (1, snp_handle_guest_req K (exit_info_1 s) (exit_info_2 s) s)
      | EXT_GUEST_REQUEST \<Rightarrow> Some (snp_begin_ext_guest_req K junk s)
      | GET_APIC_IDS \<Rightarrow> Some (1, sev_get_apic_ids K s)
      | RUN_VMPL \<Rightarrow> Some (1, run_vmpl_request K s)
      | UNSUPPORTED_EVENT \<Rightarrow> Some (- EINVAL, s)
      | HV_DOORBELL_PAGE \<Rightarrow> Some (1, doorbell_request K s)
      | EXIT_IOIO \<Rightarrow> io_interception K s
      | ev \<Rightarrow> Some (invoke_exit_handler K ev s))"

definition sev_handle_vmgexit :: "'x kvm \<Rightarrow> u32 \<Rightarrow> 'x svm \<Rightarrow> (int \<times> 'x svm) option" where
  "sev_handle_vmgexit K junk s =
     (let ghcb_gpa = control_ghcb_gpa (level s); gfn = drop_bit 12 ghcb_gpa
      in if ghcb_gpa AND fst (INFO K) \<noteq> 0 then Some (sev_handle_vmgexit_msr_protocol K s)
         else if ghcb_gpa = 0 then Some (1, s)
         else if ghcb_pages s gfn = None then Some (1, s)
         else (let s = on_level (\<lambda>v. v\<lparr>ghcb_mapped := True\<rparr>) (s\<lparr>ghcb_map_gfn := gfn\<rparr>);
                   s = sev_es_sync_from_ghcb s
               in if snp_guest s \<and> ghcb_registered_gpa s (snp_current_vmpl (level s)) \<noteq> ghcb_gpa then Some (- EINVAL, s)
                  else (let (ret, s) = sev_es_validate_vmgexit K s
                        in if ret \<noteq> 0 then Some (ret, s) else vmgexit_switch K junk (ghcb_answer 0 0 s))))"

definition sev_vcpu_deliver_sipi_vector :: "'x kvm \<Rightarrow> 'x svm \<Rightarrow> 'x svm" where
  "sev_vcpu_deliver_sipi_vector K s =
     (if \<not> received_first_sipi s then s\<lparr>received_first_sipi := True\<rparr>
      else (case ap_reset_hold (level s) of
              AP_RESET_HOLD_NAE_EVENT \<Rightarrow> ghcb_set SW_EXIT_INFO_2 1 s
            | AP_RESET_HOLD_MSR_PROTO \<Rightarrow>
                set_msr_bits (AP_RESET_HOLD_RESP K) (INFO K) (set_msr_bits 1 (AP_RESET_HOLD_RESULT K) s)
            | AP_RESET_HOLD_NONE \<Rightarrow> s))"

text \<open>The state in which a request by the page is looked at.\<close>

definition page_request :: "'x svm \<Rightarrow> 'x svm" where
  "page_request s =
     sev_es_sync_from_ghcb
       (on_level (\<lambda>v. v\<lparr>ghcb_mapped := True\<rparr>) (s\<lparr>ghcb_map_gfn := drop_bit 12 (control_ghcb_gpa (level s))\<rparr>))"

definition page_there_ghcb :: "'x kvm \<Rightarrow> 'x svm \<Rightarrow> bool" where
  "page_there_ghcb K s \<longleftrightarrow>
     control_ghcb_gpa (level s) AND fst (INFO K) = 0 \<and> control_ghcb_gpa (level s) \<noteq> 0
     \<and> ghcb_pages s (drop_bit 12 (control_ghcb_gpa (level s))) \<noteq> None"

lemma vmgexit_by_page:
  assumes "page_there_ghcb K s" "t = page_request s"
  shows "sev_handle_vmgexit K junk s =
     (if snp_guest t \<and> ghcb_registered_gpa t (snp_current_vmpl (level t)) \<noteq> control_ghcb_gpa (level s) then Some (- EINVAL, t)
      else (let (ret, u) = sev_es_validate_vmgexit K t
            in if ret \<noteq> 0 then Some (ret, u) else vmgexit_switch K junk (ghcb_answer 0 0 u)))"
  unfolding assms(2) sev_handle_vmgexit_def Let_def page_request_def using assms(1) by (auto simp: page_there_ghcb_def)

section \<open>The levels under a request\<close>

text \<open>
  What a request does with the levels of its guest: nothing but steps of the machine of \<open>Sev_Vmpl\<close>.
  The handlers of KVM that are not modelled do not touch them.
\<close>

definition has_vcpu :: "'x svm \<Rightarrow> bool" where
  "has_vcpu s \<longleftrightarrow> vcpus (machine s) (me s) \<noteq> None"

definition follows :: "'x kvm \<Rightarrow> 'x svm \<Rightarrow> 'x svm \<Rightarrow> bool" where
  "follows K s s' \<longleftrightarrow>
     me s' = me s \<and> (has_vcpu s \<longrightarrow> has_vcpu s' \<and> (vm_step (snp K))\<^sup>*\<^sup>* (machine s) (machine s'))"

definition kvm_ok :: "'x kvm \<Rightarrow> bool" where
  "kvm_ok K \<longleftrightarrow> (\<forall>ev s. follows K s (snd (invoke_exit_handler K ev s))) \<and> (\<forall>s. follows K s (snd (skip_emulated_instruction K s)))"

lemma follows_trans: "follows K s t \<Longrightarrow> follows K t u \<Longrightarrow> follows K s u"
  by (auto simp: follows_def)

lemma follows_same: "me s' = me s \<Longrightarrow> machine s' = machine s \<Longrightarrow> follows K s s'"
  by (simp add: follows_def has_vcpu_def)

lemma follows_refl [intro, simp]: "follows K s s"
  by (simp add: follows_def)

lemma ghcb_set_same [simp]: "me (ghcb_set f x s) = me s" "machine (ghcb_set f x s) = machine s" "level (ghcb_set f x s) = level s"
  by (simp_all add: ghcb_set_def level_def Let_def)

lemma ghcb_answer_same [simp]:
  "me (ghcb_answer i j s) = me s" "machine (ghcb_answer i j s) = machine s" "level (ghcb_answer i j s) = level s"
  by (simp_all add: ghcb_answer_def)

lemma follows_level:
  assumes "guest_ran (level s) v"
  shows "follows K s (set_level v s)"
proof -
  have "(vm_step (snp K))\<^sup>*\<^sup>* (machine s) (put_vcpu (me s) v (machine s))" if "has_vcpu s"
  proof -
    from that obtain w where "vcpus (machine s) (me s) = Some w" by (auto simp: has_vcpu_def)
    with assms have "vm_step (snp K) (machine s) (put_vcpu (me s) v (machine s))"
      by (intro step_guest [of _ _ w]) (simp_all add: level_def)
    then show ?thesis by blast
  qed
  then show ?thesis by (simp add: follows_def set_level_def has_vcpu_def put_vcpu_def)
qed

lemma follows_on_level: "(\<And>v. guest_ran v (f v)) \<Longrightarrow> follows K s (on_level f s)"
  by (simp add: on_level_def follows_level)

lemma guest_ran_intros [intro, simp]:
  "guest_ran v (v\<lparr>control_ghcb_gpa := x\<rparr>)" "guest_ran v (v\<lparr>ghcb_mapped := b\<rparr>)" "guest_ran v (v\<lparr>ap_reset_hold := h\<rparr>)"
  "guest_ran v (v\<lparr>ghcb_sa_sync := b, ghcb_sa_free := c\<rparr>)" "guest_ran v (v\<lparr>mp_state := m\<rparr>)"
  "guest_ran v (set_ghcb_msr_bits x msk pos v)"
  by (simp_all add: guest_ran_def set_ghcb_msr_bits_def Let_def)

lemma ghcb_write_back_same [simp]:
  "me (ghcb_write_back s) = me s" "machine (ghcb_write_back s) = machine s"
  by (simp_all add: ghcb_write_back_def sev_es_sync_to_ghcb_def kvm_write_guest_def case_prod_unfold Let_def
      split: option.splits scratch.splits)

lemma follows_with_levels:
  assumes "\<And>w. vcpus (machine s) (me s) = Some w \<Longrightarrow>
      vm_step (snp K) (machine s) ((put_vcpu (me s) v (machine s))\<lparr>vm_pins := p\<rparr>)"
  shows "follows K s (with_levels v p s)"
  using assms by (auto simp: follows_def with_levels_def set_level_def has_vcpu_def put_vcpu_def Let_def)

lemma follows_set_msr_bits: "follows K s (set_msr_bits x b s)" "follows K s (set_ghcb_msr y s)"
  by (simp_all add: set_msr_bits_def set_ghcb_msr_def follows_on_level)

lemma follows_upd: "follows K s t \<Longrightarrow> me u = me t \<Longrightarrow> machine u = machine t \<Longrightarrow> follows K s u"
  by (rule follows_trans [OF _ follows_same])

lemma setup_scratch_follows: "follows K s (snd (setup_vmgexit_scratch K sync len s))"
proof -
  have "follows K s (on_level (\<lambda>v. v\<lparr>ghcb_sa_sync := sync, ghcb_sa_free := True\<rparr>) s)" by (rule follows_on_level) simp
  then show ?thesis
    by (auto simp: setup_vmgexit_scratch_def Let_def split: option.splits intro: follows_same follows_upd)
qed

lemma io_step_same [simp]: "me (snd (io_step r s)) = me s" "machine (snd (io_step r s)) = machine s"
  by (simp_all add: io_step_def sa_store_def case_prod_unfold Let_def split: option.splits scratch.splits)

lemma string_io_follows: "sev_es_string_io K siz port inp s = Some (r, s') \<Longrightarrow> follows K s s'"
  using setup_scratch_follows [of K s inp "word_of_int (uint (exit_info_2 s) * uint siz)"]
  by (auto simp: sev_es_string_io_def Let_def case_prod_unfold split: if_splits)
    (metis follows_upd io_step_same snd_conv)

lemma io_interception_follows: "kvm_ok K \<Longrightarrow> io_interception K s = Some (r, s') \<Longrightarrow> follows K s s'"
  by (auto simp: io_interception_def kvm_ok_def Let_def split: if_splits dest: string_io_follows) (metis snd_conv)

lemma mmio_request_follows: "follows K s (snd (mmio_request K rd s))"
  using setup_scratch_follows [of K s rd "exit_info_2 s"]
  by (auto simp: mmio_request_def Let_def case_prod_unfold intro: follows_upd)

lemma reset_hold_follows: "kvm_ok K \<Longrightarrow> follows K s (snd (kvm_emulate_ap_reset_hold K s))"
proof -
  assume ok: "kvm_ok K"
  let ?t = "snd (skip_emulated_instruction K s)"
  have "follows K s ?t" using ok by (simp add: kvm_ok_def)
  moreover have "follows K ?t (on_level (\<lambda>v. v\<lparr>mp_state := AP_RESET_HOLD\<rparr>) ?t)" by (rule follows_on_level) simp
  moreover have "follows K ?t (?t\<lparr>user_exit := x\<rparr>)" for x by (rule follows_same) simp_all
  ultimately show ?thesis
    by (auto simp: kvm_emulate_ap_reset_hold_def Let_def case_prod_unfold intro: follows_trans)
qed

lemma guest_req_follows:
  "follows K s (snd (snd (do_handle_guest_req K a b s)))" "follows K s (snp_handle_guest_req K a b s)"
proof -
  show r: "follows K s (snd (snd (do_handle_guest_req K a b s)))"
    by (auto simp: do_handle_guest_req_def Let_def case_prod_unfold split: option.splits intro: follows_same)
  then show "follows K s (snp_handle_guest_req K a b s)"
    by (auto simp: snp_handle_guest_req_def Let_def case_prod_unfold intro: follows_upd)
qed

lemma ext_req_follows: "follows K s (snd (snp_begin_ext_guest_req K junk s))"
  by (auto simp: snp_begin_ext_guest_req_def Let_def intro: follows_same)

lemma apic_ids_follows: "follows K s (sev_get_apic_ids K s)"
  by (auto simp: sev_get_apic_ids_def kvm_write_guest_def Let_def case_prod_unfold split: option.splits intro: follows_same)

lemma run_vmpl_follows: "follows K s (run_vmpl_request K s)"
proof -
  define t where "t = ghcb_answer 0 0 s"
  obtain err v p where r: "sev_run_vmpl_vmsa (snp K) (exit_info_1 t) (level t) (vm_pins (machine t)) = (err, v, p)"
    by (metis prod_cases3)
  have "vm_step (snp K) (machine t) ((put_vcpu (me t) v (machine t))\<lparr>vm_pins := p\<rparr>)"
    if "vcpus (machine t) (me t) = Some w" for w
    using r that by (intro step_run [of _ _ w _ "exit_info_1 t" err]) (simp_all add: level_def)
  then have "follows K t (with_levels v p t)" by (rule follows_with_levels)
  moreover have "follows K s t" by (simp add: t_def follows_same)
  ultimately have "follows K s (with_levels v p t)" by (blast intro: follows_trans)
  then show ?thesis
    using r by (auto simp: run_vmpl_request_def t_def [symmetric] Let_def intro: follows_upd)
      (simp_all add: t_def follows_same)
qed

lemma doorbell_follows: "follows K s (doorbell_request K s)"
  by (auto simp: doorbell_request_def Let_def case_prod_unfold split: option.splits intro: follows_same)

lemma jump_table_follows: "follows K s (ap_jump_table_request K s)"
  by (auto simp: ap_jump_table_request_def intro: follows_same)

lemma ap_creation_keeps_vcpu:
  "sev_snp_ap_creation E i v info1 info2 rax m = (r, m') \<Longrightarrow> vcpus m j \<noteq> None \<Longrightarrow> vcpus m' j \<noteq> None"
proof (cases "ap_level E info1 < VMPL_MAX E \<and> vcpus m (ap_target info1) \<noteq> None")
  case True
  assume a: "sev_snp_ap_creation E i v info1 info2 rax m = (r, m')" and j: "vcpus m j \<noteq> None"
  from True obtain t where t: "ap_level E info1 < VMPL_MAX E" "vcpus m (ap_target info1) = Some t" by blast
  from a t show ?thesis
    by (cases rule: ap_creation_cases) (use j in auto)
next
  case False
  assume "sev_snp_ap_creation E i v info1 info2 rax m = (r, m')" "vcpus m j \<noteq> None"
  with False show ?thesis
    by (auto simp: sev_snp_ap_creation_def ap_level_def ap_target_def Let_def split: if_splits)
qed

lemma ap_creation_follows: "follows K s (ap_creation_request K s)"
proof -
  obtain r m where c: "sev_snp_ap_creation (snp K) (me s) (level s) (exit_info_1 s) (exit_info_2 s) (regs s RAX) (machine s) = (r, m)"
    by (metis surj_pair)
  have "follows K s (s\<lparr>machine := m\<rparr>)"
  proof (cases "has_vcpu s")
    case True
    then obtain w where w: "vcpus (machine s) (me s) = Some w" by (auto simp: has_vcpu_def)
    from c w have "vm_step (snp K) (machine s) m"
      by (intro step_create [of _ "me s" w]) (simp_all add: level_def)
    moreover have "vcpus m (me s) \<noteq> None" using ap_creation_keeps_vcpu [OF c] w by simp
    ultimately show ?thesis by (auto simp: follows_def has_vcpu_def)
  qed (simp add: follows_def)
  with c show ?thesis by (auto simp: ap_creation_request_def Let_def intro: follows_upd)
qed

text \<open>
  The interface of a request to the levels: it only takes their steps, and so keeps what they keep.
\<close>

locale level_request =
  fixes K :: "'x kvm"
    and request :: "'x svm \<Rightarrow> 'x svm"
  assumes follows_levels: "follows K s (request s)"
begin

lemma after: "follows K r s \<Longrightarrow> follows K r (request s)"
  using follows_levels by (rule follows_trans [rotated])

lemma keeps_levels_inv:
  assumes "snp_env_ok (snp K)" "has_vcpu s" "vm_inv (snp K) (machine s)"
  shows "vm_inv (snp K) (machine (request s))"
proof -
  have "(vm_step (snp K))\<^sup>*\<^sup>* (machine s) (machine (request s))"
    using follows_levels [of s] assms(2) by (simp add: follows_def)
  then show ?thesis using assms(1,3) by (induction rule: rtranclp_induct) (auto intro: vm_step_inv)
qed

end

interpretation switch: level_request K "run_vmpl_request K"
  by unfold_locales (rule run_vmpl_follows)

interpretation create: level_request K "ap_creation_request K"
  by unfold_locales (rule ap_creation_follows)

interpretation firmware: level_request K "snp_handle_guest_req K a b"
  by unfold_locales (rule guest_req_follows)

interpretation ids: level_request K "sev_get_apic_ids K"
  by unfold_locales (rule apic_ids_follows)

interpretation doorbell: level_request K "doorbell_request K"
  by unfold_locales (rule doorbell_follows)

interpretation jump_table: level_request K "ap_jump_table_request K"
  by unfold_locales (rule jump_table_follows)

lemma psc_msr_follows: "follows K s (snd (snp_begin_psc_msr K x s))"
  by (auto simp: snp_begin_psc_msr_def Let_def follows_set_msr_bits intro: follows_same)

lemma msr_vmpl_follows:
  "ghcb_msr_vmpl_req (snp K) (level s) (vm_pins (machine s)) = (v, p) \<Longrightarrow> follows K s (with_levels v p s)"
  by (rule follows_with_levels) (auto intro: step_msr simp: level_def)

lemma cpuid_follows:
  assumes "kvm_ok K"
  shows "follows K s (snd (invoke_exit_handler K EXIT_CPUID (s\<lparr>regs := x\<rparr>)))"
proof -
  have "follows K s (s\<lparr>regs := x\<rparr>)" by (simp add: follows_same)
  with assms show ?thesis unfolding kvm_ok_def by (blast intro: follows_trans)
qed

lemma msr_protocol_follows: "kvm_ok K \<Longrightarrow> follows K s (snd (sev_handle_vmgexit_msr_protocol K s))"
proof -
  assume ok: "kvm_ok K"
  note t = follows_trans
  have bits: "follows K s (set_msr_bits x a (set_msr_bits y b u))" if "follows K s u" for x a y b u
    using that follows_set_msr_bits t by metis
  have hold: "follows K s (snd (kvm_emulate_ap_reset_hold K (on_level (\<lambda>v. v\<lparr>ap_reset_hold := h\<rparr>) s)))" for h
    by (rule t [OF _ reset_hold_follows [OF ok]]) (rule follows_on_level, simp)
  have reg: "follows K s (s\<lparr>ghcb_registered_gpa := g\<rparr>)" for g by (simp add: follows_same)
  show ?thesis
  proof (cases "msr_request_of K (control_ghcb_gpa (level s) AND fst (INFO K))")
    case CPUID_REQ
    then show ?thesis
      by (auto simp: sev_handle_vmgexit_msr_protocol_def Let_def case_prod_unfold intro!: bits cpuid_follows [OF ok])
  next
    case AP_RESET_HOLD_REQ
    then show ?thesis
      by (auto simp: sev_handle_vmgexit_msr_protocol_def Let_def case_prod_unfold intro!: bits hold)
  next
    case VMPL_REQ
    then show ?thesis
      by (auto simp: sev_handle_vmgexit_msr_protocol_def Let_def case_prod_unfold intro!: msr_vmpl_follows)
  next
    case TERM_REQ
    then show ?thesis by (simp add: sev_handle_vmgexit_msr_protocol_def follows_same)
  qed (auto simp: sev_handle_vmgexit_msr_protocol_def Let_def follows_set_msr_bits psc_msr_follows intro!: bits reg)
qed

lemma validate_same:
  "me (snd (sev_es_validate_vmgexit K s)) = me s" "machine (snd (sev_es_validate_vmgexit K s)) = machine s"
  by (simp_all add: sev_es_validate_vmgexit_def Let_def split: vmgexit.splits)

lemma sync_from_same [simp]:
  "me (sev_es_sync_from_ghcb s) = me s" "machine (sev_es_sync_from_ghcb s) = machine s"
  "level (sev_es_sync_from_ghcb s) = level s"
  by (simp_all add: sev_es_sync_from_ghcb_def level_def Let_def)

lemma switch_follows:
  assumes "kvm_ok K" "vmgexit_switch K junk s = Some (r, s')"
  shows "follows K s s'"
proof -
  have hold: "follows K s (snd (kvm_emulate_ap_reset_hold K (on_level (\<lambda>v. v\<lparr>ap_reset_hold := h\<rparr>) s)))" for h
    by (rule follows_trans [OF _ reset_hold_follows [OF assms(1)]]) (rule follows_on_level, simp)
  have other: "follows K s (snd (invoke_exit_handler K ev s))" for ev using assms(1) by (simp add: kvm_ok_def)
  note c = mmio_request_follows [of K s] other hold ext_req_follows [of K s junk]
  show ?thesis
  proof (cases "event_of K (kvm_ghcb_get_sw_exit_code s)")
    case EXIT_IOIO
    with assms show ?thesis by (simp add: vmgexit_switch_def io_interception_follows)
  next
    case AP_HLT_LOOP
    with assms(2) hold [of AP_RESET_HOLD_NAE_EVENT] show ?thesis by (simp add: vmgexit_switch_def)
  next
    case EXT_GUEST_REQUEST
    with assms(2) ext_req_follows [of K s junk] show ?thesis by (simp add: vmgexit_switch_def)
  next
    case MMIO_READ
    with assms(2) mmio_request_follows [of K s True] show ?thesis by (simp add: vmgexit_switch_def)
  next
    case MMIO_WRITE
    with assms(2) mmio_request_follows [of K s False] show ?thesis by (simp add: vmgexit_switch_def)
  qed (use assms(2) other [of "event_of K (kvm_ghcb_get_sw_exit_code s)"] in
      \<open>auto simp: vmgexit_switch_def jump_table.follows_levels create.follows_levels firmware.follows_levels
         ids.follows_levels switch.follows_levels doorbell.follows_levels intro: follows_same\<close>)
qed

lemma vmgexit_follows:
  assumes "kvm_ok K" "sev_handle_vmgexit K junk s = Some (r, s')"
  shows "follows K s s'"
proof (cases "page_there_ghcb K s")
  case False
  with assms(2) msr_protocol_follows [OF assms(1), of s] show ?thesis
    by (auto simp: sev_handle_vmgexit_def page_there_ghcb_def Let_def split: if_splits)
next
  case True
  define t where "t = page_request s"
  have "follows K s (on_level (\<lambda>v. v\<lparr>ghcb_mapped := True\<rparr>) (s\<lparr>ghcb_map_gfn := g\<rparr>))" for g
    by (rule follows_trans [OF follows_same follows_on_level]) simp_all
  then have t: "follows K s t" by (rule follows_upd) (simp_all add: t_def page_request_def)
  obtain ret u where v: "sev_es_validate_vmgexit K t = (ret, u)" by (metis surj_pair)
  have "follows K t u" using validate_same [of K t] v by (simp add: follows_same)
  with t have u: "follows K s u" by (rule follows_trans)
  have a: "follows K s (ghcb_answer 0 0 u)" using u by (rule follows_upd) simp_all
  from assms(2) vmgexit_by_page [OF True t_def] v
  consider "s' = t" | "s' = u" | "vmgexit_switch K junk (ghcb_answer 0 0 u) = Some (r, s')"
    by (auto split: if_splits)
  then show ?thesis
  proof cases
    case 3
    from follows_trans [OF a switch_follows [OF assms(1) 3]] show ?thesis .
  qed (use t u in simp_all)
qed

text \<open>
  C2  Whatever a guest asks for, its levels only take the steps they may.  Every exit of a vCPU to the
  host with a request, by register or by page, valid or not, acts on the levels of the guest as a
  sequence of steps of the machine of levels; so every property of what that machine reaches
  holds of the host that handles requests, and the vCPU is still there.
\<close>
theorem vmgexit_refines_levels:
  assumes "kvm_ok K" "sev_handle_vmgexit K junk s = Some (r, s')" "vcpus (machine s) (me s) \<noteq> None"
  shows "(vm_step (snp K))\<^sup>*\<^sup>* (machine s) (machine s') \<and> me s' = me s \<and> vcpus (machine s') (me s') \<noteq> None"
  using vmgexit_follows [OF assms(1,2)] assms(3) by (auto simp: follows_def has_vcpu_def)

section \<open>Bounds of the scratch area\<close>

text \<open>An address in the page of \<open>gpa\<close>: the checks of the shared buffer do not wrap.\<close>

lemma in_ghcb_bounds:
  assumes "(b :: u64) AND NOT 0xFFF = gpa" "unat b + unat len < 2 ^ 64" "unat r \<le> 4095" "unat f \<le> unat r"
    and "\<not> b < gpa + f" "\<not> gpa + r < b + len"
  shows "unat (b - gpa) + unat gpa = unat b \<and> unat f \<le> unat (b - gpa) \<and> unat (b - gpa) + unat len \<le> unat r"
proof -
  have g: "unat gpa = unat b div 4096 * 4096" using and_not_4095 [of b] assms(1) by simp
  have "unat b div 4096 * 4096 \<le> 2 ^ 64 - 4096"
  proof -
    have "unat b div 4096 < 2 ^ 64 div 4096" using unat_less_u64 [of b] by (simp add: less_mult_imp_div_less)
    then have "unat b div 4096 \<le> 2 ^ 52 - 1" by simp
    then have "unat b div 4096 * 4096 \<le> (2 ^ 52 - 1) * 4096" by (rule mult_le_mono1)
    then show ?thesis by simp
  qed
  with g assms(3,4) have s: "unat (gpa + r) = unat gpa + unat r" "unat (gpa + f) = unat gpa + unat f"
    by (simp_all add: unat_word_ariths)
  have e: "unat (b + len) = unat b + unat len" using assms(2) by (simp add: unat_word_ariths)
  have le: "gpa \<le> b" using g by (simp add: word_le_nat_alt)
  then have d: "unat (b - gpa) = unat b - unat gpa" by (simp add: unat_sub)
  have "unat gpa + unat f \<le> unat b" "unat b + unat len \<le> unat gpa + unat r"
    using assms(5,6) s e by (simp_all add: not_less word_le_nat_alt)
  with d le show ?thesis by (auto simp: word_le_nat_alt)
qed

lemma read_guest_bytes:
  assumes "kvm_read_guest a n s = Some bs"
  shows "length bs = n \<and> (\<forall>i<n. guest_mem s (a + of_nat i) = Some (bs ! i))"
  using assms
  by (auto simp: kvm_read_guest_def list_all_iff Let_def split: if_splits)

text \<open>
  C15  A scratch area that is accepted lies where it may.  Its end does not wrap; if it begins in the page
  of the GHCB it lies entirely in the shared buffer of that page, and otherwise it is a copy, of at most
  16 pages, of guest memory that is all there.
\<close>
theorem scratch_area_in_bounds:
  assumes "setup_vmgexit_scratch K sync len s = (0, s')" "unat (RESERVED_0xff0 K) \<le> 4095"
    and "unat (SHARED_BUFFER K) \<le> unat (RESERVED_0xff0 K)"
  shows "sw_scratch s \<noteq> 0 \<and> unat (sw_scratch s) + unat len < 2 ^ 64
    \<and> (case ghcb_sa s' of
         None \<Rightarrow> False
       | Some (In_Ghcb off) \<Rightarrow> sw_scratch s = control_ghcb_gpa (level s) + off
           \<and> unat (SHARED_BUFFER K) \<le> unat off \<and> unat off + unat len \<le> unat (RESERVED_0xff0 K)
       | Some (Kernel_Buffer bs) \<Rightarrow> length bs = unat len \<and> unat len \<le> 16 * 4096
           \<and> (\<forall>i<unat len. guest_mem s (sw_scratch s + of_nat i) = Some (bs ! i)))"
proof -
  let ?b = "sw_scratch s" and ?gpa = "control_ghcb_gpa (level s)"
  have nz: "?b \<noteq> 0" and w: "\<not> ?b + len < ?b"
    using assms(1) by (auto simp: setup_vmgexit_scratch_def Let_def split: if_splits)
  have nowrap: "unat ?b + unat len < 2 ^ 64"
  proof (rule ccontr)
    assume over: "\<not> unat ?b + unat len < 2 ^ 64"
    moreover have "unat ?b + unat len - 2 ^ 64 < 2 ^ 64"
      using unat_less_u64 [of ?b] unat_less_u64 [of len] by linarith
    ultimately have "unat (?b + len) = unat ?b + unat len - 2 ^ 64"
      by (simp add: unat_word_ariths le_mod_geq)
    with w have "\<not> unat ?b + unat len - 2 ^ 64 < unat ?b" by (simp only: word_less_nat_alt not_False_eq_True)
    with over unat_less_u64 [of len] show False by linarith
  qed
  show ?thesis
  proof (cases "?b AND NOT 0xFFF = ?gpa")
    case True
    with assms(1) nz w have n: "\<not> ?b < ?gpa + SHARED_BUFFER K" "\<not> ?gpa + RESERVED_0xff0 K < ?b + len"
      and s': "ghcb_sa s' = Some (In_Ghcb (?b - ?gpa))"
      by (auto simp: setup_vmgexit_scratch_def Let_def split: if_splits)
    from in_ghcb_bounds [OF True nowrap assms(2,3) n] s' nz nowrap show ?thesis by simp
  next
    case False
    with assms(1) nz w obtain bs where bs: "kvm_read_guest ?b (unat len) s = Some bs" "ghcb_sa s' = Some (Kernel_Buffer bs)"
      and l: "\<not> GHCB_SCRATCH_AREA_LIMIT < len"
      by (auto simp: setup_vmgexit_scratch_def EFAULT_def ENOMEM_def Let_def split: if_splits option.splits)
    have "unat len \<le> 16 * 4096"
      using l by (simp add: GHCB_SCRATCH_AREA_LIMIT_def not_less word_le_nat_alt)
    with read_guest_bytes [OF bs(1)] bs(2) nz nowrap show ?thesis by simp
  qed
qed

section \<open>Refused requests\<close>

text \<open>The registers that a request reads, as the protocol has them.\<close>

definition inputs_of :: "'x kvm \<Rightarrow> 'x svm \<Rightarrow> vmgexit \<Rightarrow> ghcb_field set" where
  "inputs_of K s ev =
     {SW_EXIT_CODE, SW_EXIT_INFO_1, SW_EXIT_INFO_2}
     \<union> (case ev of
          EXIT_WRITE_DR7 \<Rightarrow> {RAX}
        | EXIT_RDPMC \<Rightarrow> {RCX}
        | EXIT_CPUID \<Rightarrow> {RAX, RCX} \<union> (if regs s RAX = 0xd then {XCR0} else {})
        | EXIT_IOIO \<Rightarrow> (if exit_info_1 s AND IOIO_STR_MASK K \<noteq> 0 then {SW_SCRATCH}
                         else if exit_info_1 s AND IOIO_TYPE_MASK K = 0 then {RAX} else {})
        | EXIT_MSR \<Rightarrow> {RCX} \<union> (if exit_info_1 s \<noteq> 0 then {RAX, RDX} else {})
        | EXIT_VMMCALL \<Rightarrow> {RAX, CPL}
        | EXIT_MONITOR \<Rightarrow> {RAX, RCX, RDX}
        | EXIT_MWAIT \<Rightarrow> {RAX, RCX}
        | MMIO_READ \<Rightarrow> {SW_SCRATCH}
        | MMIO_WRITE \<Rightarrow> {SW_SCRATCH}
        | AP_CREATION \<Rightarrow> (if ucast (exit_info_1 s) AND NOT (AP_VMPL_MASK (snp K)) \<noteq> AP_DESTROY (snp K) then {RAX} else {})
        | GET_APIC_IDS \<Rightarrow> {RAX}
        | _ \<Rightarrow> {})"

definition well_formed_request :: "'x kvm \<Rightarrow> 'x svm \<Rightarrow> bool" where
  "well_formed_request K s \<longleftrightarrow>
     ghcb_usage (the_ghcb s) = 0 \<and> event_of K (kvm_ghcb_get_sw_exit_code s) \<noteq> UNKNOWN_EXIT
     \<and> inputs_of K s (event_of K (kvm_ghcb_get_sw_exit_code s)) \<subseteq> valid_bitmap s"

lemma validate_accepts:
  "sev_es_validate_vmgexit K s =
     (if well_formed_request K s then (0, s)
      else (1, ghcb_answer 2
         (if ghcb_usage (the_ghcb s) \<noteq> 0 then ERR_INVALID_USAGE K
          else if event_of K (kvm_ghcb_get_sw_exit_code s) = UNKNOWN_EXIT
               \<and> {SW_EXIT_CODE, SW_EXIT_INFO_1, SW_EXIT_INFO_2} \<subseteq> valid_bitmap s
          then ERR_INVALID_EVENT K else ERR_MISSING_INPUT K) s))"
  by (cases "event_of K (kvm_ghcb_get_sw_exit_code s)")
    (auto simp: sev_es_validate_vmgexit_def well_formed_request_def inputs_of_def Let_def)

lemma ghcb_answer_shows:
  "save (the_ghcb (ghcb_answer i j s)) SW_EXIT_INFO_1 = i" "save (the_ghcb (ghcb_answer i j s)) SW_EXIT_INFO_2 = j"
  by (simp_all add: ghcb_answer_def ghcb_set_def the_ghcb_def Let_def)

lemma ghcb_answer_keeps:
  "bell (ghcb_answer i j s) = bell s" "fw (ghcb_answer i j s) = fw s" "io (ghcb_answer i j s) = io s"
  "user_exit (ghcb_answer i j s) = user_exit s" "guest_mem (ghcb_answer i j s) = guest_mem s"
  "ghcb_registered_gpa (ghcb_answer i j s) = ghcb_registered_gpa s" "exit_info_1 (ghcb_answer i j s) = exit_info_1 s"
  "exit_info_2 (ghcb_answer i j s) = exit_info_2 s" "sw_scratch (ghcb_answer i j s) = sw_scratch s"
  "kvm_ghcb_get_sw_exit_code (ghcb_answer i j s) = kvm_ghcb_get_sw_exit_code s"
  by (simp_all add: ghcb_answer_def ghcb_set_def kvm_ghcb_get_sw_exit_code_def Let_def)

lemma page_request_keeps:
  "bell (page_request s) = bell s" "fw (page_request s) = fw s" "io (page_request s) = io s"
  "user_exit (page_request s) = user_exit s" "guest_mem (page_request s) = guest_mem s"
  "ghcb_registered_gpa (page_request s) = ghcb_registered_gpa s" "snp_guest (page_request s) = snp_guest s"
  "machine (page_request s) = put_vcpu (me s) ((level s)\<lparr>ghcb_mapped := True\<rparr>) (machine s)"
  "level (page_request s) = (level s)\<lparr>ghcb_mapped := True\<rparr>"
  by (simp_all add: page_request_def sev_es_sync_from_ghcb_def on_level_def set_level_def level_def put_vcpu_def Let_def)


section \<open>The host comes back\<close>

definition string_size :: "'x kvm \<Rightarrow> 'x svm \<Rightarrow> u32" where
  "string_size K s = drop_bit (IOIO_SIZE_SHIFT K) (ucast (exit_info_1 s) AND IOIO_SIZE_MASK K)"

lemma string_io_stuck:
  assumes "unat siz \<le> 4096"
  shows "sev_es_string_io K siz port inp s = None \<longleftrightarrow>
    siz = 0 \<and> uint (exit_info_2 s) \<le> INT_MAX \<and> fst (setup_vmgexit_scratch K inp 0 s) = 0"
  by (auto simp: string_io_returns_iff [OF assms] sev_es_string_io_def INT_MAX_def Let_def case_prod_unfold)

lemma switch_stuck:
  assumes "\<And>x. unat (drop_bit (IOIO_SIZE_SHIFT K) (x AND IOIO_SIZE_MASK K)) \<le> 7"
  shows "vmgexit_switch K junk s = None \<longleftrightarrow>
    event_of K (kvm_ghcb_get_sw_exit_code s) = EXIT_IOIO \<and> ucast (exit_info_1 s) AND (ucast (IOIO_STR_MASK K) :: u32) \<noteq> 0
    \<and> string_size K s = 0 \<and> uint (exit_info_2 s) \<le> INT_MAX
    \<and> fst (setup_vmgexit_scratch K (ucast (exit_info_1 s) AND (ucast (IOIO_TYPE_MASK K) :: u32) \<noteq> 0) 0 s) = 0"
proof -
  have "unat (string_size K s) \<le> 4096" using assms [of "ucast (exit_info_1 s)"] by (simp add: string_size_def)
  from string_io_stuck [OF this] show ?thesis
    by (cases "event_of K (kvm_ghcb_get_sw_exit_code s)")
      (auto simp: vmgexit_switch_def io_interception_def string_size_def Let_def)
qed

text \<open>
  C7  The host comes back from every request, but for one.  Whatever the guest puts into its page or
  register, the handler returns, except for a well-formed port request for a string whose size field is
  zero, with a count that is an \<open>int\<close> and a scratch address that is not refused for no bytes: that one
  divides a page by the size.
\<close>
theorem vmgexit_returns_unless_size_0:
  assumes "\<And>x. unat (drop_bit (IOIO_SIZE_SHIFT K) (x AND IOIO_SIZE_MASK K)) \<le> 7" "t = ghcb_answer 0 0 (page_request s)"
  shows "sev_handle_vmgexit K junk s = None \<longleftrightarrow>
    page_there_ghcb K s \<and> well_formed_request K (page_request s)
    \<and> (snp_guest s \<longrightarrow> ghcb_registered_gpa s (snp_current_vmpl (level s)) = control_ghcb_gpa (level s))
    \<and> event_of K (kvm_ghcb_get_sw_exit_code t) = EXIT_IOIO \<and> ucast (exit_info_1 t) AND (ucast (IOIO_STR_MASK K) :: u32) \<noteq> 0
    \<and> string_size K t = 0 \<and> uint (exit_info_2 t) \<le> INT_MAX
    \<and> fst (setup_vmgexit_scratch K (ucast (exit_info_1 t) AND (ucast (IOIO_TYPE_MASK K) :: u32) \<noteq> 0) 0 t) = 0"
proof (cases "page_there_ghcb K s")
  case True
  from switch_stuck [OF assms(1), of junk t] assms(2) show ?thesis
    by (auto simp: vmgexit_by_page [OF True refl] True page_request_keeps validate_accepts)
next
  case False
  then show ?thesis by (auto simp: sev_handle_vmgexit_def page_there_ghcb_def Let_def)
qed

section \<open>Examples\<close>

definition demo_kvm :: "unit kvm" where
  "demo_kvm =
     \<lparr>snp = demo_snp, door = demo_denv,
      event_of = \<lambda>c. if c = 0x7B then EXIT_IOIO else if c = 0x80000001 then MMIO_READ else UNKNOWN_EXIT,
      msr_request_of = \<lambda>c. if c = 0x16 then VMPL_REQ else UNKNOWN_REQ, ERR_INVALID_USAGE = 2, ERR_MISSING_INPUT = 4,
      ERR_INVALID_EVENT = 6, ERR_INVALID_SCRATCH_AREA = 3, ERR_INVALID_INPUT = 5, IOIO_STR_MASK = 4, IOIO_TYPE_MASK = 1,
      IOIO_SIZE_MASK = 0x70, IOIO_SIZE_SHIFT = 4, SHARED_BUFFER = 0x800, RESERVED_0xff0 = 0xFF0, SEV_INFO = 1,
      HV_FT_SUPPORTED = 1, CPUID_FUNC = (0xFFFFFFFF, 32), CPUID_REG = (3, 30), CPUID_VALUE = (0xFFFFFFFF, 32),
      AP_RESET_HOLD_RESULT = (0xFFFFFFFFFFFFF, 12), HV_FT = (0xFFFFFFFFFFFFF, 12), GPA_VALUE = (0xFFFFFFFFFFFFF, 12),
      INFO = (0xFFF, 0), CPUID_RESP = 5, AP_RESET_HOLD_RESP = 7, HV_FT_RESP = 0x81, PREF_GPA_NONE = 0xFFFFFFFFFFFFF,
      PREF_GPA_RESP = 0x11, REG_GPA_RESP = 0x13, PSC_RESP = 0x15, PSC_RESP_ERROR = 0x100000015,
      PSC_REQ_TO_GFN = \<lambda>x. take_bit 40 (drop_bit 12 x), PSC_REQ_TO_OP = \<lambda>x. ucast (drop_bit 52 x), PAGE_STATE_PRIVATE = 1,
      PAGE_STATE_SHARED = 2, DOORBELL_GP = 0x8000030D, VMM_ERR_GENERIC = 0x80000000, VMM_ERR_INVALID_LEN = 1,
      VMM_ERR_BUSY = 2, GUEST_ERR = \<lambda>a b. push_bit 32 (ucast a) OR ucast b, kvzalloc_ok = \<lambda>_ _. True,
      invoke_exit_handler = \<lambda>_ s. (1, s), buses = no_buses, skip_emulated_instruction = \<lambda>s. (True, s),
      gfn_to_pfn = \<lambda>g. Some g, rmp_make_private = \<lambda>_ x. (False, x), snp_page_reclaim = \<lambda>_ x. (False, x),
      rmp_make_shared = \<lambda>_ x. (False, x), guest_request_cmd = \<lambda>_ _ x. ((False, 0), x), transaction_get_id = \<lambda>_. 2,
      transaction_is_stale = \<lambda>_ _. False, vcpu_ids = [0]\<rparr>"

text \<open>A vCPU with its GHCB page at 0x4000, registered, and the request on it.\<close>

definition demo_svm :: "u64 \<Rightarrow> (ghcb_field \<Rightarrow> u64) \<Rightarrow> ghcb_field set \<Rightarrow> unit svm" where
  "demo_svm gpa fs ok =
     \<lparr>me = 0, machine = put_vcpu 0 ((new_vcpu demo_snp 0x9000 0)\<lparr>control_ghcb_gpa := gpa\<rparr>) demo_vm, bell = demo_doorbell,
      regs = \<lambda>_. 0, xcr0 = 0, cpl = 0, exit_code = 0, exit_code_hi = 0, exit_info_1 = 0, exit_info_2 = 0, valid_bitmap = {},
      sw_scratch = 0x4810, ghcb_map_gfn = 0, ghcb_sa = None, ghcb_sa_len = 0, ghcb_registered_gpa = \<lambda>_. 0x4000,
      ghcb_pages = [4 \<mapsto> \<lparr>ghcb_usage = 0, save = fs, ghcb_valid = ok, ghcb_page = replicate 4096 0\<rparr>],
      guest_mem = \<lambda>_. None, ap_jump_table = 0, nmi_masked = False, received_first_sipi = True, snp_guest = True,
      snp_transaction_id = 0, user_exit = None, complete_userspace_io = None, io = idle_io, fw = ()\<rparr>"

lemma demo_svm_simps [simp]:
  "control_ghcb_gpa (level (demo_svm gpa fs ok)) = gpa" "snp_current_vmpl (level (demo_svm gpa fs ok)) = 0"
  "vcpus (machine (demo_svm gpa fs ok)) (me (demo_svm gpa fs ok)) \<noteq> None"
  by (simp_all add: demo_svm_def level_def put_vcpu_def new_vcpu_simps)

lemma demo_kvm_ok: "kvm_ok demo_kvm"
  by (simp add: kvm_ok_def demo_kvm_def)

lemma demo_page_there: "page_there_ghcb demo_kvm (demo_svm 0x4000 fs ok)"
  by (simp add: page_there_ghcb_def demo_kvm_def) (simp add: demo_svm_def drop_bit_eq_div)

lemma vmgexit_refines_levels_witness:
  "\<exists>s'. sev_handle_vmgexit demo_kvm 0 (demo_svm 0x100000016 (\<lambda>_. 0) {}) = Some (1, s')
     \<and> (vm_step demo_snp)\<^sup>*\<^sup>* (machine (demo_svm 0x100000016 (\<lambda>_. 0) {})) (machine s')"
proof -
  let ?s = "demo_svm 0x100000016 (\<lambda>_. 0) {}"
  obtain v p where "ghcb_msr_vmpl_req (snp demo_kvm) (level ?s) (vm_pins (machine ?s)) = (v, p)" by (metis surj_pair)
  then have h: "sev_handle_vmgexit demo_kvm 0 ?s = Some (1, with_levels v p ?s)"
    by (simp add: sev_handle_vmgexit_def sev_handle_vmgexit_msr_protocol_def) (simp add: demo_kvm_def)
  from vmgexit_refines_levels [OF demo_kvm_ok h] h show ?thesis
    by (simp add: demo_kvm_def)
qed

lemma scratch_area_in_bounds_witness:
  "\<exists>s'. setup_vmgexit_scratch demo_kvm True 8 (demo_svm 0x4000 (\<lambda>_. 0) {}) = (0, s') \<and> ghcb_sa s' = Some (In_Ghcb 0x810)"
proof -
  obtain s' where s': "setup_vmgexit_scratch demo_kvm True 8 (demo_svm 0x4000 (\<lambda>_. 0) {}) = (0, s')"
    "ghcb_sa s' = Some (In_Ghcb 0x810)"
    by (simp add: setup_vmgexit_scratch_def Let_def) (simp add: demo_svm_def demo_kvm_def)
  from scratch_area_in_bounds [OF s'(1)] s' show ?thesis by (simp add: demo_kvm_def)
qed

text \<open>An unknown event, of which the guest is told; and a string of elements of no size.\<close>

lemma demo_request_simps [simp]:
  "exit_info_1 (page_request (demo_svm 0x4000 f ok)) = f SW_EXIT_INFO_1"
  "exit_info_2 (page_request (demo_svm 0x4000 f ok)) = f SW_EXIT_INFO_2"
  "kvm_ghcb_get_sw_exit_code (page_request (demo_svm 0x4000 f ok)) =
     push_bit 32 (ucast (ucast (drop_bit 32 (f SW_EXIT_CODE)) :: u32)) OR ucast (ucast (f SW_EXIT_CODE) :: u32)"
  "valid_bitmap (page_request (demo_svm 0x4000 f ok)) = ok"
  "ghcb_usage (the_ghcb (page_request (demo_svm 0x4000 f ok))) = 0"
  "sw_scratch (page_request (demo_svm 0x4000 f ok)) = (if SW_SCRATCH \<in> ok then f SW_SCRATCH else 0)"
  "snp_guest (demo_svm gpa f ok)" "ghcb_registered_gpa (demo_svm gpa f ok) l = 0x4000"
  by (simp_all add: page_request_def sev_es_sync_from_ghcb_def kvm_ghcb_get_sw_exit_code_def get_if_valid_def the_ghcb_def
      on_level_def set_level_def Let_def) (simp_all add: demo_svm_def drop_bit_eq_div)


lemma vmgexit_returns_unless_size_0_witness:
  "sev_handle_vmgexit demo_kvm 0
     (demo_svm 0x4000 (\<lambda>f. if f = SW_EXIT_CODE then 0x7B else if f = SW_EXIT_INFO_1 then 0x3F80004 else if f = SW_SCRATCH then 0x4800 else 1)
       {SW_EXIT_CODE, SW_EXIT_INFO_1, SW_EXIT_INFO_2, SW_SCRATCH}) = None"
proof -
  let ?s = "demo_svm 0x4000 (\<lambda>f. if f = SW_EXIT_CODE then 0x7B else if f = SW_EXIT_INFO_1 then 0x3F80004 else if f = SW_SCRATCH
     then 0x4800 else 1) {SW_EXIT_CODE, SW_EXIT_INFO_1, SW_EXIT_INFO_2, SW_SCRATCH}"
  let ?t = "ghcb_answer 0 0 (page_request ?s)"
  have m: "unat (drop_bit (IOIO_SIZE_SHIFT demo_kvm) (x AND IOIO_SIZE_MASK demo_kvm)) \<le> 7" for x
  proof -
    have "x AND 0x70 \<le> 0x70" by (rule word_and_le1)
    then have "unat (x AND 0x70) \<le> 0x70" by (simp add: word_le_nat_alt)
    then have "unat (x AND 0x70) div 16 \<le> 7" by linarith
    then show ?thesis by (simp add: demo_kvm_def drop_bit_eq_div unat_div)
  qed
  have k: "exit_info_1 ?t = 0x3F80004" "exit_info_2 ?t = 1" "kvm_ghcb_get_sw_exit_code ?t = 0x7B" "sw_scratch ?t = 0x4800"
    "control_ghcb_gpa (level ?t) = 0x4000"
    by (simp_all add: ghcb_answer_keeps page_request_keeps)
  have "well_formed_request demo_kvm (page_request ?s)"
    by (simp add: well_formed_request_def inputs_of_def) (simp add: demo_kvm_def)
  with k show ?thesis
    by (simp add: vmgexit_returns_unless_size_0 [OF m refl] demo_page_there string_size_def setup_vmgexit_scratch_def
        INT_MAX_def Let_def) (simp add: demo_kvm_def)
qed

end
