(* ===== verification/Sev_Ghcb_Types.thy ===== *)
theory Sev_Ghcb_Types
  imports Sev_Ghcb
begin

text \<open>
  The pointers of a vCPU into its GHCB are good whenever they are used: the page while it is mapped, the
  buffer that is to be written back and freed, and the page that a start-up interrupt answers in.
\<close>

section \<open>Well-formed vCPUs\<close>

definition svm_ok :: "'x svm \<Rightarrow> bool" where
  "svm_ok s \<longleftrightarrow>
     has_vcpu s
     \<and> (ghcb_mapped (level s) \<longrightarrow> ghcb_pages s (ghcb_map_gfn s) \<noteq> None)
     \<and> (ghcb_sa_free (level s) \<longrightarrow> ghcb_mapped (level s) \<and> (\<exists>bs. ghcb_sa s = Some (Kernel_Buffer bs)))
     \<and> (ap_reset_hold (level s) = AP_RESET_HOLD_NAE_EVENT \<longrightarrow> ghcb_mapped (level s))"

text \<open>The handlers of KVM that are not modelled leave this so.\<close>

definition kvm_types :: "'x kvm \<Rightarrow> bool" where
  "kvm_types K \<longleftrightarrow>
     (\<forall>ev s. svm_ok s \<longrightarrow> svm_ok (snd (invoke_exit_handler K ev s)))
     \<and> (\<forall>s. svm_ok s \<longrightarrow> svm_ok (snd (skip_emulated_instruction K s)))"

text \<open>What of a vCPU this depends on.\<close>

definition flags :: "vcpu \<Rightarrow> bool \<times> bool \<times> ap_reset_hold_type" where
  "flags v = (ghcb_mapped v, ghcb_sa_free v, ap_reset_hold v)"

definition same_bufs :: "'x svm \<Rightarrow> 'x svm \<Rightarrow> bool" where
  "same_bufs s s' \<longleftrightarrow>
     (has_vcpu s \<longrightarrow> has_vcpu s' \<and> flags (level s') = flags (level s)) \<and> ghcb_map_gfn s' = ghcb_map_gfn s
     \<and> (ghcb_pages s (ghcb_map_gfn s) \<noteq> None \<longrightarrow> ghcb_pages s' (ghcb_map_gfn s) \<noteq> None)
     \<and> ((\<exists>bs. ghcb_sa s = Some (Kernel_Buffer bs)) \<longrightarrow> (\<exists>bs. ghcb_sa s' = Some (Kernel_Buffer bs)))"

lemma same_bufs_ok: "same_bufs s s' \<Longrightarrow> svm_ok s \<Longrightarrow> svm_ok s'"
  by (auto simp: same_bufs_def svm_ok_def flags_def)

lemma same_bufs_refl [simp, intro]: "same_bufs s s"
  by (simp add: same_bufs_def)

lemma same_bufs_trans: "same_bufs s t \<Longrightarrow> same_bufs t u \<Longrightarrow> same_bufs s u"
  by (auto simp: same_bufs_def)

lemma same_bufs_fields:
  "machine s' = machine s \<Longrightarrow> me s' = me s \<Longrightarrow> ghcb_map_gfn s' = ghcb_map_gfn s \<Longrightarrow> ghcb_pages s' = ghcb_pages s
     \<Longrightarrow> ghcb_sa s' = ghcb_sa s \<Longrightarrow> same_bufs s s'"
  by (simp add: same_bufs_def has_vcpu_def level_def)

lemma same_bufs_ghcb_set: "same_bufs s (ghcb_set f x s)" "same_bufs s (ghcb_answer i j s)"
  by (simp_all add: same_bufs_def ghcb_answer_def ghcb_set_def has_vcpu_def level_def Let_def)

lemma same_bufs_then:
  "same_bufs s t \<Longrightarrow> same_bufs s (ghcb_set f x t)" "same_bufs s t \<Longrightarrow> same_bufs s (ghcb_answer i j t)"
  by (blast intro: same_bufs_trans same_bufs_ghcb_set)+

lemma answer_ok: "svm_ok s \<Longrightarrow> svm_ok (ghcb_set f x s)" "svm_ok s \<Longrightarrow> svm_ok (ghcb_answer i j s)"
  by (blast intro: same_bufs_ok same_bufs_ghcb_set)+

lemma level_set_level [simp]: "level (set_level v s) = v"
  by (simp add: level_def set_level_def put_vcpu_def)

lemma set_level_fields [simp]:
  "has_vcpu (set_level v s)" "ghcb_map_gfn (set_level v s) = ghcb_map_gfn s" "ghcb_pages (set_level v s) = ghcb_pages s"
  "ghcb_sa (set_level v s) = ghcb_sa s"
  by (simp_all add: set_level_def has_vcpu_def put_vcpu_def)

lemma same_bufs_level: "flags (f (level s)) = flags (level s) \<Longrightarrow> same_bufs s (on_level f s)"
  by (simp add: same_bufs_def on_level_def)

lemma same_bufs_msr: "same_bufs s (set_msr_bits x b s)" "same_bufs s (set_ghcb_msr y s)"
  by (simp_all add: set_msr_bits_def set_ghcb_msr_def same_bufs_level flags_def set_ghcb_msr_bits_def Let_def)

section \<open>Entering the guest\<close>

lemma write_back_bufs [simp]:
  "ghcb_map_gfn (ghcb_write_back s) = ghcb_map_gfn s" "has_vcpu (ghcb_write_back s) = has_vcpu s"
  "level (ghcb_write_back s) = level s"
  by (simp_all add: ghcb_write_back_def sev_es_sync_to_ghcb_def kvm_write_guest_def ghcb_set_def has_vcpu_def level_def
      case_prod_unfold Let_def split: option.splits scratch.splits)

lemma unmap_flags: "flags (sev_es_unmap_ghcb v) = (False, ghcb_sa_free v \<and> \<not> ghcb_mapped v, AP_RESET_HOLD_NONE)"
  by (simp add: flags_def sev_es_unmap_ghcb_def Let_def)

lemma unmap_ok: "svm_ok s \<Longrightarrow> svm_ok (unmap_ghcb s) \<and> \<not> ghcb_mapped (level (unmap_ghcb s)) \<and> \<not> ghcb_sa_free (level (unmap_ghcb s))"
  using unmap_flags [of "level s"]
  by (auto simp: unmap_ghcb_def on_level_def svm_ok_def flags_def)

text \<open>A switch of levels leaves the GHCB as it is or unmaps it.\<close>

definition maybe_unmapped :: "vcpu \<Rightarrow> vcpu \<Rightarrow> bool" where
  "maybe_unmapped v w \<longleftrightarrow>
     flags w = flags v \<or> flags w = (False, ghcb_sa_free v \<and> \<not> ghcb_mapped v, AP_RESET_HOLD_NONE)"

lemma maybe_unmapped_flags:
  "flags v' = flags v \<Longrightarrow> maybe_unmapped v' w \<Longrightarrow> flags w' = flags w \<Longrightarrow> maybe_unmapped v w'"
  by (auto simp: maybe_unmapped_def flags_def)

lemma enter_target_flags:
  "flags (enter_target_vmpl v) =
     (if snp_current_vmpl v \<noteq> snp_target_vmpl v then (False, ghcb_sa_free v \<and> \<not> ghcb_mapped v, AP_RESET_HOLD_NONE) else flags v)"
  using unmap_flags [of v] by (auto simp: enter_target_vmpl_def flags_def Let_def)

lemma init_maybe:
  "sev_snp_init_protected_guest_state E v p = (b, w, q) \<Longrightarrow> maybe_unmapped v w"
proof -
  assume i: "sev_snp_init_protected_guest_state E v p = (b, w, q)"
  have u: "maybe_unmapped v w" if "sev_snp_update_protected_guest_state E v p = (r, w, q)" for v r w
    using that
    by (auto simp: sev_snp_update_protected_guest_state_def maybe_unmapped_def enter_target_flags Let_def
        split: if_splits option.splits) (simp_all add: flags_def)
  show ?thesis
  proof (cases "snp_vmsa_ap_create v (snp_target_vmpl v)")
    case True
    define v' where "v' = v\<lparr>snp_vmsa_ap_create := (snp_vmsa_ap_create v)(snp_target_vmpl v := False)\<rparr>"
    have f: "flags v' = flags v" by (simp add: v'_def flags_def)
    from True i obtain r where "sev_snp_update_protected_guest_state E v' p = (r, w, q)"
      by (auto simp: sev_snp_init_protected_guest_state_def v'_def Let_def split: prod.splits)
    from maybe_unmapped_flags [OF f u [OF this] refl] show ?thesis .
  next
    case False
    with i show ?thesis by (simp add: sev_snp_init_protected_guest_state_def maybe_unmapped_def)
  qed
qed

lemma run_maybe: "run_vmpl_vmsa E n v p = (r, w, q) \<Longrightarrow> maybe_unmapped v w"
proof -
  assume r: "run_vmpl_vmsa E n v p = (r, w, q)"
  define v' where "v' = v\<lparr>snp_target_vmpl := n\<rparr>"
  have f: "flags v' = flags v" by (simp add: v'_def flags_def)
  obtain b w' q' where i: "sev_snp_init_protected_guest_state E v' p = (b, w', q')" by (metis prod_cases3)
  show ?thesis
  proof (cases "VMPL_MAX E \<le> n \<or> n = snp_current_vmpl v")
    case True
    with r f show ?thesis by (auto simp: run_vmpl_vmsa_def maybe_unmapped_def v'_def Let_def flags_def split: if_splits)
  next
    case False
    note m = maybe_unmapped_flags [OF f init_maybe [OF i]]
    show ?thesis
    proof (cases b)
      case True
      with r False i m show ?thesis by (simp add: run_vmpl_vmsa_def v'_def)
    next
      case nb: False
      with init_no_request [OF i] have "w' = v'" by simp
      with r False i nb consider "w = v'" | "flags w = flags (sev_es_unmap_ghcb v')"
        by (auto simp: run_vmpl_vmsa_def v'_def [symmetric] flags_def load_vssa_def Let_def split: if_splits)
      then show ?thesis
        by cases (use f unmap_flags [of v'] in \<open>auto simp: maybe_unmapped_def flags_def\<close>)
    qed
  qed
qed

section \<open>Requests\<close>

lemma with_levels_bufs:
  "level (with_levels v p s) = v" "has_vcpu (with_levels v p s)" "ghcb_map_gfn (with_levels v p s) = ghcb_map_gfn s"
  "ghcb_mapped v \<Longrightarrow> ghcb_pages (with_levels v p s) = ghcb_pages s" "ghcb_mapped v \<Longrightarrow> ghcb_sa (with_levels v p s) = ghcb_sa s"
  by (simp_all add: with_levels_def set_level_def level_def has_vcpu_def put_vcpu_def Let_def)

lemma with_levels_ok: "maybe_unmapped (level s) v \<Longrightarrow> svm_ok s \<Longrightarrow> svm_ok (with_levels v p s)"
  by (auto simp: svm_ok_def maybe_unmapped_def flags_def with_levels_bufs)

lemma run_vmpl_ok: "svm_ok s \<Longrightarrow> svm_ok (run_vmpl_request K s)"
proof -
  assume ok: "svm_ok s"
  define t where "t = ghcb_answer 0 0 s"
  have t: "svm_ok t" "svm_ok (ghcb_answer i j t)" for i j
    unfolding t_def by (intro answer_ok ok)+
  obtain err v p where r: "sev_run_vmpl_vmsa (snp K) (exit_info_1 t) (level t) (vm_pins (machine t)) = (err, v, p)"
    by (metis prod_cases3)
  then have "maybe_unmapped (level t) v"
    by (auto simp: sev_run_vmpl_vmsa_def Let_def split: prod.splits if_splits dest: run_maybe)
  with t(1) have w: "svm_ok (with_levels v p t)" by (rule with_levels_ok [rotated])
  then have "svm_ok (ghcb_answer 2 0 (with_levels v p t))" by (rule answer_ok)
  with r w t show ?thesis by (simp add: run_vmpl_request_def t_def [symmetric] Let_def)
qed

lemma msr_vmpl_ok:
  assumes "svm_ok s" "ghcb_msr_vmpl_req (snp K) (level s) (vm_pins (machine s)) = (v, p)"
  shows "svm_ok (with_levels v p s)"
proof -
  have f: "flags (set_ghcb_msr_bits x b n u) = flags u" for x b n u
    by (simp add: set_ghcb_msr_bits_def flags_def Let_def)
  define u where "u = set_ghcb_msr_bits (VMPL_RESP (snp K)) (INFO_MASK (snp K)) (INFO_POS (snp K))
     (set_ghcb_msr_bits 0 (RSVD_MASK (snp K)) (RSVD_POS (snp K))
        (set_ghcb_msr_bits 0 (ERROR_MASK (snp K)) (ERROR_POS (snp K)) (level s)))"
  let ?n = "unat (ucast (get_ghcb_msr_bits (LEVEL_MASK (snp K)) (LEVEL_POS (snp K)) (level s)) :: u32)"
  obtain r w q where r: "run_vmpl_vmsa (snp K) ?n u (vm_pins (machine s)) = (r, w, q)" by (metis prod_cases3)
  have "flags u = flags (level s)" by (simp add: u_def f)
  moreover have "flags v = flags w"
    using assms(2) r by (auto simp: ghcb_msr_vmpl_req_def u_def [symmetric] f Let_def)
  ultimately have "maybe_unmapped (level s) v"
    using maybe_unmapped_flags [OF _ run_maybe [OF r]] by simp
  then show ?thesis using assms(1) by (rule with_levels_ok)
qed

lemma ap_creation_flags:
  assumes "sev_snp_ap_creation E i u info1 info2 rax m = (r, m')" "vcpus m j = Some v"
  shows "\<exists>w. vcpus m' j = Some w \<and> flags w = flags v"
proof -
  have k: "flags (kick_vcpu x) = flags x" "flags (mark_level E l x) = flags x" for x l
    by (simp_all add: kick_vcpu_def mark_level_def flags_def Let_def)
  have p: "vcpus (put_vcpu a x n) j = (if j = a then Some x else vcpus n j)" for a x n by (simp add: put_vcpu_def)
  have c: "vcpus (snd (ap_create_checks E l rax info2 m)) = vcpus m" for l by (simp add: ap_create_checks_def Let_def)
  show ?thesis
  proof (cases "ap_level E info1 < VMPL_MAX E \<and> vcpus m (ap_target info1) \<noteq> None")
    case True
    then obtain t where t: "ap_level E info1 < VMPL_MAX E" "vcpus m (ap_target info1) = Some t" by blast
    have g: "flags ((mark_level E l t)\<lparr>snp_target_vmpl := a, snp_vmsa_gpa := b\<rparr>) = flags t" for a b l
      by (simp add: mark_level_def flags_def)
    obtain ok n where n: "(if ucast info1 AND NOT (AP_VMPL_MASK E) < AP_DESTROY E
        then ap_create_checks E (ap_level E info1) rax info2 m else (True, m)) = (ok, n)" by (metis surj_pair)
    then have "vcpus n = vcpus m" using c [of "ap_level E info1"] by (metis snd_conv)
    with assms t n show ?thesis
      unfolding ap_creation_eq [OF t] by (auto simp: Let_def p k g split: if_splits)
  next
    case False
    with assms show ?thesis
      by (auto simp: sev_snp_ap_creation_def ap_level_def ap_target_def Let_def split: if_splits)
  qed
qed

lemma ap_creation_request_ok: "svm_ok s \<Longrightarrow> svm_ok (ap_creation_request K s)"
proof -
  assume ok: "svm_ok s"
  obtain r m where c: "sev_snp_ap_creation (snp K) (me s) (level s) (exit_info_1 s) (exit_info_2 s) (regs s RAX) (machine s) = (r, m)"
    by (metis surj_pair)
  obtain v where v: "vcpus (machine s) (me s) = Some v" using ok by (auto simp: svm_ok_def has_vcpu_def)
  from ap_creation_flags [OF c v] v have "same_bufs s (s\<lparr>machine := m\<rparr>)"
    by (auto simp: same_bufs_def has_vcpu_def level_def)
  with ok have o: "svm_ok (s\<lparr>machine := m\<rparr>)" by (rule same_bufs_ok [rotated])
  then have "svm_ok (ghcb_answer i j (s\<lparr>machine := m\<rparr>))" for i j by (rule answer_ok)
  with o c show ?thesis by (simp add: ap_creation_request_def Let_def)
qed

lemma setup_scratch_ok:
  assumes "svm_ok s" "ghcb_mapped (level s)" "\<not> ghcb_sa_free (level s)"
  shows "svm_ok (snd (setup_vmgexit_scratch K sync len s))"
proof -
  have a: "svm_ok (ghcb_answer i j s)" for i j using assms(1) by (rule answer_ok)
  have l: "level (s\<lparr>ghcb_sa := x, ghcb_sa_len := n\<rparr>) = level s" "has_vcpu (s\<lparr>ghcb_sa := x, ghcb_sa_len := n\<rparr>) = has_vcpu s" for x n
    by (simp_all add: level_def has_vcpu_def)
  have g: "svm_ok (s\<lparr>ghcb_sa := x, ghcb_sa_len := n\<rparr>)" for x n using assms by (simp add: svm_ok_def l)
  have k: "svm_ok ((on_level (\<lambda>v. v\<lparr>ghcb_sa_sync := sync, ghcb_sa_free := True\<rparr>) s)\<lparr>ghcb_sa := Some (Kernel_Buffer bs), ghcb_sa_len := n\<rparr>)"
    for bs n
    using assms by (auto simp: svm_ok_def on_level_def set_level_def level_def has_vcpu_def put_vcpu_def)
  show ?thesis
    using assms(1) by (auto simp: setup_vmgexit_scratch_def a g k Let_def split: option.splits)
qed

lemma io_step_bufs: "same_bufs s (snd (io_step r s))"
  by (auto simp: io_step_def sa_store_def same_bufs_def has_vcpu_def level_def case_prod_unfold Let_def
      split: option.splits scratch.splits)

lemma string_io_ok:
  assumes "svm_ok s" "ghcb_mapped (level s)" "\<not> ghcb_sa_free (level s)" "sev_es_string_io K siz port inp s = Some (r, s')"
  shows "svm_ok s'"
  using assms setup_scratch_ok [OF assms(1-3), of K inp "word_of_int (uint (exit_info_2 s) * uint siz)"]
  by (auto simp: sev_es_string_io_def Let_def case_prod_unfold split: if_splits)
    (metis same_bufs_ok io_step_bufs snd_conv)

lemma mmio_ok:
  assumes "svm_ok s" "ghcb_mapped (level s)" "\<not> ghcb_sa_free (level s)"
  shows "svm_ok (snd (mmio_request K rd s))"
  using setup_scratch_ok [OF assms, of K rd "exit_info_2 s"]
  by (auto simp: mmio_request_def Let_def case_prod_unfold intro: same_bufs_ok [OF io_step_bufs])

lemma reset_hold_ok: "kvm_types K \<Longrightarrow> svm_ok s \<Longrightarrow> svm_ok (snd (kvm_emulate_ap_reset_hold K s))"
proof -
  assume k: "kvm_types K" and "svm_ok s"
  let ?t = "snd (skip_emulated_instruction K s)"
  have t: "svm_ok ?t" using k \<open>svm_ok s\<close> by (simp add: kvm_types_def)
  have "same_bufs ?t (on_level (\<lambda>v. v\<lparr>mp_state := AP_RESET_HOLD\<rparr>) ?t)" by (rule same_bufs_level) (simp add: flags_def)
  moreover have "same_bufs ?t (?t\<lparr>user_exit := x\<rparr>)" for x by (rule same_bufs_fields) simp_all
  ultimately show ?thesis
    using same_bufs_ok [OF _ t] by (auto simp: kvm_emulate_ap_reset_hold_def Let_def case_prod_unfold)
qed

lemma simple_requests:
  "same_bufs s (ap_jump_table_request K s)" "same_bufs s (snp_handle_guest_req K a b s)"
  "same_bufs s (snd (snp_begin_ext_guest_req K junk s))" "same_bufs s (sev_get_apic_ids K s)" "same_bufs s (doorbell_request K s)"
  "same_bufs s (snd (snp_begin_psc_msr K x s))"
proof -
  note f = same_bufs_then same_bufs_fields
  show "same_bufs s (ap_jump_table_request K s)" by (auto simp: ap_jump_table_request_def intro!: f)
  show "same_bufs s (snp_handle_guest_req K a b s)"
    by (auto simp: snp_handle_guest_req_def do_handle_guest_req_def case_prod_unfold Let_def split: option.splits intro!: f)
  show "same_bufs s (snd (snp_begin_ext_guest_req K junk s))"
    by (auto simp: snp_begin_ext_guest_req_def Let_def intro!: f)
  show "same_bufs s (sev_get_apic_ids K s)"
  proof -
    have w: "same_bufs s (snd (kvm_write_guest a bs (ghcb_answer 2 5 s)))" for a bs
      by (rule same_bufs_trans [OF same_bufs_ghcb_set(2) [of s 2 5]])
        (simp add: kvm_write_guest_def case_prod_unfold Let_def same_bufs_fields)
    show ?thesis
      using same_bufs_fields [of "s\<lparr>regs := x\<rparr>" s for x]
      by (auto simp: sev_get_apic_ids_def case_prod_unfold Let_def w split: option.splits intro!: f(1,2))
  qed
  show "same_bufs s (doorbell_request K s)"
    by (auto simp: doorbell_request_def case_prod_unfold Let_def split: option.splits intro!: f)
  show "same_bufs s (snd (snp_begin_psc_msr K x s))"
    by (auto simp: snp_begin_psc_msr_def Let_def same_bufs_msr intro!: f)
qed

text \<open>What the exit can rely on: the GHCB was unmapped when the guest was entered.\<close>

lemma switch_ok:
  assumes "kvm_types K" "svm_ok s" "ghcb_mapped (level s)" "\<not> ghcb_sa_free (level s)"
    and "vmgexit_switch K junk s = Some (r, s')"
  shows "svm_ok s'"
proof -
  have other: "svm_ok (snd (invoke_exit_handler K ev s))" for ev using assms(1,2) by (simp add: kvm_types_def)
  have b: "svm_ok t" if "same_bufs s t" for t using that assms(2) by (rule same_bufs_ok)
  note q = simple_requests [THEN b]
  have hold: "svm_ok (snd (kvm_emulate_ap_reset_hold K (on_level (\<lambda>v. v\<lparr>ap_reset_hold := AP_RESET_HOLD_NAE_EVENT\<rparr>) s)))"
    using assms(2,3) by (intro reset_hold_ok [OF assms(1)]) (simp add: svm_ok_def on_level_def)
  note mm = mmio_ok [OF assms(2-4)]
  have plain: "svm_ok (s\<lparr>nmi_masked := m, bell := d\<rparr>)" "svm_ok (s\<lparr>user_exit := e\<rparr>)"
    "svm_ok (s\<lparr>user_exit := e, complete_userspace_io := c\<rparr>)" for m d e c
    by (intro b same_bufs_fields; simp)+
  show ?thesis
  proof (cases "event_of K (kvm_ghcb_get_sw_exit_code s)")
    case EXIT_IOIO
    with assms(5) show ?thesis
      by (auto simp: vmgexit_switch_def io_interception_def Let_def split: if_splits
          dest: string_io_ok [OF assms(2-4)]) (metis other snd_conv)
  next
    case MMIO_READ
    with assms(5) mm [of K True] show ?thesis by (simp add: vmgexit_switch_def)
  next
    case MMIO_WRITE
    with assms(5) mm [of K False] show ?thesis by (simp add: vmgexit_switch_def)
  next
    case AP_HLT_LOOP
    with assms(5) hold show ?thesis by (simp add: vmgexit_switch_def)
  next
    case EXT_GUEST_REQUEST
    with assms(5) q(3) [of K junk] show ?thesis by (simp add: vmgexit_switch_def)
  next
    case RUN_VMPL
    with assms(2,5) show ?thesis by (auto simp: vmgexit_switch_def run_vmpl_ok)
  next
    case UNSUPPORTED_EVENT
    with assms(2,5) show ?thesis by (simp add: vmgexit_switch_def)
  next
    case AP_CREATION
    with assms(2,5) show ?thesis by (auto simp: vmgexit_switch_def ap_creation_request_ok)
  qed (use assms(5) other [of "event_of K (kvm_ghcb_get_sw_exit_code s)"] in
      \<open>auto simp: vmgexit_switch_def q plain answer_ok [OF assms(2)] assms(2)\<close>)
qed

lemma msr_protocol_ok: "kvm_types K \<Longrightarrow> svm_ok s \<Longrightarrow> svm_ok (snd (sev_handle_vmgexit_msr_protocol K s))"
proof -
  assume k: "kvm_types K" and ok: "svm_ok s"
  have b: "svm_ok t" if "same_bufs s t" for t using that ok by (rule same_bufs_ok)
  have bits: "svm_ok (set_msr_bits x a t)" "svm_ok (set_ghcb_msr y t)" if "svm_ok t" for x a y t
    using that same_bufs_ok same_bufs_msr by blast+
  have cpuid: "svm_ok (snd (invoke_exit_handler K EXIT_CPUID (s\<lparr>regs := x\<rparr>)))" for x
    using k b [OF same_bufs_fields, of "s\<lparr>regs := x\<rparr>"] by (simp add: kvm_types_def)
  have hold: "svm_ok (snd (kvm_emulate_ap_reset_hold K (on_level (\<lambda>v. v\<lparr>ap_reset_hold := AP_RESET_HOLD_MSR_PROTO\<rparr>) s)))"
    using ok by (intro reset_hold_ok [OF k]) (simp add: svm_ok_def on_level_def)
  have reg: "svm_ok (s\<lparr>ghcb_registered_gpa := g\<rparr>)" "svm_ok (s\<lparr>user_exit := e\<rparr>)" for g e by (intro b same_bufs_fields; simp)+
  show ?thesis
  proof (cases "msr_request_of K (control_ghcb_gpa (level s) AND fst (INFO K))")
    case VMPL_REQ
    then show ?thesis using msr_vmpl_ok [OF ok]
      by (auto simp: sev_handle_vmgexit_msr_protocol_def split: prod.splits)
  next
    case PSC_REQ
    then show ?thesis using simple_requests(6) [THEN b] by (simp add: sev_handle_vmgexit_msr_protocol_def)
  qed (use ok in \<open>auto simp: sev_handle_vmgexit_msr_protocol_def case_prod_unfold Let_def intro!: bits cpuid hold reg\<close>)
qed

lemma page_request_ok:
  assumes "svm_ok s" "page_there_ghcb K s"
  shows "svm_ok (page_request s)" "ghcb_mapped (level (page_request s))"
    "ghcb_sa_free (level (page_request s)) = ghcb_sa_free (level s)"
  using assms
  by (auto simp: svm_ok_def page_request_keeps page_there_ghcb_def)
    (auto simp: page_request_def sev_es_sync_from_ghcb_def on_level_def has_vcpu_def set_level_def put_vcpu_def Let_def)

lemma vmgexit_ok:
  assumes "kvm_types K" "svm_ok s" "\<not> ghcb_sa_free (level s)" "sev_handle_vmgexit K junk s = Some (r, s')"
  shows "svm_ok s'"
proof (cases "page_there_ghcb K s")
  case False
  with assms(2,4) msr_protocol_ok [OF assms(1,2)] show ?thesis
    by (auto simp: sev_handle_vmgexit_def page_there_ghcb_def Let_def split: if_splits)
next
  case True
  let ?t = "page_request s"
  note t = page_request_ok [OF assms(2) True]
  have a: "svm_ok (ghcb_answer i j ?t)" for i j using t(1) by (rule answer_ok)
  from assms(4) vmgexit_by_page [OF True refl, of junk] consider "s' = ?t" | i j where "s' = ghcb_answer i j ?t"
    | "vmgexit_switch K junk (ghcb_answer 0 0 ?t) = Some (r, s')"
    by (auto simp: validate_accepts split: if_splits)
  then show ?thesis
  proof cases
    case 3
    from switch_ok [OF assms(1) a _ _ 3] t(2,3) assms(3) show ?thesis by simp
  qed (use t a in simp_all)
qed

text \<open>
  C17  The pointers of a vCPU into its GHCB are good.  If a vCPU is well-formed, its GHCB, while mapped, is
  a page that is there, a buffer marked to be freed is one the host allocated, and a start-up interrupt
  finds the page it answers in.  Entering the guest, which unmaps the page, any request of the guest
  after that, whether it succeeds or not, and a start-up interrupt leave the vCPU well-formed.
\<close>
theorem vcpu_stays_well_formed:
  assumes "kvm_types K" "svm_ok s"
  shows "svm_ok (unmap_ghcb s) \<and> \<not> ghcb_mapped (level (unmap_ghcb s)) \<and> \<not> ghcb_sa_free (level (unmap_ghcb s))
    \<and> (\<not> ghcb_sa_free (level s) \<longrightarrow> sev_handle_vmgexit K junk s = Some (r, s') \<longrightarrow> svm_ok s')
    \<and> (ap_reset_hold (level s) = AP_RESET_HOLD_NAE_EVENT \<longrightarrow> ghcb_pages s (ghcb_map_gfn s) \<noteq> None)
    \<and> svm_ok (sev_vcpu_deliver_sipi_vector K s)"
proof -
  have "same_bufs s (sev_vcpu_deliver_sipi_vector K s)"
    by (auto simp: sev_vcpu_deliver_sipi_vector_def same_bufs_ghcb_set split: ap_reset_hold_type.splits
        intro: same_bufs_fields same_bufs_trans [OF same_bufs_msr(1) same_bufs_msr(1)])
  from same_bufs_ok [OF this assms(2)] show ?thesis
    using unmap_ok [OF assms(2)] vmgexit_ok [OF assms] assms(2) by (auto simp: svm_ok_def)
qed

lemma vcpu_stays_well_formed_witness:
  "\<exists>s'. sev_handle_vmgexit demo_kvm 0 (demo_svm 0x4000 (\<lambda>_. 0) {SW_EXIT_CODE}) = Some (1, s') \<and> svm_ok s' \<and> svm_ok (unmap_ghcb s')"
proof -
  let ?s = "demo_svm 0x4000 (\<lambda>_. 0) {SW_EXIT_CODE}"
  have k: "kvm_types demo_kvm" by (simp add: kvm_types_def demo_kvm_def)
  have l: "level ?s = (new_vcpu demo_snp 0x9000 0)\<lparr>control_ghcb_gpa := 0x4000\<rparr>"
    by (simp add: level_def demo_svm_def put_vcpu_def)
  have f: "\<not> ghcb_mapped (level ?s)" "\<not> ghcb_sa_free (level ?s)" "ap_reset_hold (level ?s) \<noteq> AP_RESET_HOLD_NAE_EVENT"
    by (simp_all add: l new_vcpu_def sev_es_vcpu_reset_def svm_vcpu_create_def zero_vcpu_def reset_levels Let_def)
  then have ok: "svm_ok ?s" by (simp add: svm_ok_def has_vcpu_def)
  have n: "\<not> well_formed_request demo_kvm (page_request ?s)"
    by (simp add: well_formed_request_def) (simp add: demo_kvm_def)
  then obtain s' where h: "sev_handle_vmgexit demo_kvm 0 ?s = Some (1, s')"
    by (simp add: vmgexit_by_page [OF demo_page_there refl] page_request_keeps validate_accepts)
  have ok': "svm_ok s'" using vcpu_stays_well_formed [OF k ok, of 0 1 s'] h f(2) by blast
  moreover have "svm_ok (unmap_ghcb s')" using vcpu_stays_well_formed [OF k ok'] by blast
  ultimately show ?thesis using h by blast
qed

end
