(* ===== verification/Sev_Asid.thy ===== *)
theory Sev_Asid
  imports Sev_Doorbell
begin

text \<open>
  The host: how \<open>host/kvm/svm/sev.c\<close> gives address space identifiers (ASIDs) to encrypted guests.  An ASID
  names the key of a guest; one that a guest has given back may only be used again after the caches
  were written back and flushed.  The state of the host is the record \<open>host\<close>, used by the theories on the
  launch and the life of a guest too; \<open>events\<close> is its history, the newest event first.  The firmware, the
  cgroup limits, the memory of user programs and the reverse map table are the parameter \<open>E\<close>.
\<close>

section \<open>State\<close>

text \<open>Commands to the firmware with the members the host fills in; contexts and pages by their address.\<close>

datatype fw_cmd =
    DF_FLUSH | SNP_DF_FLUSH
  | LAUNCH_START u32 u32 "byte list option" "byte list option" | ACTIVATE u32 nat | DEACTIVATE u32 | DECOMMISSION u32
  | LAUNCH_UPDATE_DATA u32 u64 u32 | LAUNCH_UPDATE_VMSA u32 u64 | LAUNCH_FINISH u32 | GUEST_STATUS u32
  | SEND_FINISH u32 | SEND_CANCEL u32 | RECEIVE_START u32 u32 "byte list option" "byte list option" | RECEIVE_FINISH u32
  | SNP_GCTX_CREATE u64 | SNP_LAUNCH_START u64 u64 "byte list" | SNP_ACTIVATE u64 nat
  | SNP_LAUNCH_UPDATE u64 u64 nat "byte list"
  | SNP_LAUNCH_FINISH u64 "byte list option" "byte list option" bool "byte list"
  | SNP_DECOMMISSION u64 | SNP_PAGE_RECLAIM u64

datatype event = Wbinvd | Clflush u64 u64 | Cmd fw_cmd int | Took nat | Freed nat

record enc_region =
  region_npages :: u64
  region_pages :: "u64 list"
  region_uaddr :: u64
  region_size :: u64

record kvm_sev_info =
  sev_active :: bool
  es_active :: bool
  snp_active :: bool
  asid :: nat
  handle :: u32
  sev_dev_fd :: int
  pages_locked :: u64
  regions_list :: "enc_region list"
  enc_context_owner :: "nat option"
  mirror_vms :: "nat list"
  misc_cg :: "nat option"
  migration_in_progress :: bool
  snp_init_flags :: u64
  snp_context :: "u64 option"
  features_of_level :: "nat \<Rightarrow> u64"

text \<open>The members of the save area that are not copied from the VMCB one by one are \<open>save_base\<close>.\<close>

record save_area =
  save_base :: "byte list"
  save_vmpl :: nat
  save_regs :: "nat \<Rightarrow> u64"
  save_rip :: u64
  save_xcr0 :: u64
  save_pkru :: u64
  save_xss :: u64
  save_dr6 :: u64
  save_features :: u64

record vm_vcpu =
  vcpu_id :: nat
  es_state :: vcpu
  guest_state_protected :: bool
  vmsa_page :: u64
  vmsa :: save_area
  guest_debug :: bool
  vmcb_base :: "byte list"
  vmcb_vmpl :: nat
  vmcb_dr7 :: u64
  arch_regs :: "nat \<Rightarrow> u64"
  arch_rip :: u64
  arch_xcr0 :: u64
  arch_pkru :: u64
  arch_xss :: u64
  arch_dr6 :: u64
  lapic_in_kernel :: bool

record kvm_vm =
  sev_info :: kvm_sev_info
  created_vcpus :: nat
  vm_vcpus :: "vm_vcpu list"
  users_count :: int
  vm_dead :: bool

text \<open>\<open>fds\<close> of a guest counts the references to it that other guests do not hold, \<open>gone\<close> is set when it was destroyed.\<close>

record 'x host =
  kvms :: "nat \<Rightarrow> kvm_vm"
  fds :: "nat \<Rightarrow> nat"
  gone :: "nat \<Rightarrow> bool"
  sev_asid_bitmap :: "nat set"
  sev_reclaim_asid_bitmap :: "nat set"
  sev_vmcbs :: "nat \<Rightarrow> nat \<Rightarrow> nat option"
  charges :: "bool \<Rightarrow> nat \<Rightarrow> int"
  events :: "event list"
  held_pages :: "u64 \<Rightarrow> int"
  leaked_pages :: "u64 set"
  freed_pages :: "u64 list"
  zapped :: "(nat \<times> u64 \<times> u64) list"
  arrays :: int
  world :: 'x

text \<open>The ids of the commands of user space; the ones whose handlers only move buffers are \<open>KVM_SEV_OTHER\<close>.\<close>

datatype sev_cmd_id =
    KVM_SEV_INIT | KVM_SEV_ES_INIT | KVM_SEV_SNP_INIT | KVM_SEV_LAUNCH_START | KVM_SEV_LAUNCH_UPDATE_DATA
  | KVM_SEV_LAUNCH_UPDATE_VMSA | KVM_SEV_LAUNCH_FINISH | KVM_SEV_GUEST_STATUS | KVM_SEV_DBG_DECRYPT
  | KVM_SEV_DBG_ENCRYPT | KVM_SEV_SEND_FINISH | KVM_SEV_SEND_CANCEL | KVM_SEV_RECEIVE_START | KVM_SEV_RECEIVE_FINISH
  | KVM_SEV_SNP_LAUNCH_START | KVM_SEV_SNP_LAUNCH_UPDATE | KVM_SEV_SNP_LAUNCH_FINISH
  | KVM_SEV_OTHER nat | KVM_SEV_UNKNOWN

record sev_cmd =
  cmd_id :: sev_cmd_id
  cmd_data :: u64
  cmd_error :: int
  cmd_fd :: int

text \<open>Parameters of the launch commands, and a memory slot.\<close>

record launch_update_params =
  lu_uaddr :: u64
  lu_len :: u64
  lu_page_type :: nat
  lu_perms :: "byte list"

record launch_finish_params =
  lf_id_block :: "u64 option"
  lf_id_auth :: u64
  lf_auth_key :: bool
  lf_host_data :: "byte list"

record legacy_start =
  ls_handle :: u32
  ls_policy :: u32
  ls_dh :: "(u64 \<times> nat) option"
  ls_session :: "(u64 \<times> nat) option"

record memslot =
  base_gfn :: u64
  slot_npages :: u64
  userspace_addr :: u64
  can_be_private :: bool

text \<open>
  The environment: constants and settings, the firmware driver, cgroups, user memory, the memory of the
  guests, the reverse map table and the pinning of user pages.
\<close>

record 'x sev_env =
  min_sev_asid :: nat
  max_sev_asid :: nat
  sev_enabled :: bool
  sev_es_enabled :: bool
  sev_snp_enabled :: bool
  RESTRICTED_INJET :: u64
  SVSM :: u64
  firmware :: "fw_cmd \<Rightarrow> 'x \<Rightarrow> int \<times> int \<times> 'x"
  firmware_fd :: "int \<Rightarrow> fw_cmd \<Rightarrow> 'x \<Rightarrow> int \<times> int \<times> 'x"
  fd_open :: "int \<Rightarrow> 'x \<Rightarrow> bool"
  platform_init :: "'x \<Rightarrow> int \<times> int \<times> 'x"
  cg_try_charge :: "bool \<Rightarrow> nat \<Rightarrow> int \<Rightarrow> int"
  current_cg :: "'x \<Rightarrow> nat"
  get_init_flags :: "u64 \<Rightarrow> 'x \<Rightarrow> u64 option"
  put_init_flags :: "u64 \<Rightarrow> u64 \<Rightarrow> 'x \<Rightarrow> bool \<times> 'x"
  get_launch_start :: "u64 \<Rightarrow> 'x \<Rightarrow> (u64 \<times> byte list) option"
  get_launch_update :: "u64 \<Rightarrow> 'x \<Rightarrow> launch_update_params option"
  get_launch_finish :: "u64 \<Rightarrow> 'x \<Rightarrow> launch_finish_params option"
  LAUNCH_FINISH_SIZE :: nat
  ID_BLOCK_SIZE :: nat
  ID_AUTH_SIZE :: nat
  copy_user_blob :: "u64 \<Rightarrow> nat \<Rightarrow> 'x \<Rightarrow> int + byte list"
  alloc_firmware_page :: "'x \<Rightarrow> u64 option \<times> 'x"
  free_firmware_page :: "u64 \<Rightarrow> 'x \<Rightarrow> 'x"
  kmalloc_ok :: "nat \<Rightarrow> 'x \<Rightarrow> bool"
  memslots :: "nat \<Rightarrow> memslot list"
  gmem_get_pfn :: "nat \<Rightarrow> u64 \<Rightarrow> bool \<Rightarrow> 'x \<Rightarrow> int \<times> u64 \<times> nat \<times> 'x"
  rmp_lookup :: "u64 \<Rightarrow> 'x \<Rightarrow> int \<times> bool \<times> nat"
  rmp_make_private :: "u64 \<Rightarrow> u64 \<Rightarrow> nat \<Rightarrow> nat \<Rightarrow> bool \<Rightarrow> 'x \<Rightarrow> int \<times> 'x"
  rmp_make_shared :: "u64 \<Rightarrow> nat \<Rightarrow> 'x \<Rightarrow> int \<times> 'x"
  psmash :: "u64 \<Rightarrow> 'x \<Rightarrow> int \<times> 'x"
  addr_valid :: "u64 \<Rightarrow> bool"
  mem_is_private :: "nat \<Rightarrow> u64 \<Rightarrow> 'x \<Rightarrow> bool"
  gfn_to_memslot :: "nat \<Rightarrow> u64 \<Rightarrow> memslot option"
  sme_coherent :: bool
  vm_page_flush :: "u64 \<Rightarrow> nat \<Rightarrow> 'x \<Rightarrow> int \<times> 'x"
  read_guest_page :: "nat \<Rightarrow> u64 \<Rightarrow> u64 \<Rightarrow> 'x \<Rightarrow> int \<times> 'x"
  write_guest_page :: "nat \<Rightarrow> u64 \<Rightarrow> u64 \<Rightarrow> 'x \<Rightarrow> int \<times> 'x"
  PAGE_TYPE_CPUID :: nat
  PAGE_TYPE_VMSA :: nat
  RET_INVALID_PARAM :: int
  DR7_FIXED_1 :: u64
  SEV_FEAT_SNP_ACTIVE :: u64
  SEV_FEAT_RESTRICTED_INJECTION :: u64
  SEV_FEAT_DEBUG_SWAP :: u64
  debug_swap_enabled :: bool
  enable_x2apic :: "'x \<Rightarrow> int \<times> 'x"
  lock_killable :: "'x \<Rightarrow> int \<times> 'x"
  file_of :: "int \<Rightarrow> 'x \<Rightarrow> (nat option) option"
  lock_limit :: u64
  ipc_lock :: bool
  pin_user_pages :: "u64 \<Rightarrow> u64 \<Rightarrow> 'x \<Rightarrow> u64 list \<times> 'x"
  REGION_SIZE :: nat
  INVALID_PA :: u64
  get_cmd :: "u64 \<Rightarrow> 'x \<Rightarrow> sev_cmd option"
  put_cmd :: "u64 \<Rightarrow> sev_cmd \<Rightarrow> 'x \<Rightarrow> bool \<times> 'x"
  get_legacy_start :: "u64 \<Rightarrow> 'x \<Rightarrow> legacy_start option"
  put_started_handle :: "u64 \<Rightarrow> u32 \<Rightarrow> 'x \<Rightarrow> bool \<times> 'x"
  put_guest_status :: "u64 \<Rightarrow> 'x \<Rightarrow> bool \<times> 'x"
  started_handle :: "'x \<Rightarrow> u32"
  get_update_data :: "u64 \<Rightarrow> 'x \<Rightarrow> (u64 \<times> u32) option"
  legacy_command :: "sev_cmd_id \<Rightarrow> kvm_sev_info \<Rightarrow> sev_cmd \<Rightarrow> 'x \<Rightarrow> int \<times> sev_cmd \<times> 'x"

definition EBUSY :: int where "EBUSY = 16"

definition EBADF :: int where "EBADF = 9"

definition EOPNOTSUPP :: int where "EOPNOTSUPP = 95"

definition SEV_SNP_SUPPORTED_FLAGS :: "'x sev_env \<Rightarrow> u64" where
  "SEV_SNP_SUPPORTED_FLAGS E = RESTRICTED_INJET E OR SVSM E"

definition sev_of :: "nat \<Rightarrow> 'x host \<Rightarrow> kvm_sev_info" where
  "sev_of k s = sev_info (kvms s k)"

definition on_sev :: "nat \<Rightarrow> (kvm_sev_info \<Rightarrow> kvm_sev_info) \<Rightarrow> 'x host \<Rightarrow> 'x host" where
  "on_sev k f s = s\<lparr>kvms := (kvms s)(k := (kvms s k)\<lparr>sev_info := f (sev_info (kvms s k))\<rparr>)\<rparr>"

definition sev_guest :: "nat \<Rightarrow> 'x host \<Rightarrow> bool" where
  "sev_guest k s \<longleftrightarrow> sev_active (sev_of k s)"

definition sev_es_guest :: "nat \<Rightarrow> 'x host \<Rightarrow> bool" where
  "sev_es_guest k s \<longleftrightarrow> es_active (sev_of k s) \<and> sev_active (sev_of k s)"

definition sev_snp_guest :: "nat \<Rightarrow> 'x host \<Rightarrow> bool" where
  "sev_snp_guest k s \<longleftrightarrow> sev_es_guest k s \<and> snp_active (sev_of k s)"

definition has_snp_feature :: "kvm_sev_info \<Rightarrow> u64 \<Rightarrow> bool" where
  "has_snp_feature i flag \<longleftrightarrow> snp_init_flags i AND flag \<noteq> 0"

definition is_mirroring_enc_context :: "nat \<Rightarrow> 'x host \<Rightarrow> bool" where
  "is_mirroring_enc_context k s \<longleftrightarrow> enc_context_owner (sev_of k s) \<noteq> None"

section \<open>Firmware commands\<close>

definition sev_do_cmd :: "'x sev_env \<Rightarrow> fw_cmd \<Rightarrow> 'x host \<Rightarrow> int \<times> int \<times> 'x host" where
  "sev_do_cmd E c s =
     (let (ret, err, x) = firmware E c (world s) in (ret, err, s\<lparr>world := x, events := Cmd c ret # events s\<rparr>))"

definition do_issue_cmd :: "'x sev_env \<Rightarrow> int \<Rightarrow> fw_cmd \<Rightarrow> int \<Rightarrow> 'x host \<Rightarrow> int \<times> int \<times> 'x host" where
  "do_issue_cmd E fd c error s =
     (if \<not> fd_open E fd (world s) then (- EBADF, error, s)
      else (let (ret, err, x) = firmware_fd E fd c (world s) in (ret, err, s\<lparr>world := x, events := Cmd c ret # events s\<rparr>)))"

definition sev_issue_cmd :: "'x sev_env \<Rightarrow> nat \<Rightarrow> fw_cmd \<Rightarrow> int \<Rightarrow> 'x host \<Rightarrow> int \<times> int \<times> 'x host" where
  "sev_issue_cmd E k c error s = do_issue_cmd E (sev_dev_fd (sev_of k s)) c error s"

definition wbinvd_on_all_cpus :: "'x host \<Rightarrow> 'x host" where
  "wbinvd_on_all_cpus s = s\<lparr>events := Wbinvd # events s\<rparr>"

section \<open>The pool of ASIDs\<close>

function find_next_bit :: "nat set \<Rightarrow> nat \<Rightarrow> nat \<Rightarrow> nat" where
  "find_next_bit b n i = (if n \<le> i then n else if i \<in> b then i else find_next_bit b n (Suc i))"
  by auto
termination by (relation "measure (\<lambda>(b, n, i). n - i)") auto

declare find_next_bit.simps [simp del]

function find_next_zero_bit :: "nat set \<Rightarrow> nat \<Rightarrow> nat \<Rightarrow> nat" where
  "find_next_zero_bit b n i = (if n \<le> i then n else if i \<notin> b then i else find_next_zero_bit b n (Suc i))"
  by auto
termination by (relation "measure (\<lambda>(b, n, i). n - i)") auto

declare find_next_zero_bit.simps [simp del]

definition nr_asids :: "'x sev_env \<Rightarrow> nat" where
  "nr_asids E = max_sev_asid E + 1"

definition bitmap_xor :: "nat set \<Rightarrow> nat set \<Rightarrow> nat set" where
  "bitmap_xor a b = (a - b) \<union> (b - a)"

definition sev_flush_asids :: "'x sev_env \<Rightarrow> int \<Rightarrow> int \<Rightarrow> 'x host \<Rightarrow> int \<times> 'x host" where
  "sev_flush_asids E min_asid max_asid s =
     (let a = find_next_bit (sev_reclaim_asid_bitmap s) (nr_asids E) (nat min_asid)
      in if max_asid < int a then (- EBUSY, s)
         else (let s = wbinvd_on_all_cpus s;
                   (ret, _, s) = sev_do_cmd E (if sev_snp_enabled E then SNP_DF_FLUSH else DF_FLUSH) s
               in (ret, s)))"

definition sev_recycle_asids :: "'x sev_env \<Rightarrow> int \<Rightarrow> int \<Rightarrow> 'x host \<Rightarrow> bool \<times> 'x host" where
  "sev_recycle_asids E min_asid max_asid s =
     (let (ret, s) = sev_flush_asids E min_asid max_asid s
      in if ret \<noteq> 0 then (False, s)
         else (True, s\<lparr>sev_asid_bitmap := bitmap_xor (sev_asid_bitmap s) (sev_reclaim_asid_bitmap s),
                        sev_reclaim_asid_bitmap := {}\<rparr>))"

definition sev_misc_cg_try_charge :: "'x sev_env \<Rightarrow> nat \<Rightarrow> 'x host \<Rightarrow> int \<times> 'x host" where
  "sev_misc_cg_try_charge E k s =
     (let es = es_active (sev_of k s)
      in case misc_cg (sev_of k s) of
           None \<Rightarrow> (- EINVAL, s)
         | Some cg \<Rightarrow>
             (let ret = cg_try_charge E es cg (charges s es cg)
              in (ret, if ret \<noteq> 0 then s
                       else s\<lparr>charges := (charges s)(es := (charges s es)(cg := charges s es cg + 1))\<rparr>)))"

definition sev_misc_cg_uncharge :: "nat \<Rightarrow> 'x host \<Rightarrow> 'x host" where
  "sev_misc_cg_uncharge k s =
     (let es = es_active (sev_of k s)
      in case misc_cg (sev_of k s) of
           None \<Rightarrow> s
         | Some cg \<Rightarrow> s\<lparr>charges := (charges s)(es := (charges s es)(cg := charges s es cg - 1))\<rparr>)"

text \<open>The search, \<open>again:\<close>; it is tried a second time only if the first recycled.\<close>

function search_asid :: "'x sev_env \<Rightarrow> bool \<Rightarrow> int \<Rightarrow> int \<Rightarrow> 'x host \<Rightarrow> int \<times> 'x host" where
  "search_asid E retry min_asid max_asid s =
     (let a = find_next_zero_bit (sev_asid_bitmap s) (nat (max_asid + 1)) (nat min_asid)
      in if max_asid < int a
         then (if retry
               then (let (ok, s) = sev_recycle_asids E min_asid max_asid s
                     in if ok then search_asid E False min_asid max_asid s else (- EBUSY, s))
               else (- EBUSY, s))
         else (int a, s\<lparr>sev_asid_bitmap := insert a (sev_asid_bitmap s), events := Took a # events s\<rparr>))"
  by auto
termination by (relation "measure (\<lambda>(E, retry, _). if retry then 1 else 0)") auto

declare search_asid.simps [simp del]

definition min_asid_of :: "'x sev_env \<Rightarrow> bool \<Rightarrow> int" where
  "min_asid_of E es = (if es then 1 else int (min_sev_asid E))"

definition max_asid_of :: "'x sev_env \<Rightarrow> bool \<Rightarrow> int" where
  "max_asid_of E es = (if es then int (min_sev_asid E) - 1 else int (max_sev_asid E))"

definition sev_asid_new :: "'x sev_env \<Rightarrow> nat \<Rightarrow> 'x host \<Rightarrow> int \<times> 'x host" where
  "sev_asid_new E k s =
     (let s = on_sev k (\<lambda>i. i\<lparr>misc_cg := Some (current_cg E (world s))\<rparr>) s;
          (ret, s) = sev_misc_cg_try_charge E k s
      in if ret \<noteq> 0 then (ret, on_sev k (\<lambda>i. i\<lparr>misc_cg := None\<rparr>) s)
         else (let es = es_active (sev_of k s);
                   (a, s) = search_asid E True (min_asid_of E es) (max_asid_of E es) s
               in if a < 0
                  then (a, on_sev k (\<lambda>i. i\<lparr>misc_cg := None\<rparr>) (sev_misc_cg_uncharge k s))
                  else (a, s)))"

definition sev_asid_free :: "nat \<Rightarrow> 'x host \<Rightarrow> 'x host" where
  "sev_asid_free k s =
     (let a = asid (sev_of k s);
          s = s\<lparr>sev_reclaim_asid_bitmap := insert a (sev_reclaim_asid_bitmap s), events := Freed a # events s\<rparr>;
          s = s\<lparr>sev_vmcbs := (\<lambda>cpu. (sev_vmcbs s cpu)(a := None))\<rparr>;
          s = sev_misc_cg_uncharge k s
      in on_sev k (\<lambda>i. i\<lparr>misc_cg := None\<rparr>) s)"

text \<open>Entering the guest: the result says if the entries of the ASID in the TLB are flushed.\<close>

definition pre_sev_run :: "nat \<Rightarrow> nat \<Rightarrow> nat \<Rightarrow> nat option \<Rightarrow> 'x host \<Rightarrow> bool \<times> 'x host" where
  "pre_sev_run k vmcb cpu last_cpu s =
     (let a = asid (sev_of k s)
      in if sev_vmcbs s cpu a = Some vmcb \<and> last_cpu = Some cpu then (False, s)
         else (True, s\<lparr>sev_vmcbs := (sev_vmcbs s)(cpu := (sev_vmcbs s cpu)(a \<mapsto> vmcb))\<rparr>))"

section \<open>Making a guest encrypted\<close>

definition verify_snp_init_flags :: "'x sev_env \<Rightarrow> nat \<Rightarrow> sev_cmd \<Rightarrow> 'x host \<Rightarrow> int \<times> 'x host" where
  "verify_snp_init_flags E k c s =
     (case get_init_flags E (cmd_data c) (world s) of
        None \<Rightarrow> (- EFAULT, s)
      | Some flags \<Rightarrow>
          (let ret = (if flags AND NOT (SEV_SNP_SUPPORTED_FLAGS E) \<noteq> 0 then - EOPNOTSUPP else 0);
               s = on_sev k (\<lambda>i. i\<lparr>snp_init_flags := flags\<rparr>) s;
               (ok, x) = put_init_flags E (cmd_data c) (SEV_SNP_SUPPORTED_FLAGS E) (world s)
           in (if ok then ret else - EFAULT, s\<lparr>world := x\<rparr>)))"

definition init_failed :: "nat \<Rightarrow> 'x host \<Rightarrow> 'x host" where
  "init_failed k s =
     on_sev k (\<lambda>i. i\<lparr>snp_active := False, es_active := False, sev_active := False, snp_init_flags := 0\<rparr>) s"

definition sev_guest_init :: "'x sev_env \<Rightarrow> nat \<Rightarrow> sev_cmd \<Rightarrow> 'x host \<Rightarrow> int \<times> sev_cmd \<times> 'x host" where
  "sev_guest_init E k c s =
     (if created_vcpus (kvms s k) \<noteq> 0 then (- EINVAL, c, s)
      else if sev_active (sev_of k s) then (- EBUSY, c, s)
      else (let s = on_sev k (\<lambda>i. i\<lparr>sev_active := True,
                      es_active := (cmd_id c = KVM_SEV_ES_INIT \<or> cmd_id c = KVM_SEV_SNP_INIT),
                      snp_active := (cmd_id c = KVM_SEV_SNP_INIT)\<rparr>) s;
                (a, s) = sev_asid_new E k s
            in if a < 0 then (- EBUSY, c, init_failed k s)
               else (let s = on_sev k (\<lambda>i. i\<lparr>asid := nat a\<rparr>) s;
                         fail = (\<lambda>ret error s. (ret, c\<lparr>cmd_error := error\<rparr>,
                            init_failed k (on_sev k (\<lambda>i. i\<lparr>asid := 0\<rparr>) (sev_asid_free k s))));
                         (ret, s) = (if snp_active (sev_of k s) then verify_snp_init_flags E k c s else (0, s))
                     in if ret \<noteq> 0 then fail ret 0 s
                        else (let (ret, error, x) = platform_init E (world s);
                                  s = s\<lparr>world := x\<rparr>
                              in if ret \<noteq> 0 then fail ret error s
                                 else (0, c, on_sev k (\<lambda>i. i\<lparr>regions_list := [], mirror_vms := []\<rparr>) s)))))"

section \<open>Reading a history\<close>

definition is_flush :: "fw_cmd \<Rightarrow> bool" where
  "is_flush c \<longleftrightarrow> c = DF_FLUSH \<or> c = SNP_DF_FLUSH"

text \<open>The ASID belongs to no guest.\<close>

fun free_in :: "nat \<Rightarrow> event list \<Rightarrow> bool" where
  "free_in a [] = True"
| "free_in a (Took b # h) = (b \<noteq> a \<and> free_in a h)"
| "free_in a (Freed b # h) = (b = a \<or> free_in a h)"
| "free_in a (Cmd c r # h) = free_in a h"
| "free_in a (Wbinvd # h) = free_in a h"
| "free_in a (Clflush p n # h) = free_in a h"

text \<open>Caches were written back and then flushed by the firmware since it belonged to one.\<close>

fun clean_in :: "nat \<Rightarrow> event list \<Rightarrow> bool" where
  "clean_in a [] = True"
| "clean_in a (Took b # h) = (b \<noteq> a \<and> clean_in a h)"
| "clean_in a (Freed b # h) = (b \<noteq> a \<and> clean_in a h)"
| "clean_in a (Cmd c r # h) =
     (clean_in a h \<or> is_flush c \<and> r = 0 \<and> (case h of Wbinvd # h \<Rightarrow> free_in a h | _ \<Rightarrow> False))"
| "clean_in a (Wbinvd # h) = clean_in a h"
| "clean_in a (Clflush p n # h) = clean_in a h"

fun reuse_ok :: "event list \<Rightarrow> bool" where
  "reuse_ok [] = True"
| "reuse_ok (Took a # h) = (clean_in a h \<and> reuse_ok h)"
| "reuse_ok (Freed a # h) = (\<not> free_in a h \<and> reuse_ok h)"
| "reuse_ok (Cmd c r # h) = reuse_ok h"
| "reuse_ok (Wbinvd # h) = reuse_ok h"
| "reuse_ok (Clflush p n # h) = reuse_ok h"

text \<open>The contexts that the firmware was told to use with an ASID and not told to forget.\<close>

fun bound_in :: "event list \<Rightarrow> (u64 \<times> nat) set" where
  "bound_in [] = {}"
| "bound_in (Cmd c r # h) =
     (case c of
        SNP_ACTIVATE ctx a \<Rightarrow> if r = 0 then insert (ctx, a) (bound_in h) else bound_in h
      | SNP_DECOMMISSION ctx \<Rightarrow> if r = 0 then {p \<in> bound_in h. fst p \<noteq> ctx} else bound_in h
      | _ \<Rightarrow> bound_in h)"
| "bound_in (e # h) = bound_in h"

text \<open>No ASID is handed out that the firmware still uses for a context.\<close>

fun unbound_ok :: "event list \<Rightarrow> bool" where
  "unbound_ok [] = True"
| "unbound_ok (Took a # h) = ((\<forall>p\<in>bound_in h. snd p \<noteq> a) \<and> unbound_ok h)"
| "unbound_ok (e # h) = unbound_ok h"

section \<open>The pool keeps the history\<close>

definition in_use :: "'x host \<Rightarrow> nat set" where
  "in_use s = sev_asid_bitmap s - sev_reclaim_asid_bitmap s"

definition pool_ok :: "'x sev_env \<Rightarrow> 'x host \<Rightarrow> bool" where
  "pool_ok E s \<longleftrightarrow>
     sev_reclaim_asid_bitmap s \<subseteq> sev_asid_bitmap s \<and> sev_asid_bitmap s \<subseteq> {..<nr_asids E}
     \<and> (\<forall>a. free_in a (events s) \<longleftrightarrow> a \<notin> in_use s)
     \<and> (\<forall>a. a \<notin> sev_asid_bitmap s \<longrightarrow> clean_in a (events s)) \<and> reuse_ok (events s)"

definition sev_env_ok :: "'x sev_env \<Rightarrow> bool" where
  "sev_env_ok E \<longleftrightarrow>
     0 < min_sev_asid E \<and> min_sev_asid E \<le> max_sev_asid E \<and> (\<forall>es cg n. cg_try_charge E es cg n \<le> 0)"

text \<open>The parts of the state that are not the pool's.\<close>

definition same_guests :: "'x host \<Rightarrow> 'x host \<Rightarrow> bool" where
  "same_guests s s' \<longleftrightarrow> kvms s' = kvms s \<and> fds s' = fds s \<and> gone s' = gone s"

lemma same_guests_refl [simp]: "same_guests s s"
  by (simp add: same_guests_def)

lemma same_guests_trans: "same_guests s t \<Longrightarrow> same_guests t u \<Longrightarrow> same_guests s u"
  by (simp add: same_guests_def)

lemma sev_of_same: "same_guests s s' \<Longrightarrow> sev_of k s' = sev_of k s"
  by (simp add: same_guests_def sev_of_def)

lemma on_sev_simps [simp]:
  "sev_of j (on_sev k f s) = (if j = k then f (sev_of k s) else sev_of j s)"
  "created_vcpus (kvms (on_sev k f s) j) = created_vcpus (kvms s j)"
  "vm_vcpus (kvms (on_sev k f s) j) = vm_vcpus (kvms s j)"
  "users_count (kvms (on_sev k f s) j) = users_count (kvms s j)"
  "vm_dead (kvms (on_sev k f s) j) = vm_dead (kvms s j)"
  "fds (on_sev k f s) = fds s" "gone (on_sev k f s) = gone s"
  "sev_asid_bitmap (on_sev k f s) = sev_asid_bitmap s"
  "sev_reclaim_asid_bitmap (on_sev k f s) = sev_reclaim_asid_bitmap s"
  "events (on_sev k f s) = events s" "world (on_sev k f s) = world s" "charges (on_sev k f s) = charges s"
  "sev_vmcbs (on_sev k f s) = sev_vmcbs s"
  by (simp_all add: on_sev_def sev_of_def)

lemma pool_ok_cong:
  "sev_asid_bitmap s' = sev_asid_bitmap s \<Longrightarrow> sev_reclaim_asid_bitmap s' = sev_reclaim_asid_bitmap s
    \<Longrightarrow> events s' = events s \<Longrightarrow> pool_ok E s' = pool_ok E s"
  by (simp add: pool_ok_def in_use_def)

lemma on_sev_pool [simp]: "pool_ok E (on_sev k f s) = pool_ok E s" "in_use (on_sev k f s) = in_use s"
  by (simp_all add: pool_ok_def in_use_def)

lemma clean_is_free: "clean_in a h \<Longrightarrow> reuse_ok h \<Longrightarrow> free_in a h"
  by (induction h rule: reuse_ok.induct) (auto split: list.splits event.splits)

text \<open>A command, and a write back of the caches, change the history and not the pool.\<close>

lemma pool_ok_event:
  "pool_ok E s \<Longrightarrow> e \<in> {Wbinvd} \<union> range (case_prod Cmd) \<Longrightarrow> pool_ok E (s\<lparr>world := x, events := e # events s\<rparr>)"
  by (auto simp: pool_ok_def in_use_def)

lemma pool_ok_cmd [simp]: "pool_ok E s \<Longrightarrow> pool_ok E (s\<lparr>world := x, events := Cmd c r # events s\<rparr>)"
  by (rule pool_ok_event) auto

lemma do_cmd_keeps:
  assumes "sev_do_cmd E c s = (ret, err, s')"
  shows "s' = s\<lparr>world := world s', events := Cmd c ret # events s\<rparr>"
  using assms by (auto simp: sev_do_cmd_def case_prod_unfold Let_def)

lemma find_next_bit_none: "n \<le> find_next_bit b n i \<Longrightarrow> i \<le> j \<Longrightarrow> j < n \<Longrightarrow> j \<notin> b"
proof (induction b n i rule: find_next_bit.induct)
  case (1 b n i)
  then show ?case
    by (cases "j = i") (auto simp: find_next_bit.simps [of b n i] split: if_splits)
qed

lemma find_next_bit_least: "i \<le> j \<Longrightarrow> j < find_next_bit b n i \<Longrightarrow> j \<notin> b"
proof (induction b n i rule: find_next_bit.induct)
  case (1 b n i)
  then show ?case
    by (cases "j = i") (auto simp: find_next_bit.simps [of b n i] split: if_splits)
qed

lemma find_next_zero_least: "i \<le> j \<Longrightarrow> j < find_next_zero_bit b n i \<Longrightarrow> j < n \<Longrightarrow> j \<in> b"
proof (induction b n i rule: find_next_zero_bit.induct)
  case (1 b n i)
  then show ?case
    by (cases "j = i") (auto simp: find_next_zero_bit.simps [of b n i] split: if_splits)
qed

lemma find_next_zero_found: "find_next_zero_bit b n i < n \<Longrightarrow> find_next_zero_bit b n i \<notin> b \<and> i \<le> find_next_zero_bit b n i"
proof (induction b n i rule: find_next_zero_bit.induct)
  case (1 b n i)
  then show ?case
    by (auto simp: find_next_zero_bit.simps [of b n i] split: if_splits)
qed

definition pool_step :: "'x host \<Rightarrow> 'x host \<Rightarrow> bool" where
  "pool_step s s' \<longleftrightarrow>
     same_guests s s' \<and> sev_vmcbs s' = sev_vmcbs s \<and> charges s' = charges s \<and> bound_in (events s') = bound_in (events s)"

lemma pool_step_refl [simp]: "pool_step s s"
  by (simp add: pool_step_def)

lemma pool_step_trans: "pool_step s t \<Longrightarrow> pool_step t u \<Longrightarrow> pool_step s u"
  by (simp add: pool_step_def same_guests_def)

lemma flush_outcome:
  assumes "pool_ok E s" "sev_flush_asids E lo hi s = (ret, s')"
  shows "pool_ok E s'" "pool_step s s'" "sev_asid_bitmap s' = sev_asid_bitmap s"
    "sev_reclaim_asid_bitmap s' = sev_reclaim_asid_bitmap s" "unbound_ok (events s') = unbound_ok (events s)"
    and "ret = 0 \<Longrightarrow> \<exists>c. is_flush c \<and> events s' = Cmd c 0 # Wbinvd # events s"
    and "ret \<noteq> 0 \<Longrightarrow> (\<forall>a\<in>sev_reclaim_asid_bitmap s. int a < lo \<or> hi < int a) \<or> (\<exists>c x. is_flush c \<and> fst (firmware E c x) \<noteq> 0)"
proof -
  let ?a = "find_next_bit (sev_reclaim_asid_bitmap s) (nr_asids E) (nat lo)"
  let ?c = "if sev_snp_enabled E then SNP_DF_FLUSH else DF_FLUSH"
  have c: "is_flush ?c" "?c = DF_FLUSH \<or> ?c = SNP_DF_FLUSH" by (simp_all add: is_flush_def)
  have free: "\<forall>a\<in>sev_reclaim_asid_bitmap s. int a < lo \<or> hi < int a" if "hi < int ?a"
  proof (rule ballI, rule ccontr)
    fix a assume a: "a \<in> sev_reclaim_asid_bitmap s" "\<not> (int a < lo \<or> hi < int a)"
    then have "nat lo \<le> a" "a < ?a" using that by linarith+
    then show False using find_next_bit_least a(1) by blast
  qed
  have s': "if hi < int ?a then ret = - EBUSY \<and> s' = s
    else events s' = Cmd ?c ret # Wbinvd # events s \<and> fst (firmware E ?c (world s)) = ret \<and> same_guests s s'
      \<and> sev_vmcbs s' = sev_vmcbs s \<and> charges s' = charges s \<and> sev_asid_bitmap s' = sev_asid_bitmap s
      \<and> sev_reclaim_asid_bitmap s' = sev_reclaim_asid_bitmap s"
    using assms(2) by (auto simp: sev_flush_asids_def sev_do_cmd_def wbinvd_on_all_cpus_def same_guests_def Let_def
        case_prod_unfold split: if_splits)
  show "pool_ok E s'"
    using s' assms(1) by (cases "hi < int ?a") (auto simp: pool_ok_def in_use_def)
  show "pool_step s s'"
    using s' c(2) by (cases "hi < int ?a") (auto simp: pool_step_def)
  show "sev_asid_bitmap s' = sev_asid_bitmap s" "sev_reclaim_asid_bitmap s' = sev_reclaim_asid_bitmap s"
    using s' by (cases "hi < int ?a"; simp)+
  show "unbound_ok (events s') = unbound_ok (events s)"
    using s' c(2) by (cases "hi < int ?a") auto
  show "\<exists>c. is_flush c \<and> events s' = Cmd c 0 # Wbinvd # events s" if "ret = 0"
    using s' c(1) that by (cases "hi < int ?a") (auto simp: EBUSY_def)
  show "(\<forall>a\<in>sev_reclaim_asid_bitmap s. int a < lo \<or> hi < int a) \<or> (\<exists>c x. is_flush c \<and> fst (firmware E c x) \<noteq> 0)"
    if "ret \<noteq> 0"
  proof (cases "hi < int ?a")
    case False
    with s' that c(1) show ?thesis by (metis (no_types, lifting))
  qed (use free in blast)
qed

lemma recycle_outcome:
  assumes "pool_ok E s" "sev_recycle_asids E lo hi s = (ok, s')"
  shows "pool_ok E s'" "pool_step s s'" "in_use s' = in_use s" "unbound_ok (events s') = unbound_ok (events s)"
    and "ok \<Longrightarrow> sev_asid_bitmap s' = in_use s"
    and "\<not> ok \<Longrightarrow> sev_asid_bitmap s' = sev_asid_bitmap s \<and> ((\<forall>a\<in>sev_reclaim_asid_bitmap s. int a < lo \<or> hi < int a)
      \<or> (\<exists>c x. is_flush c \<and> fst (firmware E c x) \<noteq> 0))"
proof -
  obtain ret t where f: "sev_flush_asids E lo hi s = (ret, t)" by (cases "sev_flush_asids E lo hi s")
  note o = flush_outcome [OF assms(1) f]
  have u: "in_use t = in_use s" using o(3,4) by (simp add: in_use_def)
  have "sev_reclaim_asid_bitmap s \<subseteq> sev_asid_bitmap s" using assms(1) by (simp add: pool_ok_def)
  then have x: "bitmap_xor (sev_asid_bitmap s) (sev_reclaim_asid_bitmap s) = in_use s"
    by (auto simp: bitmap_xor_def in_use_def)
  have s': "if ret \<noteq> 0 then \<not> ok \<and> s' = t
    else ok \<and> s' = t\<lparr>sev_asid_bitmap := in_use s, sev_reclaim_asid_bitmap := {}\<rparr>"
    using assms(2) f x o(3,4) by (auto simp: sev_recycle_asids_def split: if_splits)
  show "pool_ok E s'"
  proof (cases "ret = 0")
    case True
    then obtain c where c: "is_flush c" "events t = Cmd c 0 # Wbinvd # events s" using o(6) by blast
    have "in_use s \<subseteq> {..<nr_asids E}" using assms(1) by (auto simp: pool_ok_def in_use_def)
    moreover have "free_in a (events s) \<longleftrightarrow> a \<notin> in_use s" for a using assms(1) by (simp add: pool_ok_def)
    ultimately show ?thesis using True s' c assms(1) by (simp add: pool_ok_def in_use_def)
  qed (use s' o(1) in simp)
  show "pool_step s s'" using s' o(2) by (cases "ret = 0") (auto simp: pool_step_def same_guests_def)
  show "in_use s' = in_use s" using s' u by (cases "ret = 0") (auto simp: in_use_def)
  show "unbound_ok (events s') = unbound_ok (events s)" using s' o(5) by (cases "ret = 0") auto
  show "sev_asid_bitmap s' = in_use s" if "ok" using s' that by (cases "ret = 0") auto
  show "sev_asid_bitmap s' = sev_asid_bitmap s \<and> ((\<forall>a\<in>sev_reclaim_asid_bitmap s. int a < lo \<or> hi < int a)
      \<or> (\<exists>c x. is_flush c \<and> fst (firmware E c x) \<noteq> 0))" if "\<not> ok"
    using s' that o(3,7) by (cases "ret = 0") auto
qed

text \<open>The first ASID of a range that the bitmap does not have, if there is one, is taken.\<close>

definition take_asid :: "nat \<Rightarrow> 'x host \<Rightarrow> 'x host" where
  "take_asid a s = s\<lparr>sev_asid_bitmap := insert a (sev_asid_bitmap s), events := Took a # events s\<rparr>"

lemma take_asid_ok:
  assumes "pool_ok E s" "a \<notin> sev_asid_bitmap s" "a < nr_asids E"
  shows "pool_ok E (take_asid a s)" "pool_step s (take_asid a s)" "a \<notin> in_use s"
    "in_use (take_asid a s) = insert a (in_use s)"
    and "(\<forall>p\<in>bound_in (events s). snd p \<in> in_use s) \<Longrightarrow> unbound_ok (events s) \<Longrightarrow> unbound_ok (events (take_asid a s))"
proof -
  show u: "a \<notin> in_use s" using assms(2) by (simp add: in_use_def)
  show "pool_step s (take_asid a s)" by (simp add: take_asid_def pool_step_def same_guests_def)
  show i: "in_use (take_asid a s) = insert a (in_use s)" using assms(1,2) by (auto simp: take_asid_def in_use_def pool_ok_def)
  show "pool_ok E (take_asid a s)"
    using assms i by (auto simp: pool_ok_def) (auto simp: take_asid_def)
  show "unbound_ok (events (take_asid a s))"
    if "\<forall>p\<in>bound_in (events s). snd p \<in> in_use s" "unbound_ok (events s)"
    using that u by (auto simp: take_asid_def)
qed

lemma search_asid_cases:
  assumes "0 \<le> lo" "search_asid E retry lo hi s = (a, s')"
  obtains (found) "lo \<le> a" "a \<le> hi" "nat a \<notin> sev_asid_bitmap s" "s' = take_asid (nat a) s"
    | (full) "\<not> retry" "a = - EBUSY" "s' = s" "\<forall>b. lo \<le> int b \<longrightarrow> int b \<le> hi \<longrightarrow> b \<in> sev_asid_bitmap s"
    | (stuck) "retry" "a = - EBUSY" "sev_recycle_asids E lo hi s = (False, s')"
        "\<forall>b. lo \<le> int b \<longrightarrow> int b \<le> hi \<longrightarrow> b \<in> sev_asid_bitmap s"
    | (again) t where "retry" "sev_recycle_asids E lo hi s = (True, t)" "search_asid E False lo hi t = (a, s')"
proof (cases "hi < int (find_next_zero_bit (sev_asid_bitmap s) (nat (hi + 1)) (nat lo))")
  case True
  have all: "\<forall>b. lo \<le> int b \<longrightarrow> int b \<le> hi \<longrightarrow> b \<in> sev_asid_bitmap s"
  proof (intro allI impI)
    fix b assume "lo \<le> int b" "int b \<le> hi"
    then have "nat lo \<le> b" "b < find_next_zero_bit (sev_asid_bitmap s) (nat (hi + 1)) (nat lo)" "b < nat (hi + 1)"
      using True by linarith+
    then show "b \<in> sev_asid_bitmap s" by (rule find_next_zero_least)
  qed
  show thesis
    using assms(2) True all full stuck again
    by (cases "sev_recycle_asids E lo hi s") (auto simp: search_asid.simps [of E retry] split: if_splits)
next
  case False
  then have "find_next_zero_bit (sev_asid_bitmap s) (nat (hi + 1)) (nat lo) < nat (hi + 1)" by linarith
  from find_next_zero_found [OF this] show thesis
    using assms False found by (auto simp: search_asid.simps [of E retry] take_asid_def Let_def nat_le_iff)
qed

lemma search_outcome:
  assumes "pool_ok E s" "0 \<le> lo" "hi < int (nr_asids E)" "search_asid E retry lo hi s = (a, s')"
  shows "pool_ok E s'" "pool_step s s'"
    and "a < 0 \<Longrightarrow> in_use s' = in_use s"
    and "0 \<le> a \<Longrightarrow> lo \<le> a \<and> a \<le> hi \<and> nat a \<notin> in_use s \<and> in_use s' = insert (nat a) (in_use s)"
    and "(\<forall>p\<in>bound_in (events s). snd p \<in> in_use s) \<Longrightarrow> unbound_ok (events s) \<Longrightarrow> unbound_ok (events s')"
proof -
  have found: "pool_ok E (take_asid (nat a) t) \<and> pool_step t (take_asid (nat a) t) \<and> nat a \<notin> in_use t
      \<and> in_use (take_asid (nat a) t) = insert (nat a) (in_use t)
      \<and> ((\<forall>p\<in>bound_in (events t). snd p \<in> in_use t) \<longrightarrow> unbound_ok (events t) \<longrightarrow> unbound_ok (events (take_asid (nat a) t)))"
    if "pool_ok E t" "nat a \<notin> sev_asid_bitmap t" "lo \<le> a" "a \<le> hi" for t :: "'a host" and a
  proof -
    have "nat a < nr_asids E" using that(3,4) assms(2,3) by linarith
    from take_asid_ok [OF that(1,2) this] show ?thesis by blast
  qed
  have "pool_ok E s' \<and> pool_step s s' \<and> (a < 0 \<longrightarrow> in_use s' = in_use s)
      \<and> (0 \<le> a \<longrightarrow> lo \<le> a \<and> a \<le> hi \<and> nat a \<notin> in_use s \<and> in_use s' = insert (nat a) (in_use s))
      \<and> ((\<forall>p\<in>bound_in (events s). snd p \<in> in_use s) \<longrightarrow> unbound_ok (events s) \<longrightarrow> unbound_ok (events s'))"
    using assms(2,4)
  proof (cases rule: search_asid_cases)
    case found': found
    then show ?thesis using found [OF assms(1)] assms(2) by force
  next
    case full
    then show ?thesis using assms(1) by (simp add: EBUSY_def)
  next
    case stuck
    then show ?thesis using recycle_outcome [OF assms(1) stuck(3)] by (simp add: EBUSY_def)
  next
    case (again t)
    note r = recycle_outcome [OF assms(1) again(2)]
    have b: "bound_in (events t) = bound_in (events s)" using r(2) by (simp add: pool_step_def)
    from assms(2) again(3) show ?thesis
    proof (cases rule: search_asid_cases)
      case found': found
      then show ?thesis using found [OF r(1)] r b assms(2) pool_step_trans by force
    next
      case full
      then show ?thesis using r by (simp add: EBUSY_def)
    qed simp_all
  qed
  then show "pool_ok E s'" "pool_step s s'" "a < 0 \<Longrightarrow> in_use s' = in_use s"
    "0 \<le> a \<Longrightarrow> lo \<le> a \<and> a \<le> hi \<and> nat a \<notin> in_use s \<and> in_use s' = insert (nat a) (in_use s)"
    "(\<forall>p\<in>bound_in (events s). snd p \<in> in_use s) \<Longrightarrow> unbound_ok (events s) \<Longrightarrow> unbound_ok (events s')"
    by blast+
qed

section \<open>What the operations do\<close>

definition charge :: "bool \<Rightarrow> nat \<Rightarrow> int \<Rightarrow> (bool \<Rightarrow> nat \<Rightarrow> int) \<Rightarrow> bool \<Rightarrow> nat \<Rightarrow> int" where
  "charge es cg n c = c(es := (c es)(cg := c es cg + n))"

lemma charge_simps [simp]:
  "charge es cg n (charge es cg m c) = charge es cg (m + n) c" "charge es cg 0 c = c"
  by (simp_all add: charge_def add.assoc)

text \<open>Only the members of one guest that \<open>f\<close> changes differ, and the world outside.\<close>

definition only_sev :: "nat \<Rightarrow> (kvm_sev_info \<Rightarrow> kvm_sev_info) \<Rightarrow> 'x host \<Rightarrow> 'x host \<Rightarrow> bool" where
  "only_sev k f s s' \<longleftrightarrow> kvms s' = kvms (on_sev k f s) \<and> fds s' = fds s \<and> gone s' = gone s"

lemma only_sev_simps:
  assumes "only_sev k f s s'"
  shows "sev_of j s' = (if j = k then f (sev_of k s) else sev_of j s)"
    "created_vcpus (kvms s' j) = created_vcpus (kvms s j)" "vm_vcpus (kvms s' j) = vm_vcpus (kvms s j)"
    "users_count (kvms s' j) = users_count (kvms s j)" "vm_dead (kvms s' j) = vm_dead (kvms s j)"
    "fds s' = fds s" "gone s' = gone s"
  using assms by (auto simp: only_sev_def sev_of_def on_sev_def)

lemma only_sev_on_sev [simp]: "only_sev k f s (on_sev k f s)"
  by (simp add: only_sev_def)

lemma only_sev_same: "same_guests s s' \<Longrightarrow> only_sev k (\<lambda>i. i) s s'"
  by (simp add: only_sev_def same_guests_def on_sev_def)

lemma only_sev_trans: "only_sev k f s t \<Longrightarrow> only_sev k g t u \<Longrightarrow> only_sev k (g \<circ> f) s u"
  by (simp add: only_sev_def on_sev_def)

lemma try_charge_outcome:
  assumes "misc_cg (sev_of k s) = Some cg" "sev_misc_cg_try_charge E k s = (ret, s')"
  shows "s' = s\<lparr>charges := (if ret = 0 then charge (es_active (sev_of k s)) cg 1 (charges s) else charges s)\<rparr>"
    "ret = cg_try_charge E (es_active (sev_of k s)) cg (charges s (es_active (sev_of k s)) cg)"
  using assms by (auto simp: sev_misc_cg_try_charge_def charge_def Let_def)

lemma uncharge_outcome:
  "sev_misc_cg_uncharge k s =
     (case misc_cg (sev_of k s) of None \<Rightarrow> s
      | Some cg \<Rightarrow> s\<lparr>charges := charge (es_active (sev_of k s)) cg (- 1) (charges s)\<rparr>)"
  by (auto simp: sev_misc_cg_uncharge_def charge_def Let_def split: option.splits)

lemma host_only_charges [simp]:
  "pool_ok E (s\<lparr>charges := c\<rparr>) = pool_ok E s" "in_use (s\<lparr>charges := c\<rparr>) = in_use s"
  "sev_of j (s\<lparr>charges := c\<rparr>) = sev_of j s"
  "pool_ok E (s\<lparr>kvms := m\<rparr>) = pool_ok E s" "in_use (s\<lparr>kvms := m\<rparr>) = in_use s"
  by (simp_all add: pool_ok_def in_use_def sev_of_def)

lemma asid_new_outcome:
  assumes "pool_ok E s" "sev_env_ok E" "sev_asid_new E k s = (a, s')"
  shows "pool_ok E s'" "bound_in (events s') = bound_in (events s)" "sev_vmcbs s' = sev_vmcbs s"
    and "only_sev k (\<lambda>i. i\<lparr>misc_cg := (if a < 0 then None else Some (current_cg E (world s)))\<rparr>) s s'"
    and "charges s' = (if a < 0 then charges s else charge (es_active (sev_of k s)) (current_cg E (world s)) 1 (charges s))"
    and "a < 0 \<Longrightarrow> in_use s' = in_use s"
    and "0 \<le> a \<Longrightarrow> min_asid_of E (es_active (sev_of k s)) \<le> a \<and> a \<le> max_asid_of E (es_active (sev_of k s))
      \<and> nat a \<notin> in_use s \<and> in_use s' = insert (nat a) (in_use s)"
    and "(\<forall>p\<in>bound_in (events s). snd p \<in> in_use s) \<Longrightarrow> unbound_ok (events s) \<Longrightarrow> unbound_ok (events s')"
proof -
  let ?es = "es_active (sev_of k s)" and ?cg = "current_cg E (world s)"
  let ?s1 = "on_sev k (\<lambda>i. i\<lparr>misc_cg := Some ?cg\<rparr>) s"
  obtain ret s2 where c: "sev_misc_cg_try_charge E k ?s1 = (ret, s2)" by (cases "sev_misc_cg_try_charge E k ?s1")
  from try_charge_outcome [OF _ this] have s2: "s2 = ?s1\<lparr>charges := (if ret = 0 then charge ?es ?cg 1 (charges s) else charges s)\<rparr>"
    and ret: "ret \<le> 0" using assms(2) by (auto simp: sev_env_ok_def)
  have p2: "pool_ok E s2" "in_use s2 = in_use s" "events s2 = events s" "sev_of k s2 = (sev_of k s)\<lparr>misc_cg := Some ?cg\<rparr>"
    "sev_vmcbs s2 = sev_vmcbs s"
    using s2 assms(1) by simp_all
  have none: "i\<lparr>misc_cg := Some ?cg, misc_cg := None\<rparr> = i\<lparr>misc_cg := None\<rparr>" for i :: kvm_sev_info by simp
  have all: "pool_ok E s' \<and> bound_in (events s') = bound_in (events s) \<and> sev_vmcbs s' = sev_vmcbs s
      \<and> only_sev k (\<lambda>i. i\<lparr>misc_cg := (if a < 0 then None else Some ?cg)\<rparr>) s s'
      \<and> charges s' = (if a < 0 then charges s else charge ?es ?cg 1 (charges s))
      \<and> (a < 0 \<longrightarrow> in_use s' = in_use s)
      \<and> (0 \<le> a \<longrightarrow> min_asid_of E ?es \<le> a \<and> a \<le> max_asid_of E ?es \<and> nat a \<notin> in_use s \<and> in_use s' = insert (nat a) (in_use s))
      \<and> ((\<forall>p\<in>bound_in (events s). snd p \<in> in_use s) \<longrightarrow> unbound_ok (events s) \<longrightarrow> unbound_ok (events s'))"
  proof (cases "ret = 0")
    case False
    then have "a = ret" "s' = on_sev k (\<lambda>i. i\<lparr>misc_cg := None\<rparr>) s2"
      using assms(3) c by (auto simp: sev_asid_new_def Let_def)
    then show ?thesis using False ret s2 assms(1) by (simp add: only_sev_def on_sev_def)
  next
    case True
    obtain b s3 where s3: "search_asid E True (min_asid_of E ?es) (max_asid_of E ?es) s2 = (b, s3)"
      by (cases "search_asid E True (min_asid_of E ?es) (max_asid_of E ?es) s2")
    have r: "0 \<le> min_asid_of E ?es" "max_asid_of E ?es < int (nr_asids E)"
      using assms(2) by (auto simp: min_asid_of_def max_asid_of_def nr_asids_def sev_env_ok_def)
    note o = search_outcome [OF p2(1) r s3]
    have k3: "sev_of k s3 = (sev_of k s)\<lparr>misc_cg := Some ?cg\<rparr>" "kvms s3 = kvms ?s1" "fds s3 = fds s" "gone s3 = gone s"
      "charges s3 = charge ?es ?cg 1 (charges s)" "sev_vmcbs s3 = sev_vmcbs s"
      using o(2) p2 s2 True by (auto simp: pool_step_def same_guests_def sev_of_def)
    have s': "a = b" "s' = (if b < 0 then on_sev k (\<lambda>i. i\<lparr>misc_cg := None\<rparr>) (sev_misc_cg_uncharge k s3) else s3)"
      using assms(3) c True s3 p2(4) by (auto simp: sev_asid_new_def Let_def split: if_splits)
    have "bound_in (events s3) = bound_in (events s)" using o(2) p2(3) by (simp add: pool_step_def)
    then show ?thesis
      using s' o p2 k3 by (auto simp: only_sev_def on_sev_def uncharge_outcome)
  qed
  from all show "pool_ok E s'" "bound_in (events s') = bound_in (events s)" "sev_vmcbs s' = sev_vmcbs s"
    "only_sev k (\<lambda>i. i\<lparr>misc_cg := (if a < 0 then None else Some ?cg)\<rparr>) s s'"
    "charges s' = (if a < 0 then charges s else charge ?es ?cg 1 (charges s))"
    "a < 0 \<Longrightarrow> in_use s' = in_use s"
    "0 \<le> a \<Longrightarrow> min_asid_of E ?es \<le> a \<and> a \<le> max_asid_of E ?es \<and> nat a \<notin> in_use s \<and> in_use s' = insert (nat a) (in_use s)"
    "(\<forall>p\<in>bound_in (events s). snd p \<in> in_use s) \<Longrightarrow> unbound_ok (events s) \<Longrightarrow> unbound_ok (events s')"
    by blast+
qed

lemma asid_free_outcome:
  assumes "pool_ok E s" "asid (sev_of k s) \<in> in_use s"
  shows "pool_ok E (sev_asid_free k s)" "in_use (sev_asid_free k s) = in_use s - {asid (sev_of k s)}"
    "only_sev k (\<lambda>i. i\<lparr>misc_cg := None\<rparr>) s (sev_asid_free k s)"
    "bound_in (events (sev_asid_free k s)) = bound_in (events s)"
    "unbound_ok (events (sev_asid_free k s)) = unbound_ok (events s)"
    "sev_vmcbs (sev_asid_free k s) cpu (asid (sev_of k s)) = None"
    "charges (sev_asid_free k s) =
      (case misc_cg (sev_of k s) of None \<Rightarrow> charges s | Some cg \<Rightarrow> charge (es_active (sev_of k s)) cg (- 1) (charges s))"
    "world (sev_asid_free k s) = world s"
  using assms
  by (auto simp: sev_asid_free_def Let_def uncharge_outcome only_sev_def on_sev_def pool_ok_def in_use_def sev_of_def
      split: option.splits)

text \<open>If flushing works, the search finds an ASID whenever one of the range belongs to no guest.\<close>

lemma search_asid_finds:
  assumes "pool_ok E s" "0 \<le> lo" "lo \<le> int b" "int b \<le> hi" "b \<notin> in_use s"
    and "\<forall>c x. is_flush c \<longrightarrow> fst (firmware E c x) = 0" "search_asid E True lo hi s = (a, s')"
  shows "0 \<le> a"
  using assms(2,7)
proof (cases rule: search_asid_cases)
  case stuck
  note r = recycle_outcome(6) [OF assms(1) stuck(3)]
  have "b \<in> sev_asid_bitmap s" using stuck(4) assms(3,4) by blast
  then have "b \<in> sev_reclaim_asid_bitmap s" using assms(5) by (simp add: in_use_def)
  then show ?thesis using r assms(3,4,6) by auto
next
  case (again t)
  note r = recycle_outcome [OF assms(1) again(2)]
  have "b \<notin> sev_asid_bitmap t" using r(5) assms(5) by simp
  with assms(2) again(3) assms(3,4) show ?thesis
    using assms(2) by (cases rule: search_asid_cases) auto
qed (use assms(2) in auto)

lemma asid_new_finds:
  assumes "pool_ok E s" "sev_env_ok E" "\<forall>c x. is_flush c \<longrightarrow> fst (firmware E c x) = 0"
    and "es = es_active (sev_of k s)" "cg = current_cg E (world s)" "sev_asid_new E k s = (a, s')"
  shows "0 \<le> a \<longleftrightarrow> cg_try_charge E es cg (charges s es cg) = 0
      \<and> (\<exists>b. min_asid_of E es \<le> int b \<and> int b \<le> max_asid_of E es \<and> b \<notin> in_use s)"
    and "0 \<le> a \<longrightarrow> min_asid_of E es \<le> a \<and> a \<le> max_asid_of E es \<and> nat a \<notin> in_use s \<and> in_use s' = insert (nat a) (in_use s)"
proof -
  note o = asid_new_outcome [OF assms(1,2,6)]
  show "0 \<le> a \<longrightarrow> min_asid_of E es \<le> a \<and> a \<le> max_asid_of E es \<and> nat a \<notin> in_use s \<and> in_use s' = insert (nat a) (in_use s)"
    using o(7) assms(4) by simp
  let ?s1 = "on_sev k (\<lambda>i. i\<lparr>misc_cg := Some cg\<rparr>) s"
  obtain ret s2 where c: "sev_misc_cg_try_charge E k ?s1 = (ret, s2)" by (cases "sev_misc_cg_try_charge E k ?s1")
  note t = try_charge_outcome [OF _ c]
  have p: "pool_ok E s2" "in_use s2 = in_use s" "es_active (sev_of k s2) = es" using t assms(1,4) by simp_all
  have ret: "ret = cg_try_charge E es cg (charges s es cg)" "ret \<le> 0" using t assms(2,4) by (auto simp: sev_env_ok_def)
  have lo: "0 \<le> min_asid_of E es" by (simp add: min_asid_of_def)
  have neg: "a = ret" if "ret \<noteq> 0"
    using assms(5,6) c that by (auto simp: sev_asid_new_def Let_def)
  have pos: "0 \<le> a" if "ret = 0" "min_asid_of E es \<le> int b" "int b \<le> max_asid_of E es" "b \<notin> in_use s" for b
  proof -
    obtain d u where "search_asid E True (min_asid_of E es) (max_asid_of E es) s2 = (d, u)"
      by (cases "search_asid E True (min_asid_of E es) (max_asid_of E es) s2")
    moreover from search_asid_finds [OF p(1) lo that(2,3) _ assms(3) this] that(4) p(2) have "0 \<le> d" by simp
    ultimately show ?thesis using assms(5,6) c that(1) p(3) by (auto simp: sev_asid_new_def Let_def)
  qed
  show "0 \<le> a \<longleftrightarrow> cg_try_charge E es cg (charges s es cg) = 0
      \<and> (\<exists>b. min_asid_of E es \<le> int b \<and> int b \<le> max_asid_of E es \<and> b \<notin> in_use s)"
  proof
    assume a: "0 \<le> a"
    then have "ret = 0" using neg ret(2) by fastforce
    moreover have "int (nat a) = a" using a by simp
    ultimately show "cg_try_charge E es cg (charges s es cg) = 0
        \<and> (\<exists>b. min_asid_of E es \<le> int b \<and> int b \<le> max_asid_of E es \<and> b \<notin> in_use s)"
      using o(7) a ret(1) assms(4) by (intro conjI exI [of _ "nat a"]) auto
  qed (use pos ret(1) in auto)
qed

text \<open>
  C11  A guest gets an ASID exactly when its cgroup allows one more and the range of its kind has one that
  belongs to no guest: those given back are found again, as long as the firmware can flush.  The one
  it gets is of that range and belongs to nobody else.
\<close>
theorem asid_given_iff:
  assumes "pool_ok E s" "sev_env_ok E" "\<forall>c x. is_flush c \<longrightarrow> fst (firmware E c x) = 0"
    and "es = es_active (sev_of k s)" "cg = current_cg E (world s)" "sev_asid_new E k s = (a, s')"
  shows "(0 \<le> a \<longleftrightarrow> cg_try_charge E es cg (charges s es cg) = 0
      \<and> (\<exists>b. min_asid_of E es \<le> int b \<and> int b \<le> max_asid_of E es \<and> b \<notin> in_use s))
    \<and> (0 \<le> a \<longrightarrow> min_asid_of E es \<le> a \<and> a \<le> max_asid_of E es \<and> nat a \<notin> in_use s \<and> in_use s' = insert (nat a) (in_use s))"
  using asid_new_finds [OF assms] by blast

section \<open>An instance\<close>

text \<open>A host without guests, and an environment where everything that can succeed does.\<close>

definition zero_sev_info :: kvm_sev_info where
  "zero_sev_info =
     \<lparr>sev_active = False, es_active = False, snp_active = False, asid = 0, handle = 0, sev_dev_fd = 0, pages_locked = 0,
      regions_list = [], enc_context_owner = None, mirror_vms = [], misc_cg = None, migration_in_progress = False,
      snp_init_flags = 0, snp_context = None, features_of_level = \<lambda>_. 0\<rparr>"

definition zero_vm :: kvm_vm where
  "zero_vm = \<lparr>sev_info = zero_sev_info, created_vcpus = 0, vm_vcpus = [], users_count = 1, vm_dead = False\<rparr>"

definition empty_host :: "'x \<Rightarrow> 'x host" where
  "empty_host x =
     \<lparr>kvms = \<lambda>_. zero_vm, fds = \<lambda>_. 0, gone = \<lambda>_. True, sev_asid_bitmap = {}, sev_reclaim_asid_bitmap = {},
      sev_vmcbs = \<lambda>_ _. None, charges = \<lambda>_ _. 0, events = [], held_pages = \<lambda>_. 0, leaked_pages = {}, freed_pages = [],
      zapped = [], arrays = 0, world = x\<rparr>"

definition demo_env :: "'x sev_env" where
  "demo_env =
     \<lparr>min_sev_asid = 3, max_sev_asid = 5, sev_enabled = True, sev_es_enabled = True, sev_snp_enabled = True,
      RESTRICTED_INJET = 1, SVSM = 2, firmware = \<lambda>_ x. (0, 0, x), firmware_fd = \<lambda>_ _ x. (0, 0, x), fd_open = \<lambda>_ _. True,
      platform_init = \<lambda>x. (0, 0, x), cg_try_charge = \<lambda>_ _ _. 0, current_cg = \<lambda>_. 0, get_init_flags = \<lambda>_ _. Some 2,
      put_init_flags = \<lambda>_ _ x. (True, x), get_launch_start = \<lambda>_ _. Some (push_bit 16 1, []),
      get_launch_update = \<lambda>_ _. Some \<lparr>lu_uaddr = 0, lu_len = 0x2000, lu_page_type = 1, lu_perms = []\<rparr>,
      get_launch_finish = \<lambda>_ _. Some \<lparr>lf_id_block = None, lf_id_auth = 0, lf_auth_key = False, lf_host_data = []\<rparr>,
      LAUNCH_FINISH_SIZE = 0, ID_BLOCK_SIZE = 0, ID_AUTH_SIZE = 0, copy_user_blob = \<lambda>_ _ _. Inr [],
      alloc_firmware_page = \<lambda>x. (Some 7, x), free_firmware_page = \<lambda>_ x. x, kmalloc_ok = \<lambda>_ _. True, memslots = \<lambda>_. [],
      gmem_get_pfn = \<lambda>_ g _ x. (0, g, 9, x), rmp_lookup = \<lambda>_ _. (0, False, 1), rmp_make_private = \<lambda>_ _ _ _ _ x. (0, x),
      rmp_make_shared = \<lambda>_ _ x. (0, x), psmash = \<lambda>_ x. (0, x), addr_valid = \<lambda>_. True, mem_is_private = \<lambda>_ _ _. True,
      gfn_to_memslot = \<lambda>_ _. None, sme_coherent = True, vm_page_flush = \<lambda>_ _ x. (0, x), read_guest_page = \<lambda>_ _ _ x. (0, x),
      write_guest_page = \<lambda>_ _ _ x. (0, x), PAGE_TYPE_CPUID = 6, PAGE_TYPE_VMSA = 2, RET_INVALID_PARAM = 22,
      DR7_FIXED_1 = 0x400, SEV_FEAT_SNP_ACTIVE = 1, SEV_FEAT_RESTRICTED_INJECTION = 8, SEV_FEAT_DEBUG_SWAP = 32,
      debug_swap_enabled = False, enable_x2apic = \<lambda>x. (0, x), lock_killable = \<lambda>x. (0, x), file_of = \<lambda>fd _. Some (Some (nat fd)),
      lock_limit = 100, ipc_lock = False, pin_user_pages = \<lambda>a n x. (map (\<lambda>i. a + of_nat i * 4096) [0..<unat n], x),
      REGION_SIZE = 0, INVALID_PA = - 1, get_cmd = \<lambda>_ _. None, put_cmd = \<lambda>_ _ x. (True, x),
      get_legacy_start = \<lambda>_ _. None, put_started_handle = \<lambda>_ _ x. (True, x),
      put_guest_status = \<lambda>_ x. (True, x), started_handle = \<lambda>_. 1,
      get_update_data = \<lambda>_ _. None, legacy_command = \<lambda>_ _ c x. (0, c, x)\<rparr>"

lemma demo_env_simps [simp]:
  "min_sev_asid demo_env = (3)"
  "max_sev_asid demo_env = (5)"
  "sev_enabled demo_env = (True)"
  "sev_es_enabled demo_env = (True)"
  "sev_snp_enabled demo_env = (True)"
  "RESTRICTED_INJET demo_env = (1)"
  "SVSM demo_env = (2)"
  "firmware demo_env = (\<lambda>_ x. (0, 0, x))"
  "firmware_fd demo_env = (\<lambda>_ _ x. (0, 0, x))"
  "fd_open demo_env = (\<lambda>_ _. True)"
  "platform_init demo_env = (\<lambda>x. (0, 0, x))"
  "cg_try_charge demo_env = (\<lambda>_ _ _. 0)"
  "current_cg demo_env = (\<lambda>_. 0)"
  "get_init_flags demo_env = (\<lambda>_ _. Some 2)"
  "put_init_flags demo_env = (\<lambda>_ _ x. (True, x))"
  "get_launch_start demo_env = (\<lambda>_ _. Some (push_bit 16 1, []))"
  "get_launch_update demo_env = (\<lambda>_ _. Some \<lparr>lu_uaddr = 0, lu_len = 0x2000, lu_page_type = 1, lu_perms = []\<rparr>)"
  "get_launch_finish demo_env = (\<lambda>_ _. Some \<lparr>lf_id_block = None, lf_id_auth = 0, lf_auth_key = False, lf_host_data = []\<rparr>)"
  "LAUNCH_FINISH_SIZE demo_env = (0)"
  "ID_BLOCK_SIZE demo_env = (0)"
  "ID_AUTH_SIZE demo_env = (0)"
  "copy_user_blob demo_env = (\<lambda>_ _ _. Inr [])"
  "alloc_firmware_page demo_env = (\<lambda>x. (Some 7, x))"
  "free_firmware_page demo_env = (\<lambda>_ x. x)"
  "kmalloc_ok demo_env = (\<lambda>_ _. True)"
  "memslots demo_env = (\<lambda>_. [])"
  "gmem_get_pfn demo_env = (\<lambda>_ g _ x. (0, g, 9, x))"
  "rmp_lookup demo_env = (\<lambda>_ _. (0, False, 1))"
  "rmp_make_private demo_env = (\<lambda>_ _ _ _ _ x. (0, x))"
  "rmp_make_shared demo_env = (\<lambda>_ _ x. (0, x))"
  "psmash demo_env = (\<lambda>_ x. (0, x))"
  "addr_valid demo_env = (\<lambda>_. True)"
  "mem_is_private demo_env = (\<lambda>_ _ _. True)"
  "gfn_to_memslot demo_env = (\<lambda>_ _. None)"
  "sme_coherent demo_env = (True)"
  "vm_page_flush demo_env = (\<lambda>_ _ x. (0, x))"
  "read_guest_page demo_env = (\<lambda>_ _ _ x. (0, x))"
  "write_guest_page demo_env = (\<lambda>_ _ _ x. (0, x))"
  "PAGE_TYPE_CPUID demo_env = (6)"
  "PAGE_TYPE_VMSA demo_env = (2)"
  "RET_INVALID_PARAM demo_env = (22)"
  "DR7_FIXED_1 demo_env = (0x400)"
  "SEV_FEAT_SNP_ACTIVE demo_env = (1)"
  "SEV_FEAT_RESTRICTED_INJECTION demo_env = (8)"
  "SEV_FEAT_DEBUG_SWAP demo_env = (32)"
  "debug_swap_enabled demo_env = (False)"
  "enable_x2apic demo_env = (\<lambda>x. (0, x))"
  "lock_killable demo_env = (\<lambda>x. (0, x))"
  "file_of demo_env = (\<lambda>fd _. Some (Some (nat fd)))"
  "lock_limit demo_env = (100)"
  "ipc_lock demo_env = (False)"
  "pin_user_pages demo_env = (\<lambda>a n x. (map (\<lambda>i. a + of_nat i * 4096) [0..<unat n], x))"
  "REGION_SIZE demo_env = 0" "INVALID_PA demo_env = - 1" "get_cmd demo_env = (\<lambda>_ _. None)"
  "put_cmd demo_env = (\<lambda>_ _ x. (True, x))"
  by (simp_all add: demo_env_def)

lemma demo_env_ok: "sev_env_ok demo_env"
  by (simp add: sev_env_ok_def)

lemma empty_pool_ok: "pool_ok E (empty_host x)"
  by (simp add: pool_ok_def in_use_def empty_host_def)

lemma asid_given_iff_witness:
  "\<exists>a s'. sev_asid_new demo_env 0 (empty_host ()) = (a, s') \<and> 0 \<le> a \<and> in_use s' = {nat a}"
proof -
  obtain a s' where n: "sev_asid_new demo_env 0 (empty_host ()) = (a, s')" by (cases "sev_asid_new demo_env 0 (empty_host ())")
  have f: "\<forall>c x. is_flush c \<longrightarrow> fst (firmware demo_env c (x :: unit)) = 0" by (simp add: demo_env_def)
  have es: "\<not> es_active (sev_of 0 (empty_host ()))" by (simp add: sev_of_def empty_host_def zero_vm_def zero_sev_info_def)
  note g = asid_given_iff [OF empty_pool_ok demo_env_ok f refl refl n]
  have "min_asid_of (demo_env :: unit sev_env) False \<le> int 3 \<and> int 3 \<le> max_asid_of (demo_env :: unit sev_env) False
      \<and> 3 \<notin> in_use (empty_host ())"
    by (simp add: min_asid_of_def max_asid_of_def demo_env_def in_use_def empty_host_def)
  then have "0 \<le> a" using g [THEN conjunct1] es by (auto simp: demo_env_def)
  moreover have "in_use (empty_host ()) = {}" by (simp add: in_use_def empty_host_def)
  ultimately show ?thesis using g [THEN conjunct2] n by auto
qed

end
