(* ===== verification/Sev_Launch.thy ===== *)
theory Sev_Launch
  imports Sev_Asid
begin

text \<open>
  The host: how \<open>host/kvm/svm/sev.c\<close> launches an SNP guest.  The firmware makes a context, the pages of the
  guest are put into it one by one and then the save areas of its vCPUs, and the launch is finished.
  With the flag for a monitor (SVSM) only the first vCPU is put in; the monitor starts the others.
\<close>

definition ENOTTY :: int where "ENOTTY = 25"

definition SNP_POLICY_MASK_SMT :: u64 where "SNP_POLICY_MASK_SMT = push_bit 16 1"

definition SNP_POLICY_MASK_SINGLE_SOCKET :: u64 where "SNP_POLICY_MASK_SINGLE_SOCKET = push_bit 20 1"

definition INITIAL_VMSA_GPA :: u64 where "INITIAL_VMSA_GPA = 0xFFFFFFFFF000"

text \<open>\<open>PG_LEVEL_4K\<close> and \<open>PG_LEVEL_2M\<close>, and the number of small pages in one.\<close>

definition PG_LEVEL_4K :: nat where "PG_LEVEL_4K = 1"

definition PG_LEVEL_2M :: nat where "PG_LEVEL_2M = 2"

definition PTRS_PER_PMD :: u64 where "PTRS_PER_PMD = 512"

definition level_pages :: "nat \<Rightarrow> u64" where
  "level_pages level = (if level = PG_LEVEL_2M then PTRS_PER_PMD else 1)"

section \<open>The context\<close>

definition snp_context_create :: "'x sev_env \<Rightarrow> sev_cmd \<Rightarrow> 'x host \<Rightarrow> u64 option \<times> sev_cmd \<times> 'x host" where
  "snp_context_create E c s =
     (let (context, x) = alloc_firmware_page E (world s); s = s\<lparr>world := x\<rparr>
      in case context of
           None \<Rightarrow> (None, c, s)
         | Some ctx \<Rightarrow>
             (let (rc, error, s) = do_issue_cmd E (cmd_fd c) (SNP_GCTX_CREATE ctx) (cmd_error c) s;
                  c = c\<lparr>cmd_error := error\<rparr>
              in if rc \<noteq> 0 then (None, c, s\<lparr>world := free_firmware_page E ctx (world s)\<rparr>) else (Some ctx, c, s)))"

definition snp_decommission_context :: "'x sev_env \<Rightarrow> nat \<Rightarrow> 'x host \<Rightarrow> int \<times> 'x host" where
  "snp_decommission_context E k s =
     (case snp_context (sev_of k s) of
        None \<Rightarrow> (0, s)
      | Some ctx \<Rightarrow>
          (let (ret, _, s) = sev_do_cmd E (SNP_DECOMMISSION ctx) s
           in if ret \<noteq> 0 then (ret, s)
              else (0, on_sev k (\<lambda>i. i\<lparr>snp_context := None\<rparr>) (s\<lparr>world := free_firmware_page E ctx (world s)\<rparr>))))"

definition snp_bind_asid :: "'x sev_env \<Rightarrow> nat \<Rightarrow> sev_cmd \<Rightarrow> 'x host \<Rightarrow> int \<times> sev_cmd \<times> 'x host" where
  "snp_bind_asid E k c s =
     (let (rc, error, s) = sev_issue_cmd E k (SNP_ACTIVATE (the (snp_context (sev_of k s))) (asid (sev_of k s))) (cmd_error c) s
      in (rc, c\<lparr>cmd_error := error\<rparr>, s))"

definition snp_launch_start :: "'x sev_env \<Rightarrow> nat \<Rightarrow> sev_cmd \<Rightarrow> 'x host \<Rightarrow> int \<times> sev_cmd \<times> 'x host" where
  "snp_launch_start E k c s =
     (if \<not> sev_snp_guest k s then (- ENOTTY, c, s)
      else (case get_launch_start E (cmd_data c) (world s) of
              None \<Rightarrow> (- EFAULT, c, s)
            | Some (policy, gosvw) \<Rightarrow>
                if snp_context (sev_of k s) \<noteq> None then (- EINVAL, c, s)
                else (let (context, c, s) = snp_context_create E c s;
                          s = on_sev k (\<lambda>i. i\<lparr>snp_context := context\<rparr>) s
                      in case context of
                           None \<Rightarrow> (- ENOTTY, c, s)
                         | Some ctx \<Rightarrow>
                             if policy AND SNP_POLICY_MASK_SINGLE_SOCKET \<noteq> 0 then (- EINVAL, c, s)
                             else if policy AND SNP_POLICY_MASK_SMT = 0 then (- EINVAL, c, s)
                             else (let (rc, error, s) =
                                         do_issue_cmd E (cmd_fd c) (SNP_LAUNCH_START ctx policy gosvw) (cmd_error c) s;
                                       c = c\<lparr>cmd_error := error\<rparr>
                                   in if rc \<noteq> 0 then (rc, c, snd (snp_decommission_context E k s))
                                      else (let s = on_sev k (\<lambda>i. i\<lparr>sev_dev_fd := cmd_fd c\<rparr>) s;
                                                (rc, c, s) = snp_bind_asid E k c s
                                            in if rc \<noteq> 0 then (rc, c, snd (snp_decommission_context E k s))
                                               else (0, c, s))))))"

section \<open>Pages\<close>

definition snp_leak_pages :: "u64 \<Rightarrow> u64 \<Rightarrow> 'x host \<Rightarrow> 'x host" where
  "snp_leak_pages pfn n s = s\<lparr>leaked_pages := leaked_pages s \<union> {q. q - pfn < n}\<rparr>"

definition snp_page_reclaim :: "'x sev_env \<Rightarrow> u64 \<Rightarrow> 'x host \<Rightarrow> int \<times> 'x host" where
  "snp_page_reclaim E pfn s =
     (let (rc, _, s) = sev_do_cmd E (SNP_PAGE_RECLAIM pfn) s
      in (rc, if rc \<noteq> 0 then snp_leak_pages pfn 1 s else s))"

definition host_rmp_make_shared :: "'x sev_env \<Rightarrow> u64 \<Rightarrow> nat \<Rightarrow> bool \<Rightarrow> 'x host \<Rightarrow> int \<times> 'x host" where
  "host_rmp_make_shared E pfn level leak s =
     (let (rc, x) = rmp_make_shared E pfn level (world s); s = s\<lparr>world := x\<rparr>
      in (rc, if rc \<noteq> 0 \<and> leak then snp_leak_pages pfn (level_pages level) s else s))"

definition hold_page :: "int \<Rightarrow> u64 \<Rightarrow> 'x host \<Rightarrow> 'x host" where
  "hold_page n pfn s = s\<lparr>held_pages := (held_pages s)(pfn := held_pages s pfn + n)\<rparr>"

text \<open>
  One round of the loop.  The page found is added to \<open>pfns\<close>; the second component of the result says
  if the function returns at once, without \<open>e_release:\<close>.
\<close>

definition launch_page ::
    "'x sev_env \<Rightarrow> nat \<Rightarrow> launch_update_params \<Rightarrow> u64 \<Rightarrow> u64 list \<Rightarrow> sev_cmd \<Rightarrow> 'x host
      \<Rightarrow> int \<times> bool \<times> u64 list \<times> sev_cmd \<times> 'x host" where
  "launch_page E k params gfn pfns c s =
     (let (ret, pfn, _, x) = gmem_get_pfn E k gfn False (world s); s = s\<lparr>world := x\<rparr>
      in if ret \<noteq> 0 then (ret, False, pfns, c, s)
         else (let s = hold_page 1 pfn s; pfns = pfns @ [pfn];
                   (ret, assigned, _) = rmp_lookup E pfn (world s)
               in if ret \<noteq> 0 \<or> assigned then (- EFAULT, True, pfns, c, s)
                  else if \<not> addr_valid E pfn then (- EINVAL, False, pfns, c, s)
                  else (let (ret, x) = read_guest_page E k gfn pfn (world s); s = s\<lparr>world := x\<rparr>
                        in if ret \<noteq> 0 then (ret, False, pfns, c, s)
                           else (let (ret, x) = rmp_make_private E pfn (push_bit 12 gfn) PG_LEVEL_4K
                                                  (asid (sev_of k s)) True (world s);
                                     s = s\<lparr>world := x\<rparr>
                                 in if ret \<noteq> 0 then (- EFAULT, False, pfns, c, s)
                                    else (let (ret, error, s) =
                                                do_issue_cmd E (cmd_fd c)
                                                  (SNP_LAUNCH_UPDATE (the (snp_context (sev_of k s))) pfn
                                                     (lu_page_type params) (lu_perms params)) (cmd_error c) s;
                                              c = c\<lparr>cmd_error := error\<rparr>
                                          in if ret = 0 then (0, False, pfns, c, s)
                                             else (let (_, s) = snp_page_reclaim E pfn s;
                                                       s = (if lu_page_type params = PAGE_TYPE_CPUID E
                                                               \<and> error = RET_INVALID_PARAM E
                                                            then (let (_, s) = host_rmp_make_shared E pfn PG_LEVEL_4K True s;
                                                                      (_, x) = write_guest_page E k gfn pfn (world s)
                                                                  in s\<lparr>world := x\<rparr>)
                                                            else s)
                                                   in (ret, False, pfns, c, s)))))))"

fun launch_pages ::
    "'x sev_env \<Rightarrow> nat \<Rightarrow> launch_update_params \<Rightarrow> nat \<Rightarrow> u64 \<Rightarrow> u64 list \<Rightarrow> sev_cmd \<Rightarrow> 'x host
      \<Rightarrow> int \<times> bool \<times> u64 list \<times> sev_cmd \<times> 'x host" where
  "launch_pages E k params 0 gfn pfns c s = (0, False, pfns, c, s)"
| "launch_pages E k params (Suc n) gfn pfns c s =
     (let (ret, now, pfns, c, s) = launch_page E k params gfn pfns c s
      in if ret \<noteq> 0 then (ret, now, pfns, c, s) else launch_pages E k params n (gfn + 1) pfns c s)"

text \<open>\<open>e_release:\<close>\<close>

definition release_page :: "'x sev_env \<Rightarrow> int \<Rightarrow> u64 \<Rightarrow> 'x host \<Rightarrow> 'x host" where
  "release_page E ret pfn s =
     hold_page (- 1) pfn (if ret \<noteq> 0 then snd (host_rmp_make_shared E pfn PG_LEVEL_4K True s) else s)"

definition snp_launch_update_gfn_handler ::
    "'x sev_env \<Rightarrow> nat \<Rightarrow> memslot \<Rightarrow> u64 \<Rightarrow> u64 \<Rightarrow> sev_cmd \<Rightarrow> 'x host \<Rightarrow> int \<times> sev_cmd \<times> 'x host" where
  "snp_launch_update_gfn_handler E k slot start stop c s =
     (if \<not> can_be_private slot then (- EINVAL, c, s)
      else (case get_launch_update E (cmd_data c) (world s) of
              None \<Rightarrow> (- EFAULT, c, s)
            | Some params \<Rightarrow>
                if \<not> kmalloc_ok E (8 * unat (stop - start)) (world s) then (- ENOMEM, c, s)
                else (let s = s\<lparr>arrays := arrays s + 1\<rparr>;
                          n = (if start < stop then unat (stop - start) else 0);
                          (ret, now, pfns, c, s) = launch_pages E k params n start [] c s
                      in if now then (ret, c, s)
                         else (let s = fold (release_page E ret) pfns s
                               in (ret, c, s\<lparr>arrays := arrays s - 1\<rparr>)))))"

text \<open>\<open>kvm_vm_do_hva_range_op\<close>, over the slots in the order of their tree.\<close>

definition hva_to_gfn_memslot :: "u64 \<Rightarrow> memslot \<Rightarrow> u64" where
  "hva_to_gfn_memslot hva slot = base_gfn slot + drop_bit 12 (hva - userspace_addr slot)"

definition slot_meets :: "u64 \<Rightarrow> u64 \<Rightarrow> memslot \<Rightarrow> bool" where
  "slot_meets first stop slot \<longleftrightarrow>
     userspace_addr slot \<le> stop \<and> first \<le> userspace_addr slot + push_bit 12 (slot_npages slot) - 1"

fun over_slots ::
    "(memslot \<Rightarrow> u64 \<Rightarrow> u64 \<Rightarrow> sev_cmd \<Rightarrow> 'x host \<Rightarrow> int \<times> sev_cmd \<times> 'x host)
      \<Rightarrow> u64 \<Rightarrow> u64 \<Rightarrow> memslot list \<Rightarrow> sev_cmd \<Rightarrow> 'x host \<Rightarrow> int \<times> sev_cmd \<times> 'x host" where
  "over_slots handler lo hi [] c s = (0, c, s)"
| "over_slots handler lo hi (slot # slots) c s =
     (if slot_meets lo (hi - 1) slot
      then (let start = max lo (userspace_addr slot);
                stop = min hi (userspace_addr slot + push_bit 12 (slot_npages slot));
                (ret, c, s) = handler slot (hva_to_gfn_memslot start slot) (hva_to_gfn_memslot (stop + 4095) slot) c s
            in if ret \<noteq> 0 then (ret, c, s) else over_slots handler lo hi slots c s)
      else over_slots handler lo hi slots c s)"

definition kvm_vm_do_hva_range_op ::
    "'x sev_env \<Rightarrow> nat \<Rightarrow> u64 \<Rightarrow> u64 \<Rightarrow> (memslot \<Rightarrow> u64 \<Rightarrow> u64 \<Rightarrow> sev_cmd \<Rightarrow> 'x host \<Rightarrow> int \<times> sev_cmd \<times> 'x host)
      \<Rightarrow> sev_cmd \<Rightarrow> 'x host \<Rightarrow> int \<times> sev_cmd \<times> 'x host" where
  "kvm_vm_do_hva_range_op E k lo hi handler c s =
     (if hi \<le> lo then (- EINVAL, c, s) else over_slots handler lo hi (memslots E k) c s)"

definition snp_launch_update :: "'x sev_env \<Rightarrow> nat \<Rightarrow> sev_cmd \<Rightarrow> 'x host \<Rightarrow> int \<times> sev_cmd \<times> 'x host" where
  "snp_launch_update E k c s =
     (if \<not> sev_snp_guest k s then (- ENOTTY, c, s)
      else if snp_context (sev_of k s) = None then (- EINVAL, c, s)
      else (case get_launch_update E (cmd_data c) (world s) of
              None \<Rightarrow> (- EFAULT, c, s)
            | Some params \<Rightarrow>
                kvm_vm_do_hva_range_op E k (lu_uaddr params) (lu_uaddr params + lu_len params)
                  (snp_launch_update_gfn_handler E k) c s))"

section \<open>Save areas\<close>

definition sev_es_sync_vmsa :: "'x sev_env \<Rightarrow> nat \<Rightarrow> vm_vcpu \<Rightarrow> 'x host \<Rightarrow> int \<times> vm_vcpu \<times> 'x host" where
  "sev_es_sync_vmsa E k v s =
     (if guest_debug v \<or> vmcb_dr7 v AND NOT (DR7_FIXED_1 E) \<noteq> 0 then (- EINVAL, v, s)
      else (let save = (vmsa v)\<lparr>save_base := vmcb_base v, save_vmpl := vmcb_vmpl v\<rparr>;
                save = save\<lparr>save_regs := arch_regs v, save_rip := arch_rip v, save_xcr0 := arch_xcr0 v,
                         save_pkru := arch_pkru v, save_xss := arch_xss v, save_dr6 := arch_dr6 v\<rparr>;
                save = (if debug_swap_enabled E
                        then save\<lparr>save_features := save_features save OR SEV_FEAT_DEBUG_SWAP E\<rparr> else save);
                save = (if sev_snp_guest k s
                        then save\<lparr>save_features := save_features save OR SEV_FEAT_SNP_ACTIVE E\<rparr> else save);
                restricted = (sev_snp_guest k s \<and> has_snp_feature (sev_of k s) (RESTRICTED_INJET E));
                save = (if restricted
                        then save\<lparr>save_features := save_features save OR SEV_FEAT_RESTRICTED_INJECTION E\<rparr> else save);
                (ret, x) = (if restricted \<and> lapic_in_kernel v then enable_x2apic E (world s) else (0, world s));
                s = s\<lparr>world := x\<rparr>; v = v\<lparr>vmsa := save\<rparr>
            in if ret < 0 then (ret, v, s)
               else (0, v, on_sev k (\<lambda>i. i\<lparr>features_of_level :=
                                              (features_of_level i)(save_vmpl save := save_features save)\<rparr>) s)))"

definition put_vm_vcpu :: "nat \<Rightarrow> nat \<Rightarrow> vm_vcpu \<Rightarrow> 'x host \<Rightarrow> 'x host" where
  "put_vm_vcpu k i v s = s\<lparr>kvms := (kvms s)(k := (kvms s k)\<lparr>vm_vcpus := (vm_vcpus (kvms s k))[i := v]\<rparr>)\<rparr>"

definition launch_update_vcpu :: "'x sev_env \<Rightarrow> nat \<Rightarrow> nat \<Rightarrow> sev_cmd \<Rightarrow> 'x host \<Rightarrow> int \<times> sev_cmd \<times> 'x host" where
  "launch_update_vcpu E k i c s =
     (let v = vm_vcpus (kvms s k) ! i; pfn = vmsa_page v;
          (ret, v, s) = sev_es_sync_vmsa E k v s; s = put_vm_vcpu k i v s
      in if ret \<noteq> 0 then (ret, c, s)
         else (let (ret, x) = rmp_make_private E pfn INITIAL_VMSA_GPA PG_LEVEL_4K (asid (sev_of k s)) True (world s);
                   s = s\<lparr>world := x\<rparr>
               in if ret \<noteq> 0 then (ret, c, s)
                  else (let (ret, error, s) = do_issue_cmd E (cmd_fd c)
                                (SNP_LAUNCH_UPDATE (the (snp_context (sev_of k s))) pfn (PAGE_TYPE_VMSA E) [])
                                (cmd_error c) s;
                            c = c\<lparr>cmd_error := error\<rparr>
                        in if ret \<noteq> 0 then (ret, c, snd (snp_page_reclaim E pfn s)) else (0, c, s))))"

definition protect_vcpu :: "nat \<Rightarrow> nat \<Rightarrow> 'x host \<Rightarrow> 'x host" where
  "protect_vcpu k i s = put_vm_vcpu k i ((vm_vcpus (kvms s k) ! i)\<lparr>guest_state_protected := True\<rparr>) s"

fun update_vcpus :: "'x sev_env \<Rightarrow> nat \<Rightarrow> nat list \<Rightarrow> sev_cmd \<Rightarrow> 'x host \<Rightarrow> int \<times> sev_cmd \<times> 'x host" where
  "update_vcpus E k [] c s = (0, c, s)"
| "update_vcpus E k (i # is) c s =
     (let (ret, c, s) = (if \<not> has_snp_feature (sev_of k s) (SVSM E) \<or> i = 0 then launch_update_vcpu E k i c s else (0, c, s))
      in if ret \<noteq> 0 then (ret, c, s) else update_vcpus E k is c (protect_vcpu k i s))"

definition snp_launch_update_vmsa :: "'x sev_env \<Rightarrow> nat \<Rightarrow> sev_cmd \<Rightarrow> 'x host \<Rightarrow> int \<times> sev_cmd \<times> 'x host" where
  "snp_launch_update_vmsa E k c s = update_vcpus E k [0..<length (vm_vcpus (kvms s k))] c s"

section \<open>The end of a launch\<close>

definition snp_launch_finish :: "'x sev_env \<Rightarrow> nat \<Rightarrow> sev_cmd \<Rightarrow> 'x host \<Rightarrow> int \<times> sev_cmd \<times> 'x host" where
  "snp_launch_finish E k c s =
     (if \<not> sev_snp_guest k s then (- ENOTTY, c, s)
      else if snp_context (sev_of k s) = None then (- EINVAL, c, s)
      else (case get_launch_finish E (cmd_data c) (world s) of
              None \<Rightarrow> (- EFAULT, c, s)
            | Some params \<Rightarrow>
                (let (ret, c, s) = snp_launch_update_vmsa E k c s
                 in if ret \<noteq> 0 then (ret, c, s)
                    else if \<not> kmalloc_ok E (LAUNCH_FINISH_SIZE E) (world s) then (- ENOMEM, c, s)
                    else (let finish = (\<lambda>blk auth auth_key.
                                 let (ret, error, s) = sev_issue_cmd E k
                                       (SNP_LAUNCH_FINISH (the (snp_context (sev_of k s))) blk auth auth_key
                                          (lf_host_data params)) (cmd_error c) s
                                 in (ret, c\<lparr>cmd_error := error\<rparr>, s))
                          in case lf_id_block params of
                               None \<Rightarrow> finish None None False
                             | Some uaddr \<Rightarrow>
                                 (case copy_user_blob E uaddr (ID_BLOCK_SIZE E) (world s) of
                                    Inl err \<Rightarrow> (err, c, s)
                                  | Inr blk \<Rightarrow>
                                      (case copy_user_blob E (lf_id_auth params) (ID_AUTH_SIZE E) (world s) of
                                         Inl err \<Rightarrow> (err, c, s)
                                       | Inr auth \<Rightarrow> finish (Some blk) (Some auth) (lf_auth_key params)))))))"

end
