(* ===== verification/Sev_Gmem.thy ===== *)
theory Sev_Gmem
  imports Sev_Launch
begin

text \<open>
  The host: which pages belong to an SNP guest.  \<open>host/kvm/svm/sev.c\<close> enters a page into the reverse map
  table (RMP) before the guest uses it (\<open>sev_gmem_prepare\<close>), takes it out before the kernel gets it
  back (\<open>sev_gmem_invalidate\<close>) and splits a large entry that the guest uses in small parts.  The table
  itself is in the hardware; what its operations do is documented and is stated as \<open>rmp_laws\<close>.
\<close>

section \<open>Operations\<close>

definition ALIGN_DOWN :: "u64 \<Rightarrow> u64 \<Rightarrow> u64" where
  "ALIGN_DOWN x a = x AND NOT (a - 1)"

definition clflush_cache_range :: "u64 \<Rightarrow> u64 \<Rightarrow> 'x host \<Rightarrow> 'x host" where
  "clflush_cache_range pfn n s = s\<lparr>events := Clflush pfn n # events s\<rparr>"

definition snp_rmptable_psmash :: "'x sev_env \<Rightarrow> u64 \<Rightarrow> 'x host \<Rightarrow> int \<times> 'x host" where
  "snp_rmptable_psmash E pfn s =
     (let (rc, x) = psmash E (pfn AND NOT (PTRS_PER_PMD - 1)) (world s) in (rc, s\<lparr>world := x\<rparr>))"

function is_pfn_range_shared :: "'x sev_env \<Rightarrow> 'x \<Rightarrow> u64 \<Rightarrow> u64 \<Rightarrow> bool" where
  "is_pfn_range_shared E x pfn stop =
     (if pfn < stop
      then (let (ret, assigned, _) = rmp_lookup E pfn x
            in if ret \<noteq> 0 \<or> assigned then False else is_pfn_range_shared E x (pfn + 1) stop)
      else True)"
  by auto
termination
proof (relation "measure (\<lambda>(E, x, pfn, stop). unat (stop - pfn))")
  fix E :: "'x sev_env" and x :: 'x and pfn stop :: u64 and r y a b
  assume "pfn < stop"
  then have "stop - pfn \<noteq> 0" by auto
  then have "unat (stop - pfn - 1) < unat (stop - pfn)" by (simp add: unat_minus_one unat_gt_0)
  then show "((E, x, pfn + 1, stop), E, x, pfn, stop) \<in> measure (\<lambda>(E, x, pfn, stop). unat (stop - pfn))"
    by (simp add: diff_diff_eq)
qed auto

declare is_pfn_range_shared.simps [simp del]

definition max_level_for_order :: "nat \<Rightarrow> nat" where
  "max_level_for_order order = (if 9 \<le> order then PG_LEVEL_2M else PG_LEVEL_4K)"

definition is_large_rmp_possible :: "'x sev_env \<Rightarrow> u64 \<Rightarrow> nat \<Rightarrow> 'x host \<Rightarrow> bool" where
  "is_large_rmp_possible E pfn order s =
     (let pfn_aligned = ALIGN_DOWN pfn PTRS_PER_PMD
      in PG_LEVEL_4K < max_level_for_order order
         \<and> is_pfn_range_shared E (world s) pfn_aligned (pfn_aligned + PTRS_PER_PMD))"

definition ENOENT :: int where "ENOENT = 2"

definition sev_gmem_prepare :: "'x sev_env \<Rightarrow> nat \<Rightarrow> u64 \<Rightarrow> u64 \<Rightarrow> nat \<Rightarrow> 'x host \<Rightarrow> int \<times> 'x host" where
  "sev_gmem_prepare E k pfn gfn max_order s =
     (if \<not> sev_snp_guest k s then (0, s)
      else (let (rc, assigned, _) = rmp_lookup E pfn (world s)
            in if rc \<noteq> 0 then (- ENOENT, s)
               else if assigned then (0, s)
               else (let large = is_large_rmp_possible E pfn max_order s;
                         level = (if large then PG_LEVEL_2M else PG_LEVEL_4K);
                         pfn_aligned = (if large then ALIGN_DOWN pfn PTRS_PER_PMD else pfn);
                         gfn_aligned = (if large then ALIGN_DOWN gfn PTRS_PER_PMD else gfn);
                         (rc, x) = rmp_make_private E pfn_aligned (push_bit 12 gfn_aligned) level (asid (sev_of k s)) False
                                     (world s);
                         s = s\<lparr>world := x\<rparr>
                     in if rc \<noteq> 0 then (- EINVAL, s) else (0, s))))"

text \<open>One round of the loop of \<open>sev_gmem_invalidate\<close>: how far it goes on, and the state.\<close>

definition invalidate_page :: "'x sev_env \<Rightarrow> u64 \<Rightarrow> u64 \<Rightarrow> 'x host \<Rightarrow> u64 \<times> 'x host" where
  "invalidate_page E pfn stop s =
     (let (rc, assigned, rmp_level) = rmp_lookup E pfn (world s)
      in if rc \<noteq> 0 \<or> \<not> assigned then (1, s)
         else (let use_2m_update = (pfn AND (PTRS_PER_PMD - 1) = 0 \<and> pfn + PTRS_PER_PMD \<le> stop \<and> PG_LEVEL_4K < rmp_level);
                   s = (if \<not> use_2m_update \<and> PG_LEVEL_4K < rmp_level then snd (snp_rmptable_psmash E pfn s) else s);
                   n = (if use_2m_update then PTRS_PER_PMD else 1);
                   (rc, x) = rmp_make_shared E pfn (if use_2m_update then PG_LEVEL_2M else PG_LEVEL_4K) (world s);
                   s = s\<lparr>world := x\<rparr>
               in (n, if rc \<noteq> 0 then s else clflush_cache_range pfn n s)))"

partial_function (option) sev_gmem_invalidate :: "'x sev_env \<Rightarrow> u64 \<Rightarrow> u64 \<Rightarrow> 'x host \<Rightarrow> 'x host option" where
  "sev_gmem_invalidate E pfn stop s =
     (if pfn < stop then (let (n, s) = invalidate_page E pfn stop s in sev_gmem_invalidate E (pfn + n) stop s)
      else Some s)"

definition sev_gmem_max_level :: "'x sev_env \<Rightarrow> nat \<Rightarrow> u64 \<Rightarrow> nat \<Rightarrow> 'x host \<Rightarrow> int \<times> nat" where
  "sev_gmem_max_level E k pfn max_level s =
     (if \<not> sev_snp_guest k s then (0, max_level)
      else (let (rc, assigned, level) = rmp_lookup E pfn (world s)
            in if rc \<noteq> 0 then (- ENOENT, max_level)
               else if \<not> assigned then (- EINVAL, max_level)
               else (0, if level < max_level then level else max_level)))"

definition kvm_zap_gfn_range :: "nat \<Rightarrow> u64 \<Rightarrow> u64 \<Rightarrow> 'x host \<Rightarrow> 'x host" where
  "kvm_zap_gfn_range k start stop s = s\<lparr>zapped := (k, start, stop) # zapped s\<rparr>"

definition handle_rmp_page_fault :: "'x sev_env \<Rightarrow> nat \<Rightarrow> u64 \<Rightarrow> 'x host \<Rightarrow> 'x host" where
  "handle_rmp_page_fault E k gpa s =
     (let gfn = drop_bit 12 gpa
      in if \<not> mem_is_private E k gfn (world s) then s
         else (case gfn_to_memslot E k gfn of
                 None \<Rightarrow> s
               | Some slot \<Rightarrow>
                   if \<not> can_be_private slot then s
                   else (let (ret, pfn, _, x) = gmem_get_pfn E k gfn True (world s); s = s\<lparr>world := x\<rparr>
                         in if ret \<noteq> 0 then s
                            else (let s = hold_page 1 pfn s; (ret, assigned, rmp_level) = rmp_lookup E pfn (world s);
                                      s = (if ret \<noteq> 0 \<or> \<not> assigned \<or> rmp_level = PG_LEVEL_4K then s
                                           else kvm_zap_gfn_range k gfn (gfn + PTRS_PER_PMD)
                                                  (snd (snp_rmptable_psmash E pfn s)))
                                  in hold_page (- 1) pfn s))))"

text \<open>Pages that the host gives to a vCPU and takes back.  The first is of two, the result the one kept.\<close>

definition snp_safe_alloc_page :: "bool \<Rightarrow> u64 option \<Rightarrow> u64 option \<Rightarrow> 'x host \<Rightarrow> u64 option \<times> 'x host" where
  "snp_safe_alloc_page snp one two s =
     (if \<not> snp then (one, s)
      else (case two of
              None \<Rightarrow> (None, s)
            | Some p \<Rightarrow>
                if p AND (PTRS_PER_PMD - 1) = 0 then (Some (p + 1), s\<lparr>freed_pages := p # freed_pages s\<rparr>)
                else (Some p, s\<lparr>freed_pages := (p + 1) # freed_pages s\<rparr>)))"

definition sev_flush_encrypted_page :: "'x sev_env \<Rightarrow> nat \<Rightarrow> u64 \<Rightarrow> 'x host \<Rightarrow> 'x host" where
  "sev_flush_encrypted_page E k pfn s =
     (if sme_coherent E then clflush_cache_range pfn 1 s
      else (let (r, x) = vm_page_flush E pfn (asid (sev_of k s)) (world s); s = s\<lparr>world := x\<rparr>
            in if r \<noteq> 0 then wbinvd_on_all_cpus s else s))"

definition sev_guest_memory_reclaimed :: "nat \<Rightarrow> 'x host \<Rightarrow> 'x host" where
  "sev_guest_memory_reclaimed k s =
     (if \<not> sev_guest k s \<or> sev_snp_guest k s then s else wbinvd_on_all_cpus s)"

definition sev_free_vcpu :: "'x sev_env \<Rightarrow> nat \<Rightarrow> vm_vcpu \<Rightarrow> 'x host \<Rightarrow> 'x host" where
  "sev_free_vcpu E k v s =
     (if \<not> sev_es_guest k s then s
      else (let pfn = vmsa_page v;
                (rc, s) = (if sev_snp_guest k s then host_rmp_make_shared E pfn PG_LEVEL_4K True s else (0, s));
                s = (if rc \<noteq> 0 then s
                     else (let s = (if guest_state_protected v then sev_flush_encrypted_page E k pfn s else s)
                           in s\<lparr>freed_pages := pfn # freed_pages s\<rparr>))
            in if ghcb_sa_free (es_state v) then s\<lparr>arrays := arrays s - 1\<rparr> else s))"

section \<open>The reverse map table\<close>

text \<open>
  An entry says which guest a page belongs to and where the guest has it.  \<open>R x\<close> is the table in the world
  \<open>x\<close>; the laws are what the hardware manual says of \<open>RMPUPDATE\<close> and \<open>PSMASH\<close> when they succeed.
\<close>

record rmp_entry =
  rmp_gpa :: u64
  rmp_asid :: nat
  rmp_large :: bool
  rmp_immutable :: bool

definition rmp_level :: "rmp_entry \<Rightarrow> nat" where
  "rmp_level e = (if rmp_large e then PG_LEVEL_2M else PG_LEVEL_4K)"

type_synonym 'x rmp_view = "'x \<Rightarrow> u64 \<Rightarrow> rmp_entry option"

definition rmp_laws :: "'x sev_env \<Rightarrow> 'x rmp_view \<Rightarrow> bool" where
  "rmp_laws E R \<longleftrightarrow>
     (\<forall>p x a l. rmp_lookup E p x = (0, a, l) \<longrightarrow> (a \<longleftrightarrow> R x p \<noteq> None) \<and> (\<forall>e. R x p = Some e \<longrightarrow> l = rmp_level e))
     \<and> (\<forall>p g l a i x q. R (snd (rmp_make_private E p g l a i x)) q =
          (if fst (rmp_make_private E p g l a i x) = 0 \<and> q - p < level_pages l
           then Some \<lparr>rmp_gpa = g + push_bit 12 (q - p), rmp_asid = a, rmp_large = (l \<noteq> PG_LEVEL_4K), rmp_immutable = i\<rparr> else R x q))
     \<and> (\<forall>p l x q. R (snd (rmp_make_shared E p l x)) q =
          (if fst (rmp_make_shared E p l x) = 0 \<and> q - p < level_pages l then None else R x q))
     \<and> (\<forall>p x q. R (snd (psmash E p x)) q =
          (if fst (psmash E p x) = 0 \<and> q - p < PTRS_PER_PMD
           then map_option (\<lambda>e. e\<lparr>rmp_large := False\<rparr>) (R x q) else R x q))"

text \<open>When they succeed: an entry can be taken out at its own level, and a large one can be split.\<close>

definition rmp_works :: "'x sev_env \<Rightarrow> 'x rmp_view \<Rightarrow> bool" where
  "rmp_works E R \<longleftrightarrow>
     (\<forall>p x. fst (rmp_lookup E p x) = 0) \<and> (\<forall>p x. fst (psmash E p x) = 0)
     \<and> (\<forall>p l x e. R x p = Some e \<longrightarrow> rmp_level e = l \<longrightarrow> fst (rmp_make_shared E p l x) = 0)"

lemma lookup_law:
  assumes "rmp_laws E R" "rmp_lookup E p x = (0, a, l)"
  shows "a \<longleftrightarrow> R x p \<noteq> None" "R x p = Some e \<Longrightarrow> l = rmp_level e"
  using assms by (simp_all add: rmp_laws_def)

lemma private_law:
  assumes "rmp_laws E R" "rmp_make_private E p g l a i x = (rc, x')"
  shows "R x' q =
    (if rc = 0 \<and> q - p < level_pages l
     then Some \<lparr>rmp_gpa = g + push_bit 12 (q - p), rmp_asid = a, rmp_large = (l \<noteq> PG_LEVEL_4K), rmp_immutable = i\<rparr> else R x q)"
proof -
  from assms(1) have "R (snd (rmp_make_private E p g l a i x)) q =
      (if fst (rmp_make_private E p g l a i x) = 0 \<and> q - p < level_pages l
       then Some \<lparr>rmp_gpa = g + push_bit 12 (q - p), rmp_asid = a, rmp_large = (l \<noteq> PG_LEVEL_4K), rmp_immutable = i\<rparr> else R x q)"
    unfolding rmp_laws_def by blast
  with assms(2) show ?thesis by simp
qed

lemma shared_law:
  assumes "rmp_laws E R" "rmp_make_shared E p l x = (rc, x')"
  shows "R x' q = (if rc = 0 \<and> q - p < level_pages l then None else R x q)"
proof -
  from assms(1) have "R (snd (rmp_make_shared E p l x)) q =
      (if fst (rmp_make_shared E p l x) = 0 \<and> q - p < level_pages l then None else R x q)"
    unfolding rmp_laws_def by blast
  with assms(2) show ?thesis by simp
qed

lemma psmash_law:
  assumes "rmp_laws E R" "psmash E p x = (rc, x')"
  shows "R x' q =
    (if rc = 0 \<and> q - p < PTRS_PER_PMD then map_option (\<lambda>e. e\<lparr>rmp_large := False\<rparr>) (R x q) else R x q)"
proof -
  from assms(1) have "R (snd (psmash E p x)) q =
      (if fst (psmash E p x) = 0 \<and> q - p < PTRS_PER_PMD
       then map_option (\<lambda>e. e\<lparr>rmp_large := False\<rparr>) (R x q) else R x q)"
    unfolding rmp_laws_def by blast
  with assms(2) show ?thesis by simp
qed

section \<open>Blocks of 512 pages\<close>

lemma level_pages_simps [simp]:
  "level_pages PG_LEVEL_4K = 1" "level_pages PG_LEVEL_2M = 512" "PTRS_PER_PMD = 512"
  by (simp_all add: level_pages_def PG_LEVEL_4K_def PG_LEVEL_2M_def PTRS_PER_PMD_def)

lemma less_1_word [simp]: "(x :: u64) < 1 \<longleftrightarrow> x = 0"
  by (simp add: word_less_nat_alt unat_eq_0)

lemma align_split: "ALIGN_DOWN p 512 + (p AND 511) = (p :: u64)"
proof -
  have "(p AND NOT 511) + (p AND 511) = (p AND NOT 511) OR (p AND 511)" by (rule disjunctive_add) (auto simp: bit_simps)
  also have "\<dots> = p" by (rule bit_eqI) (auto simp: bit_simps)
  finally show ?thesis by (simp add: ALIGN_DOWN_def)
qed

lemma below_512: "(p AND 511 :: u64) < 512"
proof -
  have "p AND 511 \<le> 511" by (rule word_and_le1)
  then show ?thesis by (rule le_less_trans) simp
qed

text \<open>Frame numbers: physical addresses have at most 52 bits.\<close>

definition frame :: "u64 \<Rightarrow> bool" where
  "frame p \<longleftrightarrow> p < 0x10000000000000"

lemma range_shared_none:
  assumes "rmp_laws E R" "is_pfn_range_shared E x pfn stop" "pfn \<le> q" "q < stop"
  shows "R x q = None"
  using assms
proof (induction E x pfn stop rule: is_pfn_range_shared.induct)
  case (1 E x pfn stop)
  obtain r a l where l: "rmp_lookup E pfn x = (r, a, l)" by (cases "rmp_lookup E pfn x")
  with 1(3-5) have "r = 0" "\<not> a" "is_pfn_range_shared E x (pfn + 1) stop" "pfn < stop"
    by (auto simp: is_pfn_range_shared.simps [of E x pfn] split: if_splits)
  show ?case
  proof (cases "q = pfn")
    case True
    then show ?thesis using lookup_law(1) [OF 1(2)] l \<open>r = 0\<close> \<open>\<not> a\<close> by blast
  next
    case False
    then have "pfn + 1 \<le> q" using \<open>pfn \<le> q\<close> by (metis inc_le order_le_less)
    with 1(1) l \<open>r = 0\<close> \<open>\<not> a\<close> \<open>pfn < stop\<close> \<open>is_pfn_range_shared E x (pfn + 1) stop\<close> \<open>q < stop\<close>
    show ?thesis using 1(2) by auto
  qed
qed

lemma unat_add_small: "(a :: u64) < 0x1000000000000000 \<Longrightarrow> b < 0x1000000000000000 \<Longrightarrow> unat (a + b) = unat a + unat b"
  by (subst unat_add_lem [symmetric]) (simp add: word_less_nat_alt)

lemma in_block:
  assumes "frame p" "q - ALIGN_DOWN p 512 < (512 :: u64)"
  shows "ALIGN_DOWN p 512 \<le> q" "q < ALIGN_DOWN p 512 + 512"
proof -
  let ?a = "ALIGN_DOWN p 512" and ?d = "q - ALIGN_DOWN p 512"
  have "?a \<le> p" by (simp add: ALIGN_DOWN_def word_and_le2)
  also have "p < 0x1000000000000000" using assms(1) unfolding frame_def by (rule less_trans) simp
  finally have a: "?a < 0x1000000000000000" .
  have d: "?d < 0x1000000000000000" using assms(2) by (rule less_trans) simp
  have "unat q = unat ?a + unat ?d" using unat_add_small [OF a d] by simp
  moreover have "unat (?a + 512) = unat ?a + 512" using unat_add_small [OF a, of 512] by simp
  moreover have "unat ?d < 512" using assms(2) by (simp add: word_less_nat_alt)
  ultimately show "?a \<le> q" "q < ?a + 512" by (simp_all add: word_le_nat_alt word_less_nat_alt)
qed

lemma push12_small:
  assumes "(a :: u64) < 512" "b < 512" "push_bit 12 a = push_bit 12 b"
  shows "a = b"
proof -
  have u: "unat (push_bit 12 x) = unat x * 4096" if "(x :: u64) < 512" for x
  proof -
    have "unat x * unat (4096 :: u64) < 2 ^ 64" using that by (simp add: word_less_nat_alt)
    then have "unat (x * 4096) = unat x * unat (4096 :: u64)" by (subst unat_mult_lem [symmetric]) simp
    then show ?thesis by (simp add: push_bit_eq_mult)
  qed
  show ?thesis using u [OF assms(1)] u [OF assms(2)] assms(3) by (simp add: word_unat_eq_iff)
qed

lemma large_gpa:
  "push_bit 12 (ALIGN_DOWN g 512) + push_bit 12 (p - ALIGN_DOWN p 512) = push_bit 12 g \<longleftrightarrow> g AND 511 = (p AND 511 :: u64)"
proof -
  have p: "p - ALIGN_DOWN p 512 = p AND 511" by (metis align_split add_diff_cancel_left')
  have g: "push_bit 12 g = push_bit 12 (ALIGN_DOWN g 512) + push_bit 12 (g AND 511)"
    by (metis align_split push_bit_add)
  show ?thesis
    unfolding p by (subst g) (metis add_left_cancel push12_small [OF below_512 below_512])
qed

section \<open>Preparing and taking back pages\<close>

lemma prepare_outcome:
  assumes "rmp_laws E R" "sev_snp_guest k s" "frame pfn" "R (world s) pfn = None"
    and "sev_gmem_prepare E k pfn gfn order s = (0, s')"
  shows "\<exists>e. R (world s') pfn = Some e \<and> rmp_asid e = asid (sev_of k s)
      \<and> (rmp_level e = PG_LEVEL_4K \<or> rmp_level e = PG_LEVEL_2M \<and> 9 \<le> order)
      \<and> (rmp_gpa e = push_bit 12 gfn \<longleftrightarrow> rmp_level e = PG_LEVEL_4K \<or> gfn AND 511 = pfn AND 511)"
    and "\<forall>q. R (world s) q = None \<or> R (world s') q = R (world s) q"
proof -
  obtain rc a l where look: "rmp_lookup E pfn (world s) = (rc, a, l)" by (cases "rmp_lookup E pfn (world s)")
  with assms(2,5) have "rc = 0" by (auto simp: sev_gmem_prepare_def ENOENT_def split: if_splits)
  with look lookup_law(1) [OF assms(1)] assms(4) have na: "\<not> a" by blast
  let ?large = "is_large_rmp_possible E pfn order s"
  let ?p = "if ?large then ALIGN_DOWN pfn 512 else pfn" and ?g = "if ?large then ALIGN_DOWN gfn 512 else gfn"
  let ?l = "if ?large then PG_LEVEL_2M else PG_LEVEL_4K"
  obtain rc2 x where p: "rmp_make_private E ?p (push_bit 12 ?g) ?l (asid (sev_of k s)) False (world s) = (rc2, x)"
    by (cases "rmp_make_private E ?p (push_bit 12 ?g) ?l (asid (sev_of k s)) False (world s)")
  with assms(2,5) look \<open>rc = 0\<close> na have "rc2 = 0" "world s' = x"
    by (auto simp: sev_gmem_prepare_def EINVAL_def Let_def split: if_splits)
  note law = private_law [OF assms(1) p, unfolded \<open>rc2 = 0\<close>, folded \<open>world s' = x\<close>]
  have d: "pfn - ALIGN_DOWN pfn 512 < 512" using below_512 [of pfn] by (metis align_split add_diff_cancel_left')
  show "\<exists>e. R (world s') pfn = Some e \<and> rmp_asid e = asid (sev_of k s)
      \<and> (rmp_level e = PG_LEVEL_4K \<or> rmp_level e = PG_LEVEL_2M \<and> 9 \<le> order)
      \<and> (rmp_gpa e = push_bit 12 gfn \<longleftrightarrow> rmp_level e = PG_LEVEL_4K \<or> gfn AND 511 = pfn AND 511)"
  proof (cases ?large)
    case True
    then have "9 \<le> order" by (simp add: is_large_rmp_possible_def Let_def max_level_for_order_def PG_LEVEL_4K_def split: if_splits)
    with True law [of pfn] d large_gpa [of gfn pfn] show ?thesis
      by (simp add: rmp_level_def PG_LEVEL_4K_def PG_LEVEL_2M_def level_pages_def PTRS_PER_PMD_def)
  next
    case False
    with law [of pfn] show ?thesis by (simp add: rmp_level_def)
  qed
  show "\<forall>q. R (world s) q = None \<or> R (world s') q = R (world s) q"
  proof
    fix q
    show "R (world s) q = None \<or> R (world s') q = R (world s) q"
    proof (cases ?large)
      case True
      then have "is_pfn_range_shared E (world s) (ALIGN_DOWN pfn 512) (ALIGN_DOWN pfn 512 + 512)"
        by (simp add: is_large_rmp_possible_def Let_def)
      from range_shared_none [OF assms(1) this] in_block [OF assms(3), of q] True law [of q] show ?thesis by auto
    next
      case False
      with law [of q] assms(4) show ?thesis by auto
    qed
  qed
qed

text \<open>
  C4  A page that was the kernel's belongs to the guest after it was prepared, alone or with the block of
  512 around it if all of that was the kernel's; pages that belong to a guest stay as they are.  The
  guest has the page where it asked for it, except if it came in a block and its number and that
  of the guest differ modulo 512.
\<close>
theorem prepared_page_belongs_to_guest:
  assumes "rmp_laws E R" "sev_snp_guest k s" "frame pfn" "R (world s) pfn = None"
    and "sev_gmem_prepare E k pfn gfn order s = (0, s')"
  shows "(\<exists>e. R (world s') pfn = Some e \<and> rmp_asid e = asid (sev_of k s)
      \<and> (rmp_level e = PG_LEVEL_4K \<or> rmp_level e = PG_LEVEL_2M \<and> 9 \<le> order)
      \<and> (rmp_gpa e = push_bit 12 gfn \<longleftrightarrow> rmp_level e = PG_LEVEL_4K \<or> gfn AND 511 = pfn AND 511))
    \<and> (\<forall>q. R (world s) q = None \<or> R (world s') q = R (world s) q)"
  using prepare_outcome [OF assms] by blast

text \<open>Whose a page is and where, whatever the size of its entry.\<close>

definition owner :: "rmp_entry option \<Rightarrow> (u64 \<times> nat \<times> bool) option" where
  "owner e = map_option (\<lambda>e. (rmp_gpa e, rmp_asid e, rmp_immutable e)) e"

lemma owner_simps [simp]:
  "owner None = None" "owner e = None \<longleftrightarrow> e = None" "owner (map_option (\<lambda>e. e\<lparr>rmp_large := l\<rparr>) e) = owner e"
  by (simp_all add: owner_def option.map_comp comp_def)

lemma invalidate_page_outcome:
  assumes "rmp_laws E R" "rmp_works E R" "invalidate_page E pfn stop s = (n, s')"
  shows "n = 1 \<or> n = 512 \<and> pfn + 512 \<le> stop"
    and "owner (R (world s') q) = (if q - pfn < n then None else owner (R (world s) q))"
    and "\<exists>new. events s' = new @ events s \<and> (R (world s) pfn \<noteq> None \<longrightarrow> Clflush pfn n \<in> set new)
      \<and> (R (world s) pfn = None \<longrightarrow> n = 1)"
proof -
  obtain a l where look: "rmp_lookup E pfn (world s) = (0, a, l)"
    using assms(2) by (metis rmp_works_def fst_conv prod_cases3)
  note law = lookup_law [OF assms(1) look]
  have "(n = 1 \<or> n = 512 \<and> pfn + 512 \<le> stop) \<and> (\<forall>q. owner (R (world s') q) = (if q - pfn < n then None else owner (R (world s) q)))
    \<and> (\<exists>new. events s' = new @ events s \<and> (R (world s) pfn \<noteq> None \<longrightarrow> Clflush pfn n \<in> set new)
      \<and> (R (world s) pfn = None \<longrightarrow> n = 1))"
  proof (cases "R (world s) pfn")
    case None
    then show ?thesis using assms(3) look law(1) by (auto simp: invalidate_page_def)
  next
    case (Some e)
    then have a: "a" and l: "l = rmp_level e" "l = PG_LEVEL_4K \<or> l = PG_LEVEL_2M"
      using law by (auto simp: rmp_level_def)
    let ?use = "pfn AND 511 = 0 \<and> pfn + 512 \<le> stop \<and> PG_LEVEL_4K < l"
    let ?n = "if ?use then 512 else 1" and ?l = "if ?use then PG_LEVEL_2M else PG_LEVEL_4K"
    let ?s1 = "if \<not> ?use \<and> PG_LEVEL_4K < l then snd (snp_rmptable_psmash E pfn s) else s"
    obtain rc x where sh: "rmp_make_shared E pfn ?l (world ?s1) = (rc, x)" by (cases "rmp_make_shared E pfn ?l (world ?s1)")
    have n: "n = ?n" and s': "s' = (if rc \<noteq> 0 then ?s1\<lparr>world := x\<rparr> else clflush_cache_range pfn ?n (?s1\<lparr>world := x\<rparr>))"
      using assms(3) look a sh by (auto simp: invalidate_page_def Let_def split: if_splits)
    have ev: "events ?s1 = events s" by (auto simp: snp_rmptable_psmash_def case_prod_unfold Let_def)
    have "owner (R (world ?s1) q) = owner (R (world s) q)" for q
    proof -
      obtain rc' x' where ps: "psmash E (ALIGN_DOWN pfn 512) (world s) = (rc', x')"
        by (cases "psmash E (ALIGN_DOWN pfn 512) (world s)")
      then have "world (snd (snp_rmptable_psmash E pfn s)) = x'"
        by (simp add: snp_rmptable_psmash_def ALIGN_DOWN_def)
      then show ?thesis using psmash_law [OF assms(1) ps, of q] by auto
    qed
    note own = this
    have "rc = 0"
    proof -
      have "\<exists>f. R (world ?s1) pfn = Some f \<and> rmp_level f = ?l"
      proof (cases "\<not> ?use \<and> PG_LEVEL_4K < l")
        case True
        obtain rc' x' where ps: "psmash E (ALIGN_DOWN pfn 512) (world s) = (rc', x')"
          by (cases "psmash E (ALIGN_DOWN pfn 512) (world s)")
        then have "world (snd (snp_rmptable_psmash E pfn s)) = x'" "rc' = 0"
          using assms(2) by (simp_all add: snp_rmptable_psmash_def ALIGN_DOWN_def) (metis fst_conv rmp_works_def)
        moreover have "pfn - ALIGN_DOWN pfn 512 < 512" using below_512 [of pfn] by (metis align_split add_diff_cancel_left')
        ultimately have "R (world (snd (snp_rmptable_psmash E pfn s))) pfn = Some (e\<lparr>rmp_large := False\<rparr>)"
          using psmash_law [OF assms(1) ps, of pfn] Some by simp
        then show ?thesis using True by (auto simp: rmp_level_def)
      next
        case False
        then show ?thesis using Some l by (auto simp: PG_LEVEL_4K_def PG_LEVEL_2M_def)
      qed
      then have "fst (rmp_make_shared E pfn ?l (world ?s1)) = 0" using assms(2) unfolding rmp_works_def by blast
      with sh show ?thesis by simp
    qed
    have lp: "level_pages ?l = ?n" by simp
    have "world s' = x" "events s' = Clflush pfn ?n # events s"
      using s' \<open>rc = 0\<close> ev by (simp_all add: clflush_cache_range_def)
    then show ?thesis using n shared_law [OF assms(1) sh] own \<open>rc = 0\<close> Some unfolding lp by auto
  qed
  then show "n = 1 \<or> n = 512 \<and> pfn + 512 \<le> stop"
    and "owner (R (world s') q) = (if q - pfn < n then None else owner (R (world s) q))"
    and "\<exists>new. events s' = new @ events s \<and> (R (world s) pfn \<noteq> None \<longrightarrow> Clflush pfn n \<in> set new)
      \<and> (R (world s) pfn = None \<longrightarrow> n = 1)"
    by blast+
qed

lemma offset_less:
  assumes "unat (p :: u64) + unat n < 2 ^ 64"
  shows "q - p < n \<longleftrightarrow> p \<le> q \<and> q < p + n"
proof (cases "p \<le> q")
  case True
  have "unat (p + n) = unat p + unat n" using assms by (subst unat_add_lem [symmetric]) simp
  moreover have "unat (q - p) = unat q - unat p" using True by (simp add: unat_sub word_le_nat_alt)
  ultimately show ?thesis using True by (simp add: word_less_nat_alt word_le_nat_alt less_diff_conv2 add.commute)
next
  case False
  then have "unat (q - p) = 2 ^ 64 + unat q - unat p" by (intro unat_sub_wrap) simp
  then show ?thesis using False assms by (simp add: word_less_nat_alt word_le_nat_alt)
qed

lemma invalidate_round:
  assumes "frame stop" "pfn < stop" "n = 1 \<or> n = 512 \<and> pfn + 512 \<le> stop"
  shows "pfn + n \<le> stop" "unat (stop - (pfn + n)) < unat (stop - pfn)"
    "q - pfn < n \<longleftrightarrow> pfn \<le> q \<and> q < pfn + n" "pfn \<le> pfn + n"
proof -
  have "unat stop < 0x10000000000000" using assms(1) by (simp add: frame_def word_less_nat_alt)
  moreover have "unat pfn < unat stop" using assms(2) by (simp add: word_less_nat_alt)
  moreover have "unat n = 1 \<or> unat n = 512" using assms(3) by auto
  ultimately have nw: "unat pfn + unat n < 2 ^ 64" by auto
  then have u: "unat (pfn + n) = unat pfn + unat n" by (subst unat_add_lem [symmetric]) simp
  show le: "pfn + n \<le> stop" using assms(2,3) by (auto intro: inc_le)
  show "q - pfn < n \<longleftrightarrow> pfn \<le> q \<and> q < pfn + n" by (rule offset_less [OF nw])
  show "pfn \<le> pfn + n" using u by (simp add: word_le_nat_alt)
  have "unat (stop - (pfn + n)) = unat stop - unat (pfn + n)" "unat (stop - pfn) = unat stop - unat pfn"
    using le assms(2) by (simp_all add: unat_sub)
  then show "unat (stop - (pfn + n)) < unat (stop - pfn)"
    using u \<open>unat n = 1 \<or> unat n = 512\<close> \<open>unat pfn < unat stop\<close> by auto
qed

definition flushed :: "u64 \<Rightarrow> event list \<Rightarrow> bool" where
  "flushed q h \<longleftrightarrow> list_ex (\<lambda>e. case e of Clflush p n \<Rightarrow> q - p < n | _ \<Rightarrow> False) h"

lemma flushed_append [simp]: "flushed q (g @ h) \<longleftrightarrow> flushed q g \<or> flushed q h"
  by (simp add: flushed_def)

lemma flushed_member: "Clflush p n \<in> set h \<Longrightarrow> q - p < n \<Longrightarrow> flushed q h"
  by (force simp: flushed_def list_ex_iff)

lemmas gmem_invalidate_simps = sev_gmem_invalidate.simps

lemma invalidate_range:
  assumes "rmp_laws E R" "rmp_works E R" "frame stop"
  shows "\<exists>s' new. sev_gmem_invalidate E start stop s = Some s' \<and> events s' = new @ events s
    \<and> (\<forall>q. owner (R (world s') q) = (if start \<le> q \<and> q < stop then None else owner (R (world s) q)))
    \<and> (\<forall>q. \<not> (start \<le> q \<and> q < stop \<and> R (world s) q \<noteq> None)
          \<or> flushed q new)"
proof (induction "unat (stop - start)" arbitrary: start s rule: less_induct)
  case less
  show ?case
  proof (cases "start < stop")
    case False
    then have "sev_gmem_invalidate E start stop s = Some s" by (subst gmem_invalidate_simps) simp
    moreover have "\<not> (start \<le> q \<and> q < stop)" for q using False by auto
    ultimately show ?thesis by (auto intro!: exI [of _ s])
  next
    case True
    obtain n t where p: "invalidate_page E start stop s = (n, t)" by (cases "invalidate_page E start stop s")
    note o = invalidate_page_outcome [OF assms(1,2) p]
    note r = invalidate_round [OF assms(3) True o(1)]
    from o(3) obtain new1 where e1: "events t = new1 @ events s" "R (world s) start \<noteq> None \<longrightarrow> Clflush start n \<in> set new1"
      "R (world s) start = None \<longrightarrow> n = 1"
      by (elim exE conjE) (rule that)
    from less [OF r(2), of t] obtain s' new2 where s': "sev_gmem_invalidate E (start + n) stop t = Some s'"
      "events s' = new2 @ events t"
      "\<forall>q. owner (R (world s') q) = (if start + n \<le> q \<and> q < stop then None else owner (R (world t) q))"
      "\<forall>q. \<not> (start + n \<le> q \<and> q < stop \<and> R (world t) q \<noteq> None)
          \<or> flushed q new2"
      by (elim exE conjE) (rule that)
    have "sev_gmem_invalidate E start stop s = Some s'"
      using True p s'(1) by (subst gmem_invalidate_simps) simp
    moreover have "owner (R (world s') q) = (if start \<le> q \<and> q < stop then None else owner (R (world s) q))" for q
    proof -
      have w: "owner (R (world s') q) = (if start + n \<le> q \<and> q < stop then None else owner (R (world t) q))"
        using s'(3) by blast
      have t: "owner (R (world t) q) = (if start \<le> q \<and> q < start + n then None else owner (R (world s) q))"
        using o(2) [of q] by (simp only: r(3))
      have "start + n \<le> q \<Longrightarrow> start \<le> q" "q < start + n \<Longrightarrow> q < stop"
        by (rule order.trans [OF r(4)], assumption, rule less_le_trans [OF _ r(1)])
      then show ?thesis unfolding w t by (cases "start + n \<le> q"; cases "q < start + n") auto
    qed
    moreover have "\<not> (start \<le> q \<and> q < stop \<and> R (world s) q \<noteq> None)
        \<or> flushed q (new2 @ new1)" for q
    proof (cases "start + n \<le> q")
      case True
      then have "\<not> q < start + n" by (simp add: not_less)
      then have "owner (R (world t) q) = owner (R (world s) q)" using o(2) [of q] unfolding r(3) by simp
      then have "R (world t) q = None \<longleftrightarrow> R (world s) q = None" by (metis owner_simps(2))
      then show ?thesis using s'(4) True by auto
    next
      case F: False
      show ?thesis
      proof (cases "start \<le> q \<and> R (world s) q \<noteq> None")
        case t: True
        then have q: "q - start < n" using F unfolding r(3) by (simp add: not_le)
        have "R (world s) start \<noteq> None"
        proof
          assume none: "R (world s) start = None"
          then have "q = start" using q e1(3) by simp
          then show False using t none by simp
        qed
        then have "Clflush start n \<in> set new1" using e1(2) by blast
        then show ?thesis using q flushed_member by auto
      qed auto
    qed
    ultimately show ?thesis using s'(2) e1(1) by (intro exI [of _ s'] exI [of _ "new2 @ new1"]) auto
  qed
qed


section \<open>Pages put in at launch\<close>

text \<open>Who has a page; the firmware changes the other parts of the entry of a page it encrypted.\<close>

definition who :: "rmp_entry option \<Rightarrow> (u64 \<times> nat) option" where
  "who e = map_option (\<lambda>e. (rmp_gpa e, rmp_asid e)) e"

lemma who_simps [simp]: "who None = None" "who e = None \<longleftrightarrow> e = None"
  "who (Some f) = Some (rmp_gpa f, rmp_asid f)"
  by (simp_all add: who_def)

text \<open>
  The file that backs the guest gives the same page \<open>pf g\<close> for a frame each time; finding it, copying into it
  and encrypting it change nobody's pages.
\<close>

definition launch_memory :: "'x sev_env \<Rightarrow> 'x rmp_view \<Rightarrow> nat \<Rightarrow> (u64 \<Rightarrow> u64) \<Rightarrow> bool" where
  "launch_memory E R k pf \<longleftrightarrow>
     (\<forall>g x. fst (gmem_get_pfn E k g False x) = 0 \<longrightarrow> fst (snd (gmem_get_pfn E k g False x)) = pf g)
     \<and> (\<forall>g x q. who (R (snd (snd (snd (gmem_get_pfn E k g False x)))) q) = who (R x q))
     \<and> (\<forall>g p x q. who (R (snd (read_guest_page E k g p x)) q) = who (R x q))
     \<and> (\<forall>fd c x q. who (R (snd (snd (firmware_fd E fd c x))) q) = who (R x q))"

lemma launch_memoryD:
  assumes "launch_memory E R k pf"
  shows "gmem_get_pfn E k g False x = (0, p, n, x') \<Longrightarrow> p = pf g \<and> who (R x' q) = who (R x q)"
    and "read_guest_page E k g p x = (r, x') \<Longrightarrow> who (R x' q) = who (R x q)"
    and "firmware_fd E fd c x = (r, err, x') \<Longrightarrow> who (R x' q) = who (R x q)"
proof -
  show "gmem_get_pfn E k g False x = (0, p, n, x') \<Longrightarrow> p = pf g \<and> who (R x' q) = who (R x q)"
    using assms unfolding launch_memory_def by (metis fst_conv snd_conv)
  show "read_guest_page E k g p x = (r, x') \<Longrightarrow> who (R x' q) = who (R x q)"
    using assms unfolding launch_memory_def by (metis snd_conv)
  show "firmware_fd E fd c x = (r, err, x') \<Longrightarrow> who (R x' q) = who (R x q)"
    using assms unfolding launch_memory_def by (metis snd_conv)
qed

definition launch_cmd :: "kvm_sev_info \<Rightarrow> launch_update_params \<Rightarrow> u64 \<Rightarrow> event" where
  "launch_cmd i params p =
     Cmd (SNP_LAUNCH_UPDATE (the (snp_context i)) p (lu_page_type params) (lu_perms params)) 0"

lemma make_shared_host:
  "held_pages (snd (host_rmp_make_shared E p l b s)) = held_pages s" "arrays (snd (host_rmp_make_shared E p l b s)) = arrays s"
  "kvms (snd (host_rmp_make_shared E p l b s)) = kvms s" "events (snd (host_rmp_make_shared E p l b s)) = events s"
  by (simp_all add: host_rmp_make_shared_def snp_leak_pages_def Let_def case_prod_unfold)

lemma reclaim_host:
  "held_pages (snd (snp_page_reclaim E p s)) = held_pages s" "arrays (snd (snp_page_reclaim E p s)) = arrays s"
  "kvms (snd (snp_page_reclaim E p s)) = kvms s"
  by (simp_all add: snp_page_reclaim_def snp_leak_pages_def sev_do_cmd_def Let_def case_prod_unfold)

text \<open>One round: what it did when it went on, and that it holds the pages of its list.\<close>

lemma launch_page_holds:
  assumes "launch_page E k params g pfns c s = (ret, now, pfns', c', s')"
  shows "arrays s' = arrays s \<and> kvms s' = kvms s \<and> (now \<longrightarrow> ret = - EFAULT \<and> pfns' \<noteq> [])
    \<and> (\<exists>ps. pfns' = pfns @ ps \<and> held_pages s' = (\<lambda>p. held_pages s p + int (count_list ps p)))"
proof -
  obtain r p n x where g: "gmem_get_pfn E k g False (world s) = (r, p, n, x)" by (cases "gmem_get_pfn E k g False (world s)")
  show ?thesis
  proof (cases "r = 0")
    case False
    then show ?thesis using assms g by (auto simp: launch_page_def Let_def)
  next
    case True
    have "held_pages s' = (held_pages s)(p := held_pages s p + 1) \<and> arrays s' = arrays s \<and> kvms s' = kvms s
      \<and> (now \<longrightarrow> ret = - EFAULT) \<and> pfns' = pfns @ [p]"
      using assms g True
      by (auto simp: launch_page_def hold_page_def do_issue_cmd_def make_shared_host reclaim_host Let_def case_prod_unfold
          split: if_splits)
    then show ?thesis by auto
  qed
qed

lemma launch_page_success:
  assumes "rmp_laws E R" "launch_memory E R k pf" "launch_page E k params g pfns c s = (0, now, pfns', c', s')"
  shows "pfns' = pfns @ [pf g]" "events s' = launch_cmd (sev_of k s) params (pf g) # events s" "R (world s) (pf g) = None"
    and "who (R (world s') q) = (if q = pf g then Some (push_bit 12 g, asid (sev_of k s)) else who (R (world s) q))"
proof -
  obtain p n x1 where g: "gmem_get_pfn E k g False (world s) = (0, p, n, x1)"
    using assms(3) by (cases "gmem_get_pfn E k g False (world s)") (auto simp: launch_page_def Let_def split: if_splits)
  note m = launch_memoryD [OF assms(2)]
  have p: "p = pf g" using m(1) [OF g] by simp
  obtain r a l where look: "rmp_lookup E p x1 = (r, a, l)" by (cases "rmp_lookup E p x1")
  then have ra: "r = 0" "\<not> a" "addr_valid E p"
    using assms(3) g by (auto simp: launch_page_def hold_page_def EFAULT_def EINVAL_def Let_def split: if_splits)
  obtain r2 x2 where rd: "read_guest_page E k g p x1 = (r2, x2)" by (cases "read_guest_page E k g p x1")
  then have r2: "r2 = 0" using assms(3) g look ra by (auto simp: launch_page_def hold_page_def Let_def split: if_splits)
  obtain r3 x3 where pr: "rmp_make_private E p (push_bit 12 g) PG_LEVEL_4K (asid (sev_of k s)) True x2 = (r3, x3)"
    by (cases "rmp_make_private E p (push_bit 12 g) PG_LEVEL_4K (asid (sev_of k s)) True x2")
  then have r3: "r3 = 0"
    using assms(3) g look ra rd r2
    by (auto simp: launch_page_def hold_page_def sev_of_def EFAULT_def Let_def split: if_splits)
  let ?c = "SNP_LAUNCH_UPDATE (the (snp_context (sev_of k s))) p (lu_page_type params) (lu_perms params)"
  obtain r4 err x4 where fw: "firmware_fd E (cmd_fd c) ?c x3 = (r4, err, x4)" by (cases "firmware_fd E (cmd_fd c) ?c x3")
  have s': "r4 = 0 \<and> world s' = x4 \<and> events s' = Cmd ?c 0 # events s \<and> pfns' = pfns @ [p]"
    using assms(3) g look ra rd r2 pr r3 fw
    by (auto simp: launch_page_def hold_page_def do_issue_cmd_def sev_of_def EBADF_def Let_def case_prod_unfold split: if_splits)
  then show "pfns' = pfns @ [pf g]" "events s' = launch_cmd (sev_of k s) params (pf g) # events s"
    using p by (simp_all add: launch_cmd_def)
  have "R x1 p = None" using lookup_law(1) [OF assms(1)] look ra by blast
  then show "R (world s) (pf g) = None" using m(1) [OF g, of p] p by (metis who_simps(2))
  have "who (R x4 q) = who (R x3 q)" "who (R x2 q) = who (R (world s) q)"
    using m(3) [OF fw, of q] m(2) [OF rd, of q] m(1) [OF g, of q] by simp_all
  then show "who (R (world s') q) = (if q = pf g then Some (push_bit 12 g, asid (sev_of k s)) else who (R (world s) q))"
    using private_law [OF assms(1) pr, of q] s' p r3 by simp
qed

lemma launch_pages_holds:
  assumes "launch_pages E k params n g pfns c s = (ret, now, pfns', c', s')"
  shows "arrays s' = arrays s \<and> kvms s' = kvms s \<and> (now \<longrightarrow> ret = - EFAULT \<and> pfns' \<noteq> [])
    \<and> (\<exists>ps. pfns' = pfns @ ps \<and> held_pages s' = (\<lambda>p. held_pages s p + int (count_list ps p)))"
  using assms
proof (induction n arbitrary: g pfns c s)
  case (Suc n)
  obtain r now1 pfns1 c1 s1 where one: "launch_page E k params g pfns c s = (r, now1, pfns1, c1, s1)"
    by (cases "launch_page E k params g pfns c s")
  note h = launch_page_holds [OF one]
  show ?case
  proof (cases "r = 0")
    case True
    with Suc.prems one have "launch_pages E k params n (g + 1) pfns1 c1 s1 = (ret, now, pfns', c', s')" by simp
    from Suc.IH [OF this] obtain ps2 where two: "arrays s' = arrays s1" "kvms s' = kvms s1"
      "now \<longrightarrow> ret = - EFAULT \<and> pfns' \<noteq> []"
      "pfns' = pfns1 @ ps2" "held_pages s' = (\<lambda>p. held_pages s1 p + int (count_list ps2 p))" by blast
    from h obtain ps1 where "pfns1 = pfns @ ps1" "held_pages s1 = (\<lambda>p. held_pages s p + int (count_list ps1 p))" by blast
    with two h show ?thesis by (intro conjI exI [of _ "ps1 @ ps2"]) (auto simp: add.assoc)
  next
    case False
    then show ?thesis using Suc.prems one h by auto
  qed
qed simp

lemma release_pages:
  "held_pages (fold (release_page E ret) ps s) = (\<lambda>p. held_pages s p - int (count_list ps p))
    \<and> arrays (fold (release_page E ret) ps s) = arrays s \<and> kvms (fold (release_page E ret) ps s) = kvms s
    \<and> events (fold (release_page E ret) ps s) = events s
    \<and> (ret = 0 \<longrightarrow> world (fold (release_page E ret) ps s) = world s)"
proof (induction ps arbitrary: s)
  case (Cons p ps)
  have "held_pages (release_page E ret p s) = (held_pages s)(p := held_pages s p - 1)"
    "arrays (release_page E ret p s) = arrays s" "kvms (release_page E ret p s) = kvms s"
    "events (release_page E ret p s) = events s" "ret = 0 \<longrightarrow> world (release_page E ret p s) = world s"
    by (auto simp: release_page_def hold_page_def make_shared_host)
  with Cons [of "release_page E ret p s"] show ?case by auto
qed simp

fun frames_from :: "u64 \<Rightarrow> nat \<Rightarrow> u64 list" where
  "frames_from g 0 = []"
| "frames_from g (Suc n) = g # frames_from (g + 1) n"

lemma launch_pages_success:
  assumes "rmp_laws E R" "launch_memory E R k pf" "launch_pages E k params n g pfns c s = (0, now, pfns', c', s')"
  shows "pfns' = pfns @ map pf (frames_from g n)
    \<and> events s' = rev (map (launch_cmd (sev_of k s) params \<circ> pf) (frames_from g n)) @ events s
    \<and> list_all (\<lambda>f. R (world s) (pf f) = None \<and> who (R (world s') (pf f)) = Some (push_bit 12 f, asid (sev_of k s)))
        (frames_from g n)
    \<and> (\<forall>q. R (world s) q \<noteq> None \<longrightarrow> who (R (world s') q) = who (R (world s) q)) \<and> \<not> now"
  using assms(3)
proof (induction n arbitrary: g pfns c s)
  case (Suc n)
  obtain r now1 pfns1 c1 s1 where one: "launch_page E k params g pfns c s = (r, now1, pfns1, c1, s1)"
    by (cases "launch_page E k params g pfns c s")
  with Suc.prems have "r = 0" and two: "launch_pages E k params n (g + 1) pfns1 c1 s1 = (0, now, pfns', c', s')"
    by (auto split: if_splits)
  note o = launch_page_success [OF assms(1,2) one [unfolded \<open>r = 0\<close>]]
  from Suc.IH [OF two] have ih: "pfns' = pfns1 @ map pf (frames_from (g + 1) n)"
    "events s' = rev (map (launch_cmd (sev_of k s1) params \<circ> pf) (frames_from (g + 1) n)) @ events s1"
    "list_all (\<lambda>f. R (world s1) (pf f) = None \<and> who (R (world s') (pf f)) = Some (push_bit 12 f, asid (sev_of k s1)))
      (frames_from (g + 1) n)"
    "\<forall>q. R (world s1) q \<noteq> None \<longrightarrow> who (R (world s') q) = who (R (world s1) q)" "\<not> now" by blast+
  have k: "sev_of k s1 = sev_of k s" using launch_page_holds [OF one] by (simp add: sev_of_def)
  have keep: "who (R (world s') q) = who (R (world s1) q)" if "R (world s1) q \<noteq> None" for q using ih(4) that by blast
  have g: "who (R (world s1) (pf g)) = Some (push_bit 12 g, asid (sev_of k s))" using o(4) [of "pf g"] by simp
  then have "R (world s1) (pf g) \<noteq> None" by (metis option.distinct(1) who_simps(1))
  from keep [OF this] g have g': "who (R (world s') (pf g)) = Some (push_bit 12 g, asid (sev_of k s))" by simp
  have rest: "R (world s) (pf f) = None" if "R (world s1) (pf f) = None" for f
    using o(4) [of "pf f"] that o(3) by (metis who_simps(1,2))
  have "list_all (\<lambda>f. R (world s) (pf f) = None \<and> who (R (world s') (pf f)) = Some (push_bit 12 f, asid (sev_of k s)))
    (frames_from g (Suc n))"
    using ih(3) k g' o(3) rest by (auto simp: list_all_iff)
  moreover have "who (R (world s') q) = who (R (world s) q)" if q: "R (world s) q \<noteq> None" for q
  proof -
    from q have "q \<noteq> pf g" using o(3) by blast
    then have "who (R (world s1) q) = who (R (world s) q)" using o(4) [of q] by simp
    moreover from this q have "R (world s1) q \<noteq> None" by (metis who_simps(2))
    ultimately show ?thesis using keep by simp
  qed
  ultimately show ?case using ih(1,2,5) o(1,2) k by simp
qed simp

text \<open>
  C9  A range of pages that was put into a guest at launch: the firmware was told to encrypt each page once,
  in the order of their frames, with the type and rights asked for; each was nobody's before and
  belongs to the guest now, at its address; nobody lost a page, and the host holds none of them.
\<close>
theorem launched_range_belongs_to_guest:
  assumes "rmp_laws E R" "launch_memory E R k pf" "get_launch_update E (cmd_data c) (world s) = Some params"
    and "snp_launch_update_gfn_handler E k slot start stop c s = (0, c', s')"
    and "gs = frames_from start (if start < stop then unat (stop - start) else 0)"
  shows "events s' = rev (map (launch_cmd (sev_of k s) params \<circ> pf) gs) @ events s
    \<and> list_all (\<lambda>f. R (world s) (pf f) = None \<and> who (R (world s') (pf f)) = Some (push_bit 12 f, asid (sev_of k s))) gs
    \<and> (\<forall>q. R (world s) q = None \<or> who (R (world s') q) = who (R (world s) q))
    \<and> held_pages s' = held_pages s \<and> arrays s' = arrays s"
proof -
  let ?n = "if start < stop then unat (stop - start) else 0"
  let ?s = "s\<lparr>arrays := arrays s + 1\<rparr>"
  obtain ret now pfns c1 s1 where l: "launch_pages E k params ?n start [] c ?s = (ret, now, pfns, c1, s1)"
    by (cases "launch_pages E k params ?n start [] c ?s")
  note h = launch_pages_holds [OF l]
  have k: "sev_of k ?s = sev_of k s" by (simp add: sev_of_def)
  have s': "ret = 0" "s' = (fold (release_page E 0) pfns s1)\<lparr>arrays := arrays (fold (release_page E 0) pfns s1) - 1\<rparr>"
    using assms(3,4) l h
    by (auto simp: snp_launch_update_gfn_handler_def EFAULT_def EINVAL_def ENOMEM_def Let_def split: if_splits)
  note o = launch_pages_success [OF assms(1,2) l [unfolded s'(1)], unfolded k, folded assms(5)]
  have "world s' = world s1" "events s' = events s1" "arrays s' = arrays s" "held_pages s' = held_pages s"
    using s' h release_pages [of E 0 pfns s1] by auto
  with o show ?thesis by auto
qed


section \<open>Faults and the end of a vCPU\<close>

text \<open>Splitting on a fault changes nobody's pages, and the page that was looked up is given back.\<close>

lemma rmp_fault_keeps_owners:
  assumes "rmp_laws E R" "\<forall>g x. R (snd (snd (snd (gmem_get_pfn E k g True x)))) q = R x q"
  shows "owner (R (world (handle_rmp_page_fault E k gpa s)) q) = owner (R (world s) q)"
    and "held_pages (handle_rmp_page_fault E k gpa s) = held_pages s"
proof -
  let ?g = "drop_bit 12 gpa"
  obtain r p n x where g: "gmem_get_pfn E k ?g True (world s) = (r, p, n, x)" by (cases "gmem_get_pfn E k ?g True (world s)")
  then have x: "R x q = R (world s) q" using assms(2) by (metis snd_conv)
  obtain rc x' where ps: "psmash E (ALIGN_DOWN p 512) x = (rc, x')" by (cases "psmash E (ALIGN_DOWN p 512) x")
  have "world (handle_rmp_page_fault E k gpa s) \<in> {world s, x, x'} \<and> held_pages (handle_rmp_page_fault E k gpa s) = held_pages s"
    using g ps
    by (auto simp: handle_rmp_page_fault_def hold_page_def kvm_zap_gfn_range_def snp_rmptable_psmash_def ALIGN_DOWN_def Let_def
        split: option.splits prod.splits)
  then show "owner (R (world (handle_rmp_page_fault E k gpa s)) q) = owner (R (world s) q)"
    and "held_pages (handle_rmp_page_fault E k gpa s) = held_pages s"
    using psmash_law [OF assms(1) ps, of q] x by auto
qed

lemma free_vcpu_outcome:
  assumes "rmp_laws E R" "\<forall>p a x. R (snd (vm_page_flush E p a x)) = R x" "sev_snp_guest k s"
  shows "(freed_pages (sev_free_vcpu E k v s) = vmsa_page v # freed_pages s
        \<and> R (world (sev_free_vcpu E k v s)) (vmsa_page v) = None \<and> leaked_pages (sev_free_vcpu E k v s) = leaked_pages s)
      \<or> (freed_pages (sev_free_vcpu E k v s) = freed_pages s \<and> vmsa_page v \<in> leaked_pages (sev_free_vcpu E k v s))"
    and "arrays (sev_free_vcpu E k v s) = (if ghcb_sa_free (es_state v) then arrays s - 1 else arrays s)"
proof -
  let ?p = "vmsa_page v"
  obtain rc x where sh: "rmp_make_shared E ?p PG_LEVEL_4K (world s) = (rc, x)" by (cases "rmp_make_shared E ?p PG_LEVEL_4K (world s)")
  then obtain t where t: "host_rmp_make_shared E ?p PG_LEVEL_4K True s = (rc, t)" "world t = x" "freed_pages t = freed_pages s"
    "arrays t = arrays s" "rc \<noteq> 0 \<Longrightarrow> ?p \<in> leaked_pages t" "rc = 0 \<Longrightarrow> leaked_pages t = leaked_pages s"
    by (force simp: host_rmp_make_shared_def snp_leak_pages_def Let_def)
  have flush: "R (world (sev_flush_encrypted_page E k ?p t)) = R x"
    "freed_pages (sev_flush_encrypted_page E k ?p t) = freed_pages s" "arrays (sev_flush_encrypted_page E k ?p t) = arrays s"
    "leaked_pages (sev_flush_encrypted_page E k ?p t) = leaked_pages t"
    using assms(2) t(2-4)
    by (simp_all add: sev_flush_encrypted_page_def clflush_cache_range_def wbinvd_on_all_cpus_def Let_def case_prod_unfold)
  have es: "sev_es_guest k s" using assms(3) by (simp add: sev_snp_guest_def)
  have none: "R x ?p = None" if "rc = 0" using shared_law [OF assms(1) sh, of ?p] that by simp
  show "(freed_pages (sev_free_vcpu E k v s) = ?p # freed_pages s
        \<and> R (world (sev_free_vcpu E k v s)) ?p = None \<and> leaked_pages (sev_free_vcpu E k v s) = leaked_pages s)
      \<or> (freed_pages (sev_free_vcpu E k v s) = freed_pages s \<and> ?p \<in> leaked_pages (sev_free_vcpu E k v s))"
    using es assms(3) t flush none by (auto simp: sev_free_vcpu_def Let_def)
  show "arrays (sev_free_vcpu E k v s) = (if ghcb_sa_free (es_state v) then arrays s - 1 else arrays s)"
    using es assms(3) t flush by (auto simp: sev_free_vcpu_def Let_def)
qed

text \<open>
  C23  The page of a save area goes back to the kernel only after it left the reverse map table; otherwise it
  is leaked, and the rest of the vCPU is freed all the same.
\<close>
theorem freed_save_area_is_shared:
  assumes "rmp_laws E R" "\<forall>p a x. R (snd (vm_page_flush E p a x)) = R x" "sev_snp_guest k s"
  shows "((freed_pages (sev_free_vcpu E k v s) = vmsa_page v # freed_pages s
        \<and> R (world (sev_free_vcpu E k v s)) (vmsa_page v) = None \<and> leaked_pages (sev_free_vcpu E k v s) = leaked_pages s)
      \<or> (freed_pages (sev_free_vcpu E k v s) = freed_pages s \<and> vmsa_page v \<in> leaked_pages (sev_free_vcpu E k v s)))
    \<and> arrays (sev_free_vcpu E k v s) = (if ghcb_sa_free (es_state v) then arrays s - 1 else arrays s)"
  using free_vcpu_outcome [OF assms] by blast

section \<open>A table\<close>

text \<open>The world is the reverse map table itself.\<close>

type_synonym rmp_table = "u64 \<Rightarrow> rmp_entry option"

definition table_env :: "rmp_table sev_env" where
  "table_env = demo_env\<lparr>
     rmp_lookup := \<lambda>p x. (0, x p \<noteq> None, case x p of None \<Rightarrow> PG_LEVEL_4K | Some e \<Rightarrow> rmp_level e),
     rmp_make_private := \<lambda>p g l a i x.
       (0, \<lambda>q. if q - p < level_pages l
               then Some \<lparr>rmp_gpa = g + push_bit 12 (q - p), rmp_asid = a, rmp_large = (l \<noteq> PG_LEVEL_4K), rmp_immutable = i\<rparr> else x q),
     rmp_make_shared := \<lambda>p l x. (0, \<lambda>q. if q - p < level_pages l then None else x q),
     psmash := \<lambda>p x. (0, \<lambda>q. if q - p < 512 then map_option (\<lambda>e. e\<lparr>rmp_large := False\<rparr>) (x q) else x q)\<rparr>"

lemma table_env_simps [simp]:
  "min_sev_asid table_env = (3)"
  "max_sev_asid table_env = (5)"
  "sev_enabled table_env = (True)"
  "sev_es_enabled table_env = (True)"
  "sev_snp_enabled table_env = (True)"
  "RESTRICTED_INJET table_env = (1)"
  "SVSM table_env = (2)"
  "firmware table_env = (\<lambda>_ x. (0, 0, x))"
  "firmware_fd table_env = (\<lambda>_ _ x. (0, 0, x))"
  "fd_open table_env = (\<lambda>_ _. True)"
  "platform_init table_env = (\<lambda>x. (0, 0, x))"
  "cg_try_charge table_env = (\<lambda>_ _ _. 0)"
  "current_cg table_env = (\<lambda>_. 0)"
  "get_init_flags table_env = (\<lambda>_ _. Some 2)"
  "put_init_flags table_env = (\<lambda>_ _ x. (True, x))"
  "get_launch_start table_env = (\<lambda>_ _. Some (push_bit 16 1, []))"
  "get_launch_update table_env = (\<lambda>_ _. Some \<lparr>lu_uaddr = 0, lu_len = 0x2000, lu_page_type = 1, lu_perms = []\<rparr>)"
  "get_launch_finish table_env = (\<lambda>_ _. Some \<lparr>lf_id_block = None, lf_id_auth = 0, lf_auth_key = False, lf_host_data = []\<rparr>)"
  "LAUNCH_FINISH_SIZE table_env = (0)"
  "ID_BLOCK_SIZE table_env = (0)"
  "ID_AUTH_SIZE table_env = (0)"
  "copy_user_blob table_env = (\<lambda>_ _ _. Inr [])"
  "alloc_firmware_page table_env = (\<lambda>x. (Some 7, x))"
  "free_firmware_page table_env = (\<lambda>_ x. x)"
  "kmalloc_ok table_env = (\<lambda>_ _. True)"
  "memslots table_env = (\<lambda>_. [])"
  "gmem_get_pfn table_env = (\<lambda>_ g _ x. (0, g, 9, x))"
  "rmp_lookup table_env = (\<lambda>p x. (0, x p \<noteq> None, case x p of None \<Rightarrow> PG_LEVEL_4K | Some e \<Rightarrow> rmp_level e))"
  "rmp_make_private table_env = (\<lambda>p g l a i x. (0, \<lambda>q. if q - p < level_pages l then Some \<lparr>rmp_gpa = g + push_bit 12 (q - p), rmp_asid = a, rmp_large = (l \<noteq> PG_LEVEL_4K), rmp_immutable = i\<rparr> else x q))"
  "rmp_make_shared table_env = (\<lambda>p l x. (0, \<lambda>q. if q - p < level_pages l then None else x q))"
  "psmash table_env = (\<lambda>p x. (0, \<lambda>q. if q - p < 512 then map_option (\<lambda>e. e\<lparr>rmp_large := False\<rparr>) (x q) else x q))"
  "addr_valid table_env = (\<lambda>_. True)"
  "mem_is_private table_env = (\<lambda>_ _ _. True)"
  "gfn_to_memslot table_env = (\<lambda>_ _. None)"
  "sme_coherent table_env = (True)"
  "vm_page_flush table_env = (\<lambda>_ _ x. (0, x))"
  "read_guest_page table_env = (\<lambda>_ _ _ x. (0, x))"
  "write_guest_page table_env = (\<lambda>_ _ _ x. (0, x))"
  "PAGE_TYPE_CPUID table_env = (6)"
  "PAGE_TYPE_VMSA table_env = (2)"
  "RET_INVALID_PARAM table_env = (22)"
  "DR7_FIXED_1 table_env = (0x400)"
  "SEV_FEAT_SNP_ACTIVE table_env = (1)"
  "SEV_FEAT_RESTRICTED_INJECTION table_env = (8)"
  "SEV_FEAT_DEBUG_SWAP table_env = (32)"
  "debug_swap_enabled table_env = (False)"
  "enable_x2apic table_env = (\<lambda>x. (0, x))"
  "lock_killable table_env = (\<lambda>x. (0, x))"
  "file_of table_env = (\<lambda>fd _. Some (Some (nat fd)))"
  "lock_limit table_env = (100)"
  "ipc_lock table_env = (False)"
  "pin_user_pages table_env = (\<lambda>a n x. (map (\<lambda>i. a + of_nat i * 4096) [0..<unat n], x))"
  by (simp_all add: table_env_def)

lemma table_laws: "rmp_laws table_env (\<lambda>x. x)"
  by (auto simp: rmp_laws_def)

lemma table_memory: "launch_memory table_env (\<lambda>x. x) k (\<lambda>g. g)"
  by (simp add: launch_memory_def )

text \<open>Guest 0 is an SNP guest with ASID 1.\<close>

definition snp_host :: "'x \<Rightarrow> 'x host" where
  "snp_host x = on_sev 0 (\<lambda>i. i\<lparr>sev_active := True, es_active := True, snp_active := True, asid := 1,
     snp_context := Some 7\<rparr>) (empty_host x)"

lemma snp_host_simps [simp]:
  "world (snp_host x) = x" "sev_snp_guest 0 (snp_host x)" "asid (sev_of 0 (snp_host x)) = 1"
  "held_pages (snp_host x) = (\<lambda>_. 0)" "sev_es_guest 0 (snp_host x)"
  by (simp_all add: snp_host_def empty_host_def sev_snp_guest_def sev_es_guest_def sev_of_def on_sev_def)

lemma prepared_page_belongs_to_guest_witness:
  "\<exists>s'. sev_gmem_prepare table_env 0 5 9 0 (snp_host (\<lambda>_. None)) = (0, s') \<and> world s' 5 \<noteq> None"
proof -
  obtain s' where p: "sev_gmem_prepare table_env 0 5 9 0 (snp_host (\<lambda>_. None)) = (0, s')"
    by (simp add: sev_gmem_prepare_def Let_def)
  have "frame 5" "world (snp_host (\<lambda>_. None)) 5 = (None :: rmp_entry option)" by (simp_all add: frame_def)
  from prepared_page_belongs_to_guest [OF table_laws snp_host_simps(2) this p] p show ?thesis by auto
qed

text \<open>A table where guest 1 has the block of 512 pages from page 512 on in one entry.\<close>

definition one_block :: rmp_table where
  "one_block = (\<lambda>q. if q - 512 < 512
     then Some \<lparr>rmp_gpa = push_bit 12 (q - 512), rmp_asid = 1, rmp_large = True, rmp_immutable = False\<rparr> else None)"

lemma table_works: "rmp_works table_env (\<lambda>x. x)"
  by (simp add: rmp_works_def )


definition demo_slot :: memslot where
  "demo_slot = \<lparr>base_gfn = 0, slot_npages = 16, userspace_addr = 0, can_be_private = True\<rparr>"

definition demo_cmd :: sev_cmd where
  "demo_cmd = \<lparr>cmd_id = KVM_SEV_SNP_LAUNCH_UPDATE, cmd_data = 0, cmd_error = 0, cmd_fd = 3\<rparr>"

lemma launched_range_belongs_to_guest_witness:
  "\<exists>c' s'. snp_launch_update_gfn_handler table_env 0 demo_slot 4 5 demo_cmd (snp_host (\<lambda>_. None)) = (0, c', s')
    \<and> who (world s' 4) = Some (push_bit 12 4, 1)"
proof -
  obtain c' s' where h: "snp_launch_update_gfn_handler table_env 0 demo_slot 4 5 demo_cmd (snp_host (\<lambda>_. None)) = (0, c', s')"
    by (simp add: snp_launch_update_gfn_handler_def launch_page_def demo_slot_def do_issue_cmd_def
        hold_page_def Let_def)
  have "get_launch_update table_env (cmd_data demo_cmd) (world (snp_host (\<lambda>_. None)))
      = Some \<lparr>lu_uaddr = 0, lu_len = 0x2000, lu_page_type = 1, lu_perms = []\<rparr>"
    by simp
  from launched_range_belongs_to_guest [OF table_laws table_memory this h refl] h show ?thesis by auto
qed


lemma freed_save_area_is_shared_witness:
  "world (sev_free_vcpu table_env 0 \<lparr>vcpu_id = 0, es_state = zero_vcpu, guest_state_protected = True, vmsa_page = 600, vmsa = undefined,
      guest_debug = False, vmcb_base = [], vmcb_vmpl = 0, vmcb_dr7 = 0, arch_regs = \<lambda>_. 0, arch_rip = 0, arch_xcr0 = 0,
      arch_pkru = 0, arch_xss = 0, arch_dr6 = 0, lapic_in_kernel = True\<rparr> (snp_host one_block)) 600 = None"
  (is "world (sev_free_vcpu table_env 0 ?v ?s) 600 = None")
proof -
  have f: "\<forall>p a x. snd (vm_page_flush table_env p a x) = x" by simp
  have "freed_pages (sev_free_vcpu table_env 0 ?v ?s) \<noteq> freed_pages ?s"
  proof -
    show ?thesis
      by (simp add: sev_free_vcpu_def host_rmp_make_shared_def sev_flush_encrypted_page_def
          clflush_cache_range_def zero_vcpu_def Let_def)
  qed
  with freed_save_area_is_shared [OF table_laws f snp_host_simps(2), of ?v one_block] show ?thesis by auto
qed

end
