(* ===== verification/Sev_Commands.thy ===== *)
theory Sev_Commands
  imports Sev_Launch
begin

text \<open>
  The host: the commands of \<open>host/kvm/svm/sev.c\<close> that start and end a launch of an SEV or SEV-ES guest, the
  pinning of user memory and the regions a program registers, and the encryption of a buffer in place,
  which goes through runs of contiguous pages.  Pages are physical page numbers; the encryption bit that
  the host sets in every address it gives to the firmware is left out.
\<close>

section \<open>Pinning user memory\<close>

definition pin_range :: "u64 \<Rightarrow> u64 \<Rightarrow> u64" where
  "pin_range uaddr ulen =
     (let first = drop_bit 12 (uaddr AND NOT 4095); final = drop_bit 12 ((uaddr + ulen - 1) AND NOT 4095)
      in final - first + 1)"

definition sev_pin_memory :: "'x sev_env \<Rightarrow> nat \<Rightarrow> u64 \<Rightarrow> u64 \<Rightarrow> 'x host \<Rightarrow> (int + u64 list) \<times> 'x host" where
  "sev_pin_memory E k uaddr ulen s =
     (if ulen = 0 \<or> uaddr + ulen < uaddr then (Inl (- EINVAL), s)
      else (let npages = pin_range uaddr ulen; locked = pages_locked (sev_of k s) + npages
            in if lock_limit E < locked \<and> \<not> ipc_lock E then (Inl (- ENOMEM), s)
               else if 2147483647 < npages then (Inl (- EINVAL), s)
               else if \<not> kmalloc_ok E (8 * unat npages) (world s) then (Inl (- ENOMEM), s)
               else (let s = s\<lparr>arrays := arrays s + 1\<rparr>; (pinned, x) = pin_user_pages E uaddr npages (world s);
                         s = fold (hold_page 1) pinned (s\<lparr>world := x\<rparr>)
                     in if length pinned \<noteq> unat npages
                        then (Inl (- ENOMEM), (fold (hold_page (- 1)) pinned s)\<lparr>arrays := arrays s - 1\<rparr>)
                        else (Inr pinned, on_sev k (\<lambda>i. i\<lparr>pages_locked := locked\<rparr>) s))))"

definition sev_unpin_memory :: "nat \<Rightarrow> u64 list \<Rightarrow> u64 \<Rightarrow> 'x host \<Rightarrow> 'x host" where
  "sev_unpin_memory k ps npages s =
     (let s = fold (hold_page (- 1)) ps s; s = s\<lparr>arrays := arrays s - 1\<rparr>
      in on_sev k (\<lambda>i. i\<lparr>pages_locked := pages_locked i - npages\<rparr>) s)"

definition sev_clflush_pages :: "'x sev_env \<Rightarrow> u64 list \<Rightarrow> 'x host \<Rightarrow> 'x host" where
  "sev_clflush_pages E ps s =
     (if sme_coherent E \<or> ps = [] then s else fold (\<lambda>p s. s\<lparr>events := Clflush p 1 # events s\<rparr>) ps s)"

section \<open>Regions\<close>

definition sev_mem_enc_register_region :: "'x sev_env \<Rightarrow> nat \<Rightarrow> u64 \<Rightarrow> u64 \<Rightarrow> 'x host \<Rightarrow> int \<times> 'x host" where
  "sev_mem_enc_register_region E k addr siz s =
     (if \<not> sev_guest k s then (- ENOTTY, s)
      else if is_mirroring_enc_context k s then (- EINVAL, s)
      else if \<not> kmalloc_ok E (REGION_SIZE E) (world s) then (- ENOMEM, s)
      else (case sev_pin_memory E k addr siz s of
              (Inl err, s) \<Rightarrow> (err, s)
            | (Inr pinned, s) \<Rightarrow>
                (let s = sev_clflush_pages E pinned s;
                     region = \<lparr>region_npages = pin_range addr siz, region_pages = pinned, region_uaddr = addr,
                               region_size = siz\<rparr>
                 in (0, on_sev k (\<lambda>i. i\<lparr>regions_list := regions_list i @ [region]\<rparr>) s))))"

definition find_enc_region :: "kvm_sev_info \<Rightarrow> u64 \<Rightarrow> u64 \<Rightarrow> enc_region option" where
  "find_enc_region i addr siz = find (\<lambda>r. region_uaddr r = addr \<and> region_size r = siz) (regions_list i)"

definition unregister_enc_region_locked :: "nat \<Rightarrow> enc_region \<Rightarrow> 'x host \<Rightarrow> 'x host" where
  "unregister_enc_region_locked k region s =
     (let s = sev_unpin_memory k (region_pages region) (region_npages region) s
      in on_sev k (\<lambda>i. i\<lparr>regions_list := remove1 region (regions_list i)\<rparr>) s)"

definition sev_mem_enc_unregister_region :: "nat \<Rightarrow> u64 \<Rightarrow> u64 \<Rightarrow> 'x host \<Rightarrow> int \<times> 'x host" where
  "sev_mem_enc_unregister_region k addr siz s =
     (if is_mirroring_enc_context k s then (- EINVAL, s)
      else if \<not> sev_guest k s then (- ENOTTY, s)
      else (case find_enc_region (sev_of k s) addr siz of
              None \<Rightarrow> (- EINVAL, s)
            | Some region \<Rightarrow> (0, unregister_enc_region_locked k region (wbinvd_on_all_cpus s))))"

section \<open>Starting and ending\<close>

definition sev_bind_asid :: "'x sev_env \<Rightarrow> nat \<Rightarrow> u32 \<Rightarrow> 'x host \<Rightarrow> int \<times> int \<times> 'x host" where
  "sev_bind_asid E k h s = sev_do_cmd E (ACTIVATE h (asid (sev_of k s))) s"

definition sev_decommission :: "'x sev_env \<Rightarrow> u32 \<Rightarrow> 'x host \<Rightarrow> 'x host" where
  "sev_decommission E h s = (if h = 0 then s else (let (_, _, s) = sev_do_cmd E (DECOMMISSION h) s in s))"

definition sev_unbind_asid :: "'x sev_env \<Rightarrow> u32 \<Rightarrow> 'x host \<Rightarrow> 'x host" where
  "sev_unbind_asid E h s =
     (if h = 0 then s else (let (_, _, s) = sev_do_cmd E (DEACTIVATE h) s in sev_decommission E h s))"

text \<open>From creating the context on; the firmware fills in the handle.\<close>

definition start_context :: "'x sev_env \<Rightarrow> nat \<Rightarrow> fw_cmd \<Rightarrow> sev_cmd \<Rightarrow> 'x host \<Rightarrow> int \<times> sev_cmd \<times> 'x host" where
  "start_context E k start c s =
     (let (ret, error, s) = do_issue_cmd E (cmd_fd c) start (cmd_error c) s; c = c\<lparr>cmd_error := error\<rparr>
      in if ret \<noteq> 0 then (ret, c, s)
         else (let h = started_handle E (world s);
                   (ret, error, s) = sev_bind_asid E k h s; c = c\<lparr>cmd_error := error\<rparr>
               in if ret \<noteq> 0 then (ret, c, sev_decommission E h s)
                  else (let (ok, x) = put_started_handle E (cmd_data c) h (world s); s = s\<lparr>world := x\<rparr>
                        in if \<not> ok then (- EFAULT, c, sev_unbind_asid E h s)
                           else (0, c, on_sev k (\<lambda>i. i\<lparr>handle := h, sev_dev_fd := cmd_fd c\<rparr>) s))))"

definition optional_blob :: "'x sev_env \<Rightarrow> (u64 \<times> nat) option \<Rightarrow> 'x \<Rightarrow> int + byte list option" where
  "optional_blob E b x =
     (case b of None \<Rightarrow> Inr None
      | Some (uaddr, n) \<Rightarrow> (case copy_user_blob E uaddr n x of Inl err \<Rightarrow> Inl err | Inr blob \<Rightarrow> Inr (Some blob)))"

definition sev_launch_start :: "'x sev_env \<Rightarrow> nat \<Rightarrow> sev_cmd \<Rightarrow> 'x host \<Rightarrow> int \<times> sev_cmd \<times> 'x host" where
  "sev_launch_start E k c s =
     (if \<not> sev_guest k s then (- ENOTTY, c, s)
      else (case get_legacy_start E (cmd_data c) (world s) of
              None \<Rightarrow> (- EFAULT, c, s)
            | Some params \<Rightarrow>
                (case optional_blob E (ls_dh params) (world s) of
                   Inl err \<Rightarrow> (err, c, s)
                 | Inr dh \<Rightarrow>
                     (case optional_blob E (ls_session params) (world s) of
                        Inl err \<Rightarrow> (err, c, s)
                      | Inr session \<Rightarrow>
                          start_context E k (LAUNCH_START (ls_handle params) (ls_policy params) dh session) c s))))"

definition sev_receive_start :: "'x sev_env \<Rightarrow> nat \<Rightarrow> sev_cmd \<Rightarrow> 'x host \<Rightarrow> int \<times> sev_cmd \<times> 'x host" where
  "sev_receive_start E k c s =
     (if \<not> sev_guest k s then (- ENOTTY, c, s)
      else (case get_legacy_start E (cmd_data c) (world s) of
              None \<Rightarrow> (- EFAULT, c, s)
            | Some params \<Rightarrow>
                (if ls_dh params = None \<or> map_option snd (ls_dh params) = Some 0
                    \<or> ls_session params = None \<or> map_option snd (ls_session params) = Some 0
                 then (- EINVAL, c, s)
                 else (case optional_blob E (ls_dh params) (world s) of
                         Inl err \<Rightarrow> (err, c, s)
                       | Inr pdh \<Rightarrow>
                           (case optional_blob E (ls_session params) (world s) of
                              Inl err \<Rightarrow> (err, c, s)
                            | Inr session \<Rightarrow>
                                start_context E k (RECEIVE_START (ls_handle params) (ls_policy params) pdh session) c s)))))"

text \<open>The commands that only pass the handle on.\<close>

definition handle_command :: "'x sev_env \<Rightarrow> nat \<Rightarrow> (u32 \<Rightarrow> fw_cmd) \<Rightarrow> sev_cmd \<Rightarrow> 'x host \<Rightarrow> int \<times> sev_cmd \<times> 'x host" where
  "handle_command E k cmd c s =
     (if \<not> sev_guest k s then (- ENOTTY, c, s)
      else (let (ret, error, s) = sev_issue_cmd E k (cmd (handle (sev_of k s))) (cmd_error c) s
            in (ret, c\<lparr>cmd_error := error\<rparr>, s)))"

definition sev_launch_finish :: "'x sev_env \<Rightarrow> nat \<Rightarrow> sev_cmd \<Rightarrow> 'x host \<Rightarrow> int \<times> sev_cmd \<times> 'x host" where
  "sev_launch_finish E k c s = handle_command E k LAUNCH_FINISH c s"

definition sev_send_finish :: "'x sev_env \<Rightarrow> nat \<Rightarrow> sev_cmd \<Rightarrow> 'x host \<Rightarrow> int \<times> sev_cmd \<times> 'x host" where
  "sev_send_finish E k c s = handle_command E k SEND_FINISH c s"

definition sev_send_cancel :: "'x sev_env \<Rightarrow> nat \<Rightarrow> sev_cmd \<Rightarrow> 'x host \<Rightarrow> int \<times> sev_cmd \<times> 'x host" where
  "sev_send_cancel E k c s = handle_command E k SEND_CANCEL c s"

definition sev_receive_finish :: "'x sev_env \<Rightarrow> nat \<Rightarrow> sev_cmd \<Rightarrow> 'x host \<Rightarrow> int \<times> sev_cmd \<times> 'x host" where
  "sev_receive_finish E k c s = handle_command E k RECEIVE_FINISH c s"

definition sev_guest_status :: "'x sev_env \<Rightarrow> nat \<Rightarrow> sev_cmd \<Rightarrow> 'x host \<Rightarrow> int \<times> sev_cmd \<times> 'x host" where
  "sev_guest_status E k c s =
     (let (ret, c, s) = handle_command E k GUEST_STATUS c s
      in if ret \<noteq> 0 then (ret, c, s)
         else (let (ok, x) = put_guest_status E (cmd_data c) (world s)
               in (if ok then 0 else - EFAULT, c, s\<lparr>world := x\<rparr>)))"

section \<open>Save areas of an SEV-ES guest\<close>

definition es_launch_update_vcpu :: "'x sev_env \<Rightarrow> nat \<Rightarrow> nat \<Rightarrow> sev_cmd \<Rightarrow> 'x host \<Rightarrow> int \<times> sev_cmd \<times> 'x host" where
  "es_launch_update_vcpu E k i c s =
     (let v = vm_vcpus (kvms s k) ! i
      in if guest_debug v then (- EINVAL, c, s)
         else (let (ret, v, s) = sev_es_sync_vmsa E k v s; s = put_vm_vcpu k i v s
               in if ret \<noteq> 0 then (ret, c, s)
                  else (let s = s\<lparr>events := Clflush (vmsa_page v) 1 # events s\<rparr>;
                            (ret, error, s) = sev_issue_cmd E k (LAUNCH_UPDATE_VMSA (handle (sev_of k s)) (vmsa_page v))
                                                (cmd_error c) s;
                            c = c\<lparr>cmd_error := error\<rparr>
                        in if ret \<noteq> 0 then (ret, c, s) else (0, c, protect_vcpu k i s))))"

fun es_update_vcpus :: "'x sev_env \<Rightarrow> nat \<Rightarrow> nat list \<Rightarrow> sev_cmd \<Rightarrow> 'x host \<Rightarrow> int \<times> sev_cmd \<times> 'x host" where
  "es_update_vcpus E k [] c s = (0, c, s)"
| "es_update_vcpus E k (i # is) c s =
     (let (ret, x) = lock_killable E (world s); s = s\<lparr>world := x\<rparr>
      in if ret \<noteq> 0 then (ret, c, s)
         else (let (ret, c, s) = es_launch_update_vcpu E k i c s
               in if ret \<noteq> 0 then (ret, c, s) else es_update_vcpus E k is c s))"

text \<open>The boot vCPU, the first whose id is 0, goes first.\<close>

definition boot_first :: "vm_vcpu list \<Rightarrow> nat list" where
  "boot_first vs =
     (let boot = filter (\<lambda>i. vcpu_id (vs ! i) = 0) [0..<length vs]
      in take 1 boot @ filter (\<lambda>i. vcpu_id (vs ! i) \<noteq> 0) [0..<length vs])"

definition sev_launch_update_vmsa :: "'x sev_env \<Rightarrow> nat \<Rightarrow> sev_cmd \<Rightarrow> 'x host \<Rightarrow> int \<times> sev_cmd \<times> 'x host" where
  "sev_launch_update_vmsa E k c s =
     (if \<not> sev_es_guest k s then (- ENOTTY, c, s) else es_update_vcpus E k (boot_first (vm_vcpus (kvms s k))) c s)"

section \<open>Encrypting a buffer\<close>

fun contig :: "u64 \<Rightarrow> u64 list \<Rightarrow> nat" where
  "contig p [] = 0"
| "contig p (q # qs) = (if push_bit 12 p + 4096 = push_bit 12 q then Suc (contig q qs) else 0)"

definition get_num_contig_pages :: "nat \<Rightarrow> u64 list \<Rightarrow> nat" where
  "get_num_contig_pages i inpages = Suc (contig (inpages ! i) (drop (Suc i) inpages))"

text \<open>\<open>int len\<close>: 32 bits of the smaller of what is left and the run of pages.\<close>

definition chunk_len :: "nat \<Rightarrow> u64 \<Rightarrow> u64 \<Rightarrow> int" where
  "chunk_len n offset siz = sint (ucast (min (of_nat n * 4096 - offset) siz) :: u32)"

text \<open>Reading past the array of pages has no result.\<close>

partial_function (option) update_data_loop ::
    "'x sev_env \<Rightarrow> nat \<Rightarrow> u64 list \<Rightarrow> u64 \<Rightarrow> u64 \<Rightarrow> u64 \<Rightarrow> u64 \<Rightarrow> sev_cmd \<Rightarrow> 'x host \<Rightarrow> (int \<times> sev_cmd \<times> 'x host) option" where
  "update_data_loop E k inpages vaddr vaddr_end siz i c s =
     (if \<not> vaddr < vaddr_end then Some (0, c, s)
      else if length inpages \<le> unat i then None
      else (let offset = vaddr AND 4095; n = get_num_contig_pages (unat i) inpages;
                len = word_of_int (chunk_len n offset siz);
                (ret, error, s) = sev_issue_cmd E k
                   (LAUNCH_UPDATE_DATA (handle (sev_of k s)) (push_bit 12 (inpages ! unat i) + offset) (ucast (len :: u64)))
                   (cmd_error c) s;
                c = c\<lparr>cmd_error := error\<rparr>
            in if ret \<noteq> 0 then Some (ret, c, s)
               else update_data_loop E k inpages (vaddr + len) vaddr_end (siz - len) (i + of_nat n) c s))"

definition sev_launch_update_data :: "'x sev_env \<Rightarrow> nat \<Rightarrow> sev_cmd \<Rightarrow> 'x host \<Rightarrow> (int \<times> sev_cmd \<times> 'x host) option" where
  "sev_launch_update_data E k c s =
     (if \<not> sev_guest k s then Some (- ENOTTY, c, s)
      else (case get_update_data E (cmd_data c) (world s) of
              None \<Rightarrow> Some (- EFAULT, c, s)
            | Some (vaddr, len) \<Rightarrow>
                (case sev_pin_memory E k vaddr (ucast len) s of
                   (Inl err, s) \<Rightarrow> Some (err, c, s)
                 | (Inr inpages, s) \<Rightarrow>
                     (let s = sev_clflush_pages E inpages s
                      in map_option (\<lambda>(ret, c, s). (ret, c, sev_unpin_memory k inpages (pin_range vaddr (ucast len)) s))
                           (update_data_loop E k inpages vaddr (vaddr + ucast len) (ucast len) 0 c s)))))"

section \<open>The buffer is encrypted whole\<close>

text \<open>The physical address of a byte, counted from the start of the first page.\<close>

definition phys :: "u64 list \<Rightarrow> nat \<Rightarrow> u64" where
  "phys inpages pos = push_bit 12 (inpages ! (pos div 4096)) + of_nat (pos mod 4096)"

definition range_bytes :: "u64 \<times> u32 \<Rightarrow> u64 list" where
  "range_bytes r = map (\<lambda>j. fst r + of_nat j) [0..<unat (snd r)]"

lemma contig_run: "t \<le> contig p qs \<Longrightarrow> push_bit 12 ((p # qs) ! t) = push_bit 12 p + of_nat t * 4096"
proof (induction p qs arbitrary: t rule: contig.induct)
  case (2 p q qs)
  then show ?case
    by (cases t) (auto simp: algebra_simps split: if_splits)
qed simp

lemma contig_le: "contig p qs \<le> length qs"
  by (induction p qs rule: contig.induct) auto

lemma run_pages:
  assumes "i < length inpages" "t < get_num_contig_pages i inpages"
  shows "push_bit 12 (inpages ! (i + t)) = push_bit 12 (inpages ! i) + of_nat t * 4096"
    and "i + get_num_contig_pages i inpages \<le> length inpages"
proof -
  have split: "drop i inpages = inpages ! i # drop (Suc i) inpages" using assms(1) by (simp add: Cons_nth_drop_Suc)
  have "t \<le> contig (inpages ! i) (drop (Suc i) inpages)" using assms(2) by (simp add: get_num_contig_pages_def)
  from contig_run [OF this] show "push_bit 12 (inpages ! (i + t)) = push_bit 12 (inpages ! i) + of_nat t * 4096"
    using assms(1) by (simp flip: split add: nth_drop)
  show "i + get_num_contig_pages i inpages \<le> length inpages"
    using contig_le [of "inpages ! i" "drop (Suc i) inpages"] assms(1) by (simp add: get_num_contig_pages_def)
qed

lemma run_bytes:
  assumes "i < length inpages" "i = pos div 4096" "pos mod 4096 + j < get_num_contig_pages i inpages * 4096"
  shows "phys inpages (pos + j) = push_bit 12 (inpages ! i) + of_nat (pos mod 4096 + j)"
proof -
  let ?t = "(pos mod 4096 + j) div 4096"
  have "pos + j = i * 4096 + (pos mod 4096 + j)" using assms(2) by simp
  then have "(pos + j) div 4096 = i + ?t" "(pos + j) mod 4096 = (pos mod 4096 + j) mod 4096"
    by (metis add.commute div_mult_self1 zero_neq_numeral, metis mod_mult_self3)
  moreover have "?t < get_num_contig_pages i inpages" using assms(3) by (simp add: less_mult_imp_div_less)
  ultimately have "phys inpages (pos + j) = push_bit 12 (inpages ! i) + (of_nat ?t * 4096 + of_nat ((pos mod 4096 + j) mod 4096))"
    using run_pages(1) [OF assms(1)] by (simp add: phys_def)
  also have "of_nat ?t * 4096 + of_nat ((pos mod 4096 + j) mod 4096) = (of_nat (?t * 4096 + (pos mod 4096 + j) mod 4096) :: u64)"
    by (simp only: of_nat_add of_nat_mult of_nat_numeral)
  finally show ?thesis by (simp only: div_mult_mod_eq)
qed

text \<open>A chunk is the smaller of the run and the rest, below two gigabytes.\<close>

lemma unat_min_u64: "unat (min (a :: u64) b) = min (unat a) (unat b)"
  by (simp add: min_def word_le_nat_alt)

lemma sint_small_u64:
  assumes "unat (x :: u64) < 2 ^ 31"
  shows "sint (ucast x :: u32) = int (unat x)"
proof -
  have "unat (ucast x :: u32) = unat x" using assms by (simp add: unsigned_ucast_eq take_bit_nat_eq_self)
  then have u: "uint (ucast x :: u32) = int (unat x)" by (simp only: uint_nat)
  have "sint (ucast x :: u32) = signed_take_bit 31 (uint (ucast x :: u32))" unfolding sint_uint by simp
  also have "\<dots> = int (unat x)"
  proof -
    have "int (unat x) < int (2 ^ 31)" using assms by (simp only: of_nat_less_iff)
    moreover have "int (2 ^ 31) = 2 ^ 31" by simp
    moreover have "- (2 ^ 31) \<le> int (unat x)" by (rule order.trans [of _ 0]) simp_all
    ultimately have "int (unat x) < 2 ^ 31" "- (2 ^ 31) \<le> int (unat x)" by (simp_all only:)
    then show ?thesis unfolding u by (intro signed_take_bit_int_eq_self)
  qed
  finally show ?thesis .
qed

lemma chunk_len_small:
  assumes "n \<le> 0x7FFFFFFF" "unat offset < 4096" "0 < n" "unat siz < 2 ^ 31"
  shows "chunk_len n offset siz = int (min (n * 4096 - unat offset) (unat siz))"
proof -
  have "n * 4096 < 2 ^ 64" using assms(1) by simp
  then have "unat (of_nat (n * 4096) :: u64) = n * 4096" by (rule unat_of_nat_u64)
  then have r: "unat (of_nat n * 4096 :: u64) = n * 4096" by simp
  have "offset \<le> of_nat n * 4096" using assms(2,3) r by (simp add: word_le_nat_alt)
  then have d: "unat (of_nat n * 4096 - offset) = n * 4096 - unat offset" using r by (simp add: unat_sub)
  let ?m = "min (of_nat n * 4096 - offset) siz"
  have m: "unat ?m = min (n * 4096 - unat offset) (unat siz)"
    unfolding unat_min_u64 d ..
  have "min (n * 4096 - unat offset) (unat siz) < 2 ^ 31" using assms(4) by (simp add: min_less_iff_disj)
  then have lt: "unat ?m < 2 ^ 31" unfolding m .
  from sint_small_u64 [OF lt] m show ?thesis by (simp only: chunk_len_def)
qed

lemma unat_and_4095: "unat (x AND 4095 :: u64) = unat x mod 4096"
proof -
  have "x AND 4095 = take_bit 12 x" by (simp add: take_bit_eq_mask mask_eq_exp_minus_1)
  then show ?thesis by (simp add: unsigned_take_bit_eq take_bit_eq_mod unat_mod)
qed

definition data_event :: "u32 \<Rightarrow> u64 \<times> u32 \<Rightarrow> event" where
  "data_event h r = Cmd (LAUNCH_UPDATE_DATA h (fst r) (snd r)) 0"

text \<open>Only the world outside and the history may differ.\<close>

definition only_events :: "'x host \<Rightarrow> 'x host \<Rightarrow> bool" where
  "only_events s s' \<longleftrightarrow> (\<exists>x h. s' = s\<lparr>world := x, events := h\<rparr>)"

lemma only_eventsI [simp]: "only_events s (s\<lparr>world := x, events := h\<rparr>)"
  unfolding only_events_def by blast

lemma only_events_refl [simp]: "only_events s s"
  using only_eventsI [where s = s and x = "world s" and h = "events s"] by simp

lemma only_events_trans: "only_events s t \<Longrightarrow> only_events t u \<Longrightarrow> only_events s u"
  by (auto simp: only_events_def) (metis only_eventsI only_events_def)

lemma issue_works:
  assumes "\<forall>fd c x. fst (firmware_fd E fd c x) = 0" "\<forall>fd x. fd_open E fd x"
  obtains error s' where "sev_issue_cmd E k cmd err s = (0, error, s')" "events s' = Cmd cmd 0 # events s" "only_events s s'"
proof -
  obtain ret error x where "firmware_fd E (sev_dev_fd (sev_of k s)) cmd (world s) = (ret, error, x)"
    by (cases "firmware_fd E (sev_dev_fd (sev_of k s)) cmd (world s)")
  moreover from this have "ret = 0" using assms(1) by (metis fst_conv)
  ultimately show thesis
    using assms(2) that [of error "s\<lparr>world := x, events := Cmd cmd 0 # events s\<rparr>"]
    by (simp add: sev_issue_cmd_def do_issue_cmd_def)
qed

text \<open>One chunk.\<close>

lemma chunk_bytes:
  assumes "unat i = pos div 4096" "unat (vaddr AND 4095) = pos mod 4096" "unat i < length inpages"
    and "m \<le> get_num_contig_pages (unat i) inpages * 4096 - pos mod 4096" "m < 2 ^ 31"
  shows "range_bytes (push_bit 12 (inpages ! unat i) + (vaddr AND 4095), of_nat m) = map (\<lambda>j. phys inpages (pos + j)) [0..<m]"
proof -
  have off: "vaddr AND 4095 = of_nat (pos mod 4096)" by (simp flip: assms(2))
  have "unat (of_nat m :: u32) = m" using assms(5) by (simp add: unsigned_of_nat take_bit_nat_eq_self)
  moreover have "phys inpages (pos + j) = push_bit 12 (inpages ! unat i) + (vaddr AND 4095) + of_nat j" if "j < m" for j
  proof -
    have "pos mod 4096 + j < get_num_contig_pages (unat i) inpages * 4096" using assms(4) that by linarith
    from run_bytes [OF assms(3,1) this] show ?thesis by (simp only: off of_nat_add add.assoc)
  qed
  ultimately show ?thesis by (simp add: range_bytes_def)
qed

lemma update_data_loop_covers:
  assumes "\<forall>fd c x. fst (firmware_fd E fd c x) = 0" "\<forall>fd x. fd_open E fd x" "length inpages \<le> 0x7FFFFFFF"
    and "unat siz < 2 ^ 31" "unat vaddr + unat siz < 2 ^ 64" "unat i = pos div 4096" "unat (vaddr AND 4095) = pos mod 4096"
    and "pos + unat siz \<le> length inpages * 4096" "h = handle (sev_of k s)"
  shows "\<exists>c' s' rs. update_data_loop E k inpages vaddr (vaddr + siz) siz i c s = Some (0, c', s') \<and> only_events s s'
    \<and> events s' = rev (map (data_event h) rs) @ events s
    \<and> concat (map range_bytes rs) = map (\<lambda>j. phys inpages (pos + j)) [0..<unat siz]"
  using assms(4-9)
proof (induction "unat siz" arbitrary: siz vaddr i pos c s rule: less_induct)
  case less
  note simps = update_data_loop.simps [of E k inpages vaddr]
  show ?case
  proof (cases "siz = 0")
    case True
    then show ?thesis by (intro exI [of _ c] exI [of _ s] exI [of _ "[]"]) (simp add: simps)
  next
    case False
    then have pos: "0 < unat siz" by (simp add: unat_gt_0)
    have end_: "unat (vaddr + siz) = unat vaddr + unat siz" using less.prems(2) by (subst unat_add_lem [symmetric]) simp
    then have lt: "vaddr < vaddr + siz" using pos by (simp add: word_less_nat_alt)
    have il: "unat i < length inpages" using less.prems(3,5) pos by (simp add: less_mult_imp_div_less)
    define n where "n = get_num_contig_pages (unat i) inpages"
    have n: "0 < n" "unat i + n \<le> length inpages"
      using run_pages(2) [OF il, of 0] by (simp_all add: n_def get_num_contig_pages_def)
    define m where "m = min (n * 4096 - pos mod 4096) (unat siz)"
    have m: "0 < m" "m \<le> unat siz" "m < 2 ^ 31" "m \<le> n * 4096 - pos mod 4096"
      using n(1) pos less.prems(1) by (auto simp: m_def)
    have len: "word_of_int (chunk_len n (vaddr AND 4095) siz) = (of_nat m :: u64)"
    proof -
      have "chunk_len n (vaddr AND 4095) siz = int (min (n * 4096 - unat (vaddr AND 4095)) (unat siz))"
        using n assms(3) less.prems(1,4) by (intro chunk_len_small) auto
      then show ?thesis using less.prems(4) by (simp add: m_def)
    qed
    have um: "unat (of_nat m :: u64) = m" using m(3) by (intro unat_of_nat_u64) simp
    have u32: "(ucast (of_nat m :: u64) :: u32) = of_nat m"
      using m(3) by (simp add: word_unat_eq_iff unsigned_ucast_eq unsigned_of_nat take_bit_nat_eq_self)
    let ?a = "push_bit 12 (inpages ! unat i) + (vaddr AND 4095)"
    obtain error s1 where s1: "sev_issue_cmd E k (LAUNCH_UPDATE_DATA h ?a (of_nat m)) (cmd_error c) s = (0, error, s1)"
      "events s1 = data_event h (?a, of_nat m) # events s" "only_events s s1"
      using issue_works [OF assms(1,2), of k "LAUNCH_UPDATE_DATA h ?a (of_nat m)" "cmd_error c" s]
      by (auto simp: data_event_def)
    let ?c = "c\<lparr>cmd_error := error\<rparr>"
    have step: "update_data_loop E k inpages vaddr (vaddr + siz) siz i c s =
        update_data_loop E k inpages (vaddr + of_nat m) (vaddr + siz) (siz - of_nat m) (i + of_nat n) ?c s1"
      using lt il s1(1) len u32 less.prems(6) by (simp add: simps n_def Let_def)
    have bytes: "range_bytes (?a, of_nat m) = map (\<lambda>j. phys inpages (pos + j)) [0..<m]"
      using m(3,4) by (intro chunk_bytes [OF less.prems(3,4) il]) (simp_all add: n_def)
    have h1: "h = handle (sev_of k s1)" using s1(3) less.prems(6) by (auto simp: only_events_def sev_of_def)
    show ?thesis
    proof (cases "m = unat siz")
      case True
      then have "of_nat m = siz" by simp
      then have "update_data_loop E k inpages vaddr (vaddr + siz) siz i c s = Some (0, ?c, s1)"
        unfolding step by (subst update_data_loop.simps) simp
      then show ?thesis using s1 bytes True by (intro exI [of _ ?c] exI [of _ s1] exI [of _ "[(?a, of_nat m)]"]) simp
    next
      case F: False
      then have mm: "m = n * 4096 - pos mod 4096" "m < unat siz" using m(2) by (auto simp: m_def)
      have "pos mod 4096 < n * 4096" using m(1) mm(1) by linarith
      moreover have "pos = pos div 4096 * 4096 + pos mod 4096" by simp
      ultimately have "pos + m = pos div 4096 * 4096 + n * 4096" using mm(1) by linarith
      then have p': "pos + m = (unat i + n) * 4096" using less.prems(3) by (simp only: distrib_right)
      have sz: "unat (siz - of_nat m) = unat siz - m" using um m(2) by (simp add: unat_sub word_le_nat_alt)
      have va: "unat (vaddr + of_nat m) = unat vaddr + m"
        using um m(2) less.prems(2) by (subst unat_add_lem [THEN iffD1]) simp_all
      have ui: "unat (i + of_nat n) = unat i + n"
      proof -
        have "unat (of_nat n :: u64) = n" using n(2) assms(3) by (intro unat_of_nat_u64) simp
        then show ?thesis using n(2) assms(3) by (subst unat_add_lem [THEN iffD1]) simp_all
      qed
      have "(unat vaddr + m) mod 4096 = ((pos mod 4096) + m) mod 4096"
        using less.prems(4) by (metis mod_add_left_eq unat_and_4095)
      also have "\<dots> = (pos + m) mod 4096" by (simp add: mod_add_left_eq)
      also have "\<dots> = 0" unfolding p' by simp
      finally have off: "unat ((vaddr + of_nat m) AND 4095) = (pos + m) mod 4096" using va p' by (simp add: unat_and_4095)
      have e: "(vaddr + of_nat m) + (siz - of_nat m) = vaddr + siz" by simp
      have "\<exists>c' s' rs. update_data_loop E k inpages (vaddr + of_nat m) ((vaddr + of_nat m) + (siz - of_nat m))
            (siz - of_nat m) (i + of_nat n) ?c s1 = Some (0, c', s') \<and> only_events s1 s'
          \<and> events s' = rev (map (data_event h) rs) @ events s1
          \<and> concat (map range_bytes rs) = map (\<lambda>j. phys inpages (pos + m + j)) [0..<unat (siz - of_nat m)]"
      proof (rule less.hyps)
        show "unat (siz - of_nat m) < unat siz" "unat (siz - of_nat m) < 2 ^ 31"
          unfolding sz using m(1,2) less.prems(1) by simp_all
        show "unat (vaddr + of_nat m) + unat (siz - of_nat m) < 2 ^ 64"
          unfolding va sz using m(2) less.prems(2) by simp
        show "unat (i + of_nat n) = (pos + m) div 4096" unfolding ui p' by (rule sym, rule nonzero_mult_div_cancel_right) simp
        show "unat ((vaddr + of_nat m) AND 4095) = (pos + m) mod 4096" by (rule off)
        show "pos + m + unat (siz - of_nat m) \<le> length inpages * 4096" unfolding sz using m(2) less.prems(5) by simp
        show "h = handle (sev_of k s1)" by (rule h1)
      qed
      from this [unfolded e sz] obtain c' s' rs where ih':
        "update_data_loop E k inpages (vaddr + of_nat m) (vaddr + siz) (siz - of_nat m) (i + of_nat n) ?c s1 = Some (0, c', s')"
        "only_events s1 s'" "events s' = rev (map (data_event h) rs) @ events s1"
        "concat (map range_bytes rs) = map (\<lambda>j. phys inpages (pos + m + j)) [0..<unat siz - m]"
        by (elim exE conjE) (rule that)
      note ih = ih' (1) [folded step] ih' (2-4)
      have "[0..<unat siz] = [0..<m] @ map (\<lambda>j. m + j) [0..<unat siz - m]"
        using m(2) upt_add_eq_append [of 0 m "unat siz - m"] by (simp add: map_add_upt add.commute)
      then have "concat (map range_bytes ((?a, of_nat m) # rs)) = map (\<lambda>j. phys inpages (pos + j)) [0..<unat siz]"
        using ih(4) bytes by (simp add: add.assoc)
      moreover have "events s' = rev (map (data_event h) ((?a, of_nat m) # rs)) @ events s" using ih(3) s1(2) by simp
      ultimately show ?thesis using ih(1) only_events_trans [OF s1(3) ih(2)] by blast
    qed
  qed
qed

section \<open>Pinning and the whole command\<close>

lemma page_frame: "drop_bit 12 (x AND NOT 4095 :: u64) = drop_bit 12 x"
proof -
  have m: "(4095 :: u64) = mask 12" by (simp add: mask_eq_exp_minus_1)
  have "drop_bit 12 (x AND NOT (mask 12)) = drop_bit 12 x" 
  proof (rule bit_word_eqI)
    fix n
    show "bit (drop_bit 12 (x AND NOT (mask 12))) n \<longleftrightarrow> bit (drop_bit 12 x) n"
      using bit_imp_le_length [of x "12 + n"] by (auto simp: bit_simps)
  qed
  then show ?thesis unfolding m .
qed

lemma pin_range_covers:
  assumes "l \<noteq> 0" "\<not> a + l < a"
  shows "unat a mod 4096 + unat l \<le> unat (pin_range a l) * 4096" and "unat a + unat l < 2 ^ 64"
proof -
  have al: "unat (a + l) = unat a + unat l" using assms(2) by (simp add: unat_plus_simple [THEN iffD1])
  show "unat a + unat l < 2 ^ 64" using unsigned_less [of "a + l", where ?'a = nat] by (simp add: al)
  have l: "0 < unat l" using assms(1) by (simp add: unat_gt_0)
  then have "(1 :: u64) \<le> a + l" using al by (simp add: word_le_nat_alt)
  then have final: "unat (a + l - 1) = unat a + unat l - 1" by (simp add: unat_sub al)
  let ?f = "(unat a + unat l - 1) div 4096"
  have le: "unat a div 4096 \<le> ?f" using l by (intro div_le_mono) linarith
  have d: "unat (drop_bit 12 x) = unat x div 4096" for x :: u64 by (simp add: drop_bit_eq_div unat_div)
  have s: "unat (drop_bit 12 (a + l - 1) - drop_bit 12 a) = ?f - unat a div 4096"
    using le by (subst unat_sub) (simp_all only: d final word_le_nat_alt)
  have b: "?f - unat a div 4096 < 2 ^ 64 - 1" using unsigned_less [of "a + l - 1", where ?'a = nat] by (simp add: final)
  have "unat (pin_range a l) = ?f - unat a div 4096 + 1"
    unfolding pin_range_def Let_def page_frame
    using b by (subst unat_add_lem [THEN iffD1]) (simp_all add: s)
  moreover have "unat a + unat l - 1 < ?f * 4096 + 4096" 
    using div_mult_mod_eq [of "unat a + unat l - 1" 4096] mod_less_divisor [of 4096 "unat a + unat l - 1"] by linarith
  moreover have "unat a = unat a div 4096 * 4096 + unat a mod 4096" by simp
  ultimately show "unat a mod 4096 + unat l \<le> unat (pin_range a l) * 4096"
    using le l by (simp only: distrib_right diff_mult_distrib) linarith
qed

lemma hold_pages:
  "fold (hold_page n) ps s = s\<lparr>held_pages := (\<lambda>p. held_pages s p + n * int (count_list ps p))\<rparr>"
  by (induction ps arbitrary: s) (auto simp: hold_page_def algebra_simps intro!: arg_cong [of _ _ "\<lambda>h. held_pages_update (\<lambda>_. h) _"])

lemma pin_outcome:
  assumes "sev_pin_memory E k a l s = (Inr ps, s')"
  shows "l \<noteq> 0" "\<not> a + l < a" "length ps = unat (pin_range a l)" "length ps \<le> 0x7FFFFFFF"
    and "\<exists>x. s' = on_sev k (\<lambda>i. i\<lparr>pages_locked := pages_locked i + pin_range a l\<rparr>)
          (fold (hold_page 1) ps (s\<lparr>arrays := arrays s + 1, world := x\<rparr>))"
  using assms
  by (auto simp: sev_pin_memory_def Let_def word_less_nat_alt on_sev_def sev_of_def hold_pages split: if_splits prod.splits)

lemma flush_pages:
  "\<exists>h. sev_clflush_pages E ps s = s\<lparr>events := h @ events s\<rparr> \<and> set h \<subseteq> range (\<lambda>p. Clflush p 1)"
proof -
  have "fold (\<lambda>p s. s\<lparr>events := Clflush p 1 # events s\<rparr>) ps s = s\<lparr>events := map (\<lambda>p. Clflush p 1) (rev ps) @ events s\<rparr>"
    by (induction ps arbitrary: s) simp_all
  note f = this
  show ?thesis
  proof (cases "sme_coherent E \<or> ps = []")
    case True
    then show ?thesis by (intro exI [of _ "[]"]) (simp add: sev_clflush_pages_def)
  next
    case False
    then show ?thesis by (intro exI [of _ "map (\<lambda>p. Clflush p 1) (rev ps)"]) (auto simp: sev_clflush_pages_def f)
  qed
qed

lemma unpin_pinned:
  assumes "\<exists>x. s' = on_sev k (\<lambda>i. i\<lparr>pages_locked := pages_locked i + n\<rparr>) (fold (hold_page 1) ps (s\<lparr>arrays := arrays s + 1, world := x\<rparr>))"
    and "\<exists>x h. s'' = s'\<lparr>world := x, events := h\<rparr>"
  shows "\<exists>x h. sev_unpin_memory k ps n s'' = s\<lparr>world := x, events := h\<rparr> \<and> h = events s''"
proof -
  obtain x y h where "s' = on_sev k (\<lambda>i. i\<lparr>pages_locked := pages_locked i + n\<rparr>)
      (fold (hold_page 1) ps (s\<lparr>arrays := arrays s + 1, world := x\<rparr>))" "s'' = s'\<lparr>world := y, events := h\<rparr>"
    using assms by blast
  then have "sev_unpin_memory k ps n s'' = s\<lparr>world := y, events := h\<rparr>"
    by (simp add: sev_unpin_memory_def on_sev_def hold_pages Let_def)
  then show ?thesis using \<open>s'' = _\<close> by auto
qed

text \<open>
  C29  Encrypting a buffer in place, of less than two gigabytes and when the firmware takes its commands: the
  loop ends, the ranges given to the firmware are, one after the other, exactly the bytes of the buffer
  through its pinned pages, each once and in order, and pins, limit and array are as before.
\<close>
theorem update_data_encrypts_buffer:
  assumes "\<forall>fd c x. fst (firmware_fd E fd c x) = 0" "\<forall>fd x. fd_open E fd x" "sev_guest k s"
    and "get_update_data E (cmd_data c) (world s) = Some (vaddr, len)" "unat len < 2 ^ 31"
    and "sev_pin_memory E k vaddr (ucast len) s = (Inr inpages, s1)"
  shows "\<exists>c' s' rs h. sev_launch_update_data E k c s = Some (0, c', s')
    \<and> events s' = rev (map (data_event (handle (sev_of k s))) rs) @ h @ events s \<and> set h \<subseteq> range (\<lambda>p. Clflush p 1)
    \<and> concat (map range_bytes rs) = map (\<lambda>j. phys inpages (unat vaddr mod 4096 + j)) [0..<unat len]
    \<and> (\<exists>x. s' = s\<lparr>world := x, events := events s'\<rparr>)"
proof -
  let ?l = "ucast len :: u64"
  note pin = pin_outcome [OF assms(6)]
  have ul: "unat ?l = unat len" using assms(5) by (simp add: unsigned_ucast_eq take_bit_nat_eq_self)
  obtain h where h: "sev_clflush_pages E inpages s1 = s1\<lparr>events := h @ events s1\<rparr>" "set h \<subseteq> range (\<lambda>p. Clflush p 1)"
    using flush_pages [of E inpages s1] by (elim exE conjE) (rule that)
  let ?s2 = "s1\<lparr>events := h @ events s1\<rparr>"
  have s1: "handle (sev_of k s1) = handle (sev_of k s)" "events s1 = events s"
    using pin(5) by (auto simp: hold_pages sev_of_def on_sev_def)
  then have hd: "handle (sev_of k s) = handle (sev_of k ?s2)" by (simp add: sev_of_def)
  have u0: "unat (0 :: u64) = unat vaddr mod 4096 div 4096" by simp
  have off: "unat (vaddr AND 4095) = unat vaddr mod 4096 mod 4096" by (simp add: unat_and_4095)
  have l31: "unat ?l < 2 ^ 31" using ul assms(5) by simp
  have fit: "unat vaddr mod 4096 + unat ?l \<le> length inpages * 4096"
    using pin_range_covers(1) [OF pin(1,2)] by (simp only: pin(3))
  obtain c' s' rs where r: "update_data_loop E k inpages vaddr (vaddr + ?l) ?l 0 c ?s2 = Some (0, c', s')" "only_events ?s2 s'"
    "events s' = rev (map (data_event (handle (sev_of k s))) rs) @ events ?s2"
    "concat (map range_bytes rs) = map (\<lambda>j. phys inpages (unat vaddr mod 4096 + j)) [0..<unat ?l]"
    using update_data_loop_covers [OF assms(1,2) pin(4) l31 pin_range_covers(2) [OF pin(1,2)] u0 off fit hd, of c]
    by (elim exE conjE) (rule that)
  have "\<exists>x h. s' = s1\<lparr>world := x, events := h\<rparr>" using r(2) by (auto simp: only_events_def)
  then obtain x where x: "sev_unpin_memory k inpages (pin_range vaddr ?l) s' = s\<lparr>world := x, events := events s'\<rparr>"
    using unpin_pinned [OF pin(5)] by blast
  have "sev_launch_update_data E k c s = Some (0, c', s\<lparr>world := x, events := events s'\<rparr>)"
    using assms(3,4,6) h(1) r(1) x by (simp add: sev_launch_update_data_def Let_def)
  moreover have "events s' = rev (map (data_event (handle (sev_of k s))) rs) @ h @ events s" using r(3) s1(2) by simp
  ultimately show ?thesis using h(2) r(4) ul by (intro exI [of _ c'] exI [of _ "s\<lparr>world := x, events := events s'\<rparr>"]
      exI [of _ rs] exI [of _ h]) auto
qed

definition buffer_env :: "unit sev_env" where
  "buffer_env = demo_env\<lparr>get_update_data := \<lambda>_ _. Some (0x1FF0, 0x30)\<rparr>"

lemma buffer_env_simps [simp]:
  "get_update_data buffer_env = (\<lambda>_ _. Some (0x1FF0, 0x30))" "firmware_fd buffer_env = (\<lambda>_ _ x. (0, 0, x))"
  "fd_open buffer_env = (\<lambda>_ _. True)" "lock_limit buffer_env = 100" "ipc_lock buffer_env = False"
  "kmalloc_ok buffer_env = (\<lambda>_ _. True)" "sme_coherent buffer_env = True"
  "pin_user_pages buffer_env = (\<lambda>a n x. (map (\<lambda>i. a + of_nat i * 4096) [0..<unat n], x))"
  by (simp_all add: buffer_env_def)

lemma update_data_encrypts_buffer_witness:
  "\<exists>inpages c' s' rs. sev_launch_update_data buffer_env 0 \<lparr>cmd_id = KVM_SEV_LAUNCH_UPDATE_DATA, cmd_data = 0, cmd_error = 0, cmd_fd = 3\<rparr>
      (on_sev 0 (\<lambda>i. i\<lparr>sev_active := True\<rparr>) (empty_host ())) = Some (0, c', s')
    \<and> concat (map range_bytes rs) = map (\<lambda>j. phys inpages (0xFF0 + j)) [0..<0x30] \<and> length inpages = 2"
proof -
  let ?s = "on_sev 0 (\<lambda>i. i\<lparr>sev_active := True\<rparr>) (empty_host ())"
  let ?c = "\<lparr>cmd_id = KVM_SEV_LAUNCH_UPDATE_DATA, cmd_data = 0, cmd_error = 0, cmd_fd = 3\<rparr>"
  have g: "sev_guest 0 ?s" by (simp add: sev_guest_def)
  have p: "pin_range 0x1FF0 0x30 = 2" by (simp add: pin_range_def)
  have l: "pages_locked (sev_of 0 (empty_host ())) = 0" by (simp add: sev_of_def empty_host_def zero_vm_def zero_sev_info_def)
  obtain inpages s1 where q: "sev_pin_memory buffer_env 0 0x1FF0 (ucast (0x30 :: u32)) ?s = (Inr inpages, s1)"
    by (simp add: sev_pin_memory_def p l Let_def upt_rec)
  have n: "length inpages = 2" using pin_outcome(3) [OF q] by (simp add: p)
  from update_data_encrypts_buffer [OF _ _ g _ _ q, where c = ?c]
  obtain c' s' rs where "sev_launch_update_data buffer_env 0 ?c ?s = Some (0, c', s')"
    "concat (map range_bytes rs) = map (\<lambda>j. phys inpages (unat (0x1FF0 :: u64) mod 4096 + j)) [0..<unat (0x30 :: u32)]"
    by auto
  then show ?thesis using n by (intro exI conjI) (assumption | simp)+
qed

text \<open>A run of two gigabytes does not fit in an \<open>int\<close>: the loop would go back by as much.\<close>

lemma chunk_len_wraps: "chunk_len 0x80000 0 0x80000000 = - 0x80000000"
  by (simp add: chunk_len_def min_def)

section \<open>The regions account for the pins\<close>

text \<open>What the regions of a guest do not account for: of its limit, of the pins of each page, of the arrays.\<close>

definition unaccounted :: "nat \<Rightarrow> 'x host \<Rightarrow> u64 \<times> (u64 \<Rightarrow> int) \<times> int" where
  "unaccounted k s =
     (let rs = regions_list (sev_of k s)
      in (pages_locked (sev_of k s) - sum_list (map region_npages rs),
          \<lambda>p. held_pages s p - int (count_list (concat (map region_pages rs)) p), arrays s - int (length rs)))"

lemma failed_pin:
  assumes "sev_pin_memory E k a l s = (Inl err, s')"
  shows "\<exists>x. s' = s\<lparr>world := x\<rparr>"
proof -
  have i: "\<exists>x. t = t\<lparr>world := x\<rparr>" for t :: "'a host" by (rule exI [of _ "world t"]) simp
  show ?thesis
    using assms by (auto simp: sev_pin_memory_def Let_def hold_pages intro: i split: if_splits prod.splits)
qed

lemma remove1_sum_list: "r \<in> set rs \<Longrightarrow> sum_list (map f (remove1 r rs)) = sum_list (map f rs) - (f r :: 'a :: ab_group_add)"
  by (induction rs) auto

lemma remove1_count:
  "r \<in> set rs \<Longrightarrow> int (count_list (concat (map f (remove1 r rs))) p) = int (count_list (concat (map f rs)) p) - int (count_list (f r) p)"
  by (induction rs) auto

text \<open>
  C31  Registering a region of memory and giving one back, whatever they return: the pins of every page, the
  pages counted against the limit and the allocated arrays change by exactly what the list of regions says.
\<close>
theorem regions_account_for_pins:
  "unaccounted k (snd (sev_mem_enc_register_region E k addr siz s)) = unaccounted k s
   \<and> unaccounted k (snd (sev_mem_enc_unregister_region k addr siz s)) = unaccounted k s"
proof
  show "unaccounted k (snd (sev_mem_enc_register_region E k addr siz s)) = unaccounted k s"
  proof (cases "sev_pin_memory E k addr siz s")
    case (Pair r s1)
    show ?thesis
    proof (cases r)
      case (Inl err)
      then obtain x where "s1 = s\<lparr>world := x\<rparr>" using failed_pin Pair by blast
      then show ?thesis using Pair Inl
        by (simp add: sev_mem_enc_register_region_def unaccounted_def sev_of_def)
    next
      case (Inr ps)
      from pin_outcome(5) [OF Pair [unfolded Inr]] obtain x where
        "s1 = on_sev k (\<lambda>i. i\<lparr>pages_locked := pages_locked i + pin_range addr siz\<rparr>)
          (fold (hold_page 1) ps (s\<lparr>arrays := arrays s + 1, world := x\<rparr>))" by blast
      moreover obtain h where "sev_clflush_pages E ps s1 = s1\<lparr>events := h @ events s1\<rparr>" using flush_pages by blast
      ultimately show ?thesis using Pair Inr
        by (auto simp: sev_mem_enc_register_region_def unaccounted_def sev_of_def on_sev_def hold_pages Let_def)
    qed
  qed
  show "unaccounted k (snd (sev_mem_enc_unregister_region k addr siz s)) = unaccounted k s"
  proof (cases "find_enc_region (sev_of k s) addr siz")
    case None
    then show ?thesis by (simp add: sev_mem_enc_unregister_region_def)
  next
    case (Some r)
    then have r: "r \<in> set (regions_list (sev_of k s))" by (auto simp: find_enc_region_def find_Some_iff)
    then have n: "int (length (regions_list (sev_info (kvms s k))) - Suc 0) = int (length (regions_list (sev_info (kvms s k)))) - 1"
      by (cases "regions_list (sev_of k s)") (auto simp: sev_of_def)
    show ?thesis using Some r
      by (auto simp: sev_mem_enc_unregister_region_def unregister_enc_region_locked_def wbinvd_on_all_cpus_def
          sev_unpin_memory_def unaccounted_def sev_of_def on_sev_def hold_pages Let_def remove1_sum_list remove1_count
          length_remove1 n)
  qed
qed

end
