(* ===== verification/Vmpl_Module.thy ===== *)
theory Vmpl_Module
  imports Wallet_Prelude
begin

text \<open>
  The guest kernel module, \<open>module/src/vmpl.c\<close> with \<open>module/include/\<close>: the character device whose
  ioctl takes a \<open>struct monitor_call\<close> from a user process and turns it into one call of the VMPL0
  monitor.  The kernel around the module (the SVSM protocol, user memory access, page tables, device
  registration) is not in this repository and is a parameter.  printk is left out.
\<close>

section \<open>Requests\<close>

datatype monitor_call_type =
    initMonitor | attestMonitor | attest | loadPolicy | createZygote | deleteZygote | createTrustlet
  | deleteTrustlet | invokeTrustlet | waitForTrustletResult | createChannel | deleteChannel
  | get_public_key | send_policy | execute_elf | create_data_struct | get_stat | reset_stat

fun call_code :: "monitor_call_type \<Rightarrow> u32" where
  "call_code initMonitor = 0"
| "call_code attestMonitor = 1"
| "call_code attest = 2"
| "call_code loadPolicy = 3"
| "call_code createZygote = 4"
| "call_code deleteZygote = 5"
| "call_code createTrustlet = 6"
| "call_code deleteTrustlet = 7"
| "call_code invokeTrustlet = 8"
| "call_code waitForTrustletResult = 9"
| "call_code createChannel = 10"
| "call_code deleteChannel = 11"
| "call_code get_public_key = 30"
| "call_code send_policy = 31"
| "call_code execute_elf = 32"
| "call_code create_data_struct = 50"
| "call_code get_stat = 100"
| "call_code reset_stat = 101"

definition all_call_types :: "monitor_call_type list" where
  "all_call_types = [initMonitor, attestMonitor, attest, loadPolicy, createZygote, deleteZygote, createTrustlet,
     deleteTrustlet, invokeTrustlet, waitForTrustletResult, createChannel, deleteChannel, get_public_key,
     send_policy, execute_elf, create_data_struct, get_stat, reset_stat]"

definition call_type_of :: "u32 \<Rightarrow> monitor_call_type option" where
  "call_type_of x = find (\<lambda>t. call_code t = x) all_call_types"

datatype attestation_report_type =
    monitorAttestation | wamrRuntimeAttestation | wasmModuleAttestation | functionAttestation
  | monitorAttestationCold | prepareWamrRuntimeAttestationCold | wamrRuntimeAttestationCold
  | wasmModuleAttestationCold

fun report_code :: "attestation_report_type \<Rightarrow> u32" where
  "report_code monitorAttestation = 0"
| "report_code wamrRuntimeAttestation = 1"
| "report_code wasmModuleAttestation = 2"
| "report_code functionAttestation = 3"
| "report_code monitorAttestationCold = 4"
| "report_code prepareWamrRuntimeAttestationCold = 5"
| "report_code wamrRuntimeAttestationCold = 6"
| "report_code wasmModuleAttestationCold = 7"

definition report_type_of :: "u32 \<Rightarrow> attestation_report_type option" where
  "report_type_of x = find (\<lambda>t. report_code t = x) [monitorAttestation, wamrRuntimeAttestation,
     wasmModuleAttestation, functionAttestation, monitorAttestationCold, prepareWamrRuntimeAttestationCold,
     wamrRuntimeAttestationCold, wasmModuleAttestationCold]"

text \<open>
  \<open>struct monitor_call\<close>: the type and the five words of its union, whose members share them.  The
  accessors below are named after the members.
\<close>

record monitor_call_struct =
  call_type :: u32
  u0 :: u64
  u1 :: u64
  u2 :: u64
  u3 :: u64
  u4 :: u64

definition process_id :: "monitor_call_struct \<Rightarrow> u64" where "process_id mc = u0 mc"
definition attestation_target :: "monitor_call_struct \<Rightarrow> addr" where "attestation_target mc = u0 mc"
definition attestation_process_id :: "monitor_call_struct \<Rightarrow> u64" where "attestation_process_id mc = u1 mc"
definition function_data_ptr :: "monitor_call_struct \<Rightarrow> addr" where "function_data_ptr mc = u2 mc"
definition module_id :: "monitor_call_struct \<Rightarrow> u64" where "module_id mc = u3 mc"
definition attestation_type :: "monitor_call_struct \<Rightarrow> u32" where "attestation_type mc = ucast (u4 mc)"
definition invokation_process_id :: "monitor_call_struct \<Rightarrow> u64" where "invokation_process_id mc = u0 mc"
definition invokation_data :: "monitor_call_struct \<Rightarrow> addr" where "invokation_data mc = u1 mc"
definition invokation_data_size :: "monitor_call_struct \<Rightarrow> u64" where "invokation_data_size mc = u2 mc"
definition zygote_data :: "monitor_call_struct \<Rightarrow> addr" where "zygote_data mc = u0 mc"
definition zygote_size :: "monitor_call_struct \<Rightarrow> u64" where "zygote_size mc = u1 mc"
definition trustlet_data :: "monitor_call_struct \<Rightarrow> addr" where "trustlet_data mc = u0 mc"
definition trustlet_size :: "monitor_call_struct \<Rightarrow> u64" where "trustlet_size mc = u1 mc"
definition trustlet_zygote :: "monitor_call_struct \<Rightarrow> u64" where "trustlet_zygote mc = u2 mc"
definition sender_pub_key :: "monitor_call_struct \<Rightarrow> addr" where "sender_pub_key mc = u0 mc"
definition encrypted_data :: "monitor_call_struct \<Rightarrow> addr" where "encrypted_data mc = u1 mc"
definition encrypted_data_size :: "monitor_call_struct \<Rightarrow> u32" where "encrypted_data_size mc = ucast (u2 mc)"
definition page1 :: "monitor_call_struct \<Rightarrow> addr" where "page1 mc = u0 mc"
definition page2 :: "monitor_call_struct \<Rightarrow> addr" where "page2 mc = u1 mc"
definition elf_size :: "monitor_call_struct \<Rightarrow> u32" where "elf_size mc = ucast (u2 mc)"
definition start_address :: "monitor_call_struct \<Rightarrow> addr" where "start_address mc = u0 mc"
definition data_size :: "monitor_call_struct \<Rightarrow> u64" where "data_size mc = u1 mc"
definition trustlet_id_1 :: "monitor_call_struct \<Rightarrow> u64" where "trustlet_id_1 mc = u0 mc"
definition trustlet_id_2 :: "monitor_call_struct \<Rightarrow> u64" where "trustlet_id_2 mc = u1 mc"

text \<open>\<open>sizeof(struct monitor_call)\<close> and the structure in 48 bytes of user memory.\<close>

definition monitor_call_size :: nat where "monitor_call_size = 48"

definition load_monitor_call :: "byte list \<Rightarrow> monitor_call_struct" where
  "load_monitor_call bs =
     \<lparr>call_type = le_word (take 4 bs), u0 = le_word (take 8 (drop 8 bs)), u1 = le_word (take 8 (drop 16 bs)),
      u2 = le_word (take 8 (drop 24 bs)), u3 = le_word (take 8 (drop 32 bs)), u4 = le_word (take 8 (drop 40 bs))\<rparr>"

text \<open>The registers of a call, as far as the module uses them.\<close>

record svsm_call =
  c_rax :: u64
  c_rcx :: u64
  c_rdx :: u64
  c_r8 :: u64
  c_r9 :: u64

section \<open>The kernel\<close>

record ('k, 'e) kernel =
  do_svsm_protocol :: "svsm_call \<Rightarrow> 'k \<Rightarrow> int \<times> svsm_call \<times> 'k"
  copy_from_user :: "'k \<Rightarrow> addr \<Rightarrow> nat \<Rightarrow> byte list option"
  pgd_offset :: "'k \<Rightarrow> u64 \<Rightarrow> 'e"
  p4d_offset :: "'k \<Rightarrow> 'e \<Rightarrow> u64 \<Rightarrow> 'e"
  pud_offset :: "'k \<Rightarrow> 'e \<Rightarrow> u64 \<Rightarrow> 'e"
  pmd_offset :: "'k \<Rightarrow> 'e \<Rightarrow> u64 \<Rightarrow> 'e"
  pte_offset_kernel :: "'k \<Rightarrow> 'e \<Rightarrow> u64 \<Rightarrow> 'e"
  entry_none :: "'e \<Rightarrow> bool"
  entry_bad :: "'e \<Rightarrow> bool"
  page_to_phys :: "'e \<Rightarrow> u64"
  pgd_phys :: "'k \<Rightarrow> u64"

definition MONITORCALLID :: "u32 \<Rightarrow> u64" where
  "MONITORCALLID x = push_bit 32 10 OR ucast x"

definition pagewalk :: "('k, 'e) kernel \<Rightarrow> 'k \<Rightarrow> addr \<Rightarrow> u64" where
  "pagewalk k s a =
     (let pgd = pgd_offset k s a
      in if entry_none k pgd \<or> entry_bad k pgd then 0
         else (let p4d = p4d_offset k s pgd a
               in if entry_none k p4d \<or> entry_bad k p4d then 0
                  else (let pud = pud_offset k s p4d a
                        in if entry_none k pud \<or> entry_bad k pud then 0
                           else (let pmd = pmd_offset k s pud a
                                 in if entry_none k pmd \<or> entry_bad k pmd then 0
                                    else (let pte = pte_offset_kernel k s pmd a
                                          in if entry_none k pte then 0 else page_to_phys k pte)))))"

definition get_pgd_phys :: "('k, 'e) kernel \<Rightarrow> 'k \<Rightarrow> u64" where
  "get_pgd_phys k s = pgd_phys k s"

section \<open>The handlers\<close>

text \<open>
  Each takes the uninitialised \<open>struct svsm_call call\<close> of its frame as \<open>call\<close>, sets the members the
  code sets, and returns a \<open>long\<close>.
\<close>

definition init_monitor :: "('k, 'e) kernel \<Rightarrow> svsm_call \<Rightarrow> monitor_call_struct \<Rightarrow> 'k \<Rightarrow> int \<times> 'k" where
  "init_monitor k call mcall s =
     (let ph = pagewalk k s (attestation_target mcall);
          call = call\<lparr>c_rcx := ph\<rparr>;
          call = call\<lparr>c_rax := MONITORCALLID (call_type mcall)\<rparr>;
          (res, call, s) = do_svsm_protocol k call s
      in if res \<noteq> 1 then (- 1, s) else (0, s))"

definition diff_attestation :: "('k, 'e) kernel \<Rightarrow> svsm_call \<Rightarrow> monitor_call_struct \<Rightarrow> 'k \<Rightarrow> int \<times> 'k" where
  "diff_attestation k call mcall s =
     (let ph = pagewalk k s (attestation_target mcall);
          call = call\<lparr>c_rcx := ph\<rparr>;
          call = call\<lparr>c_rax := MONITORCALLID (call_type mcall)\<rparr>;
          call = call\<lparr>c_rdx := ucast (attestation_type mcall)\<rparr>;
          call = (case report_type_of (attestation_type mcall) of
                    Some monitorAttestation \<Rightarrow> call
                  | Some wamrRuntimeAttestation \<Rightarrow> call\<lparr>c_r8 := attestation_process_id mcall\<rparr>
                  | Some wasmModuleAttestation \<Rightarrow>
                      call\<lparr>c_r8 := attestation_process_id mcall, c_r9 := module_id mcall\<rparr>
                  | Some functionAttestation \<Rightarrow>
                      call\<lparr>c_r8 := get_pgd_phys k s, c_r9 := function_data_ptr mcall\<rparr>
                  | Some monitorAttestationCold \<Rightarrow> call
                  | Some prepareWamrRuntimeAttestationCold \<Rightarrow> call\<lparr>c_r8 := attestation_process_id mcall\<rparr>
                  | Some wamrRuntimeAttestationCold \<Rightarrow> call\<lparr>c_r8 := attestation_process_id mcall\<rparr>
                  | Some wasmModuleAttestationCold \<Rightarrow>
                      call\<lparr>c_r8 := attestation_process_id mcall, c_r9 := module_id mcall\<rparr>
                  | None \<Rightarrow> call);
          (res, call, s) = do_svsm_protocol k call s
      in if res \<noteq> 1 then (- 1, s) else (sint (c_rdx call), s))"

text \<open>\<open>int res = call.rcx\<close> keeps the low 32 bits.\<close>

definition create_zygote :: "('k, 'e) kernel \<Rightarrow> svsm_call \<Rightarrow> monitor_call_struct \<Rightarrow> 'k \<Rightarrow> int \<times> 'k" where
  "create_zygote k call mcall s =
     (let call = call\<lparr>c_rax := MONITORCALLID (call_type mcall)\<rparr>;
          call = call\<lparr>c_rcx := zygote_size mcall\<rparr>;
          call = call\<lparr>c_r8 := get_pgd_phys k s\<rparr>;
          call = call\<lparr>c_rdx := zygote_data mcall\<rparr>;
          (_, call, s) = do_svsm_protocol k call s;
          res = sint (ucast (c_rcx call) :: u32)
      in (res, s))"

definition delete_zygote :: "('k, 'e) kernel \<Rightarrow> svsm_call \<Rightarrow> monitor_call_struct \<Rightarrow> 'k \<Rightarrow> int \<times> 'k" where
  "delete_zygote k call mcall s =
     (let call = call\<lparr>c_rax := MONITORCALLID (call_type mcall)\<rparr>;
          call = call\<lparr>c_rcx := process_id mcall\<rparr>;
          (res, call, s) = do_svsm_protocol k call s
      in if res \<noteq> 1 then (- 1, s) else (0, s))"

definition create_trustlet :: "('k, 'e) kernel \<Rightarrow> svsm_call \<Rightarrow> monitor_call_struct \<Rightarrow> 'k \<Rightarrow> int \<times> 'k" where
  "create_trustlet k call mcall s =
     (let call = call\<lparr>c_rax := MONITORCALLID (call_type mcall)\<rparr>;
          call = call\<lparr>c_rcx := trustlet_size mcall\<rparr>;
          call = call\<lparr>c_r8 := get_pgd_phys k s\<rparr>;
          call = call\<lparr>c_rdx := trustlet_data mcall\<rparr>;
          call = call\<lparr>c_r9 := trustlet_zygote mcall\<rparr>;
          (res, call, s) = do_svsm_protocol k call s
      in (sint (c_rcx call), s))"

definition invoke_trustlet :: "('k, 'e) kernel \<Rightarrow> svsm_call \<Rightarrow> monitor_call_struct \<Rightarrow> 'k \<Rightarrow> int \<times> 'k" where
  "invoke_trustlet k call mcall s =
     (let call = call\<lparr>c_rax := MONITORCALLID (call_type mcall)\<rparr>;
          call = call\<lparr>c_rcx := invokation_process_id mcall\<rparr>;
          call = call\<lparr>c_rdx := get_pgd_phys k s\<rparr>;
          call = call\<lparr>c_r8 := invokation_data mcall\<rparr>;
          call = call\<lparr>c_r9 := invokation_data_size mcall\<rparr>;
          (res, call, s) = do_svsm_protocol k call s
      in (sint (c_rcx call), s))"

definition delete_trustlet :: "('k, 'e) kernel \<Rightarrow> svsm_call \<Rightarrow> monitor_call_struct \<Rightarrow> 'k \<Rightarrow> int \<times> 'k" where
  "delete_trustlet k call mcall s =
     (let call = call\<lparr>c_rax := MONITORCALLID (call_type mcall)\<rparr>;
          call = call\<lparr>c_rcx := process_id mcall\<rparr>;
          (res, call, s) = do_svsm_protocol k call s
      in if res \<noteq> 1 then (- 1, s) else (0, s))"

definition create_channel :: "('k, 'e) kernel \<Rightarrow> svsm_call \<Rightarrow> monitor_call_struct \<Rightarrow> 'k \<Rightarrow> int \<times> 'k" where
  "create_channel k call mcall s =
     (let call = call\<lparr>c_rax := MONITORCALLID (call_type mcall)\<rparr>;
          call = call\<lparr>c_rcx := trustlet_id_1 mcall\<rparr>;
          call = call\<lparr>c_rdx := trustlet_id_2 mcall\<rparr>;
          (res, call, s) = do_svsm_protocol k call s
      in if res \<noteq> 1 then (- 1, s) else (0, s))"

definition get_pub_key :: "('k, 'e) kernel \<Rightarrow> svsm_call \<Rightarrow> monitor_call_struct \<Rightarrow> 'k \<Rightarrow> int \<times> 'k" where
  "get_pub_key k call mcall s =
     (let ph = pagewalk k s (attestation_target mcall);
          call = call\<lparr>c_rcx := ph\<rparr>;
          call = call\<lparr>c_rax := MONITORCALLID (call_type mcall)\<rparr>;
          (res, call, s) = do_svsm_protocol k call s
      in if res \<noteq> 1 then (- 1, s) else (0, s))"

definition send_policy_call :: "('k, 'e) kernel \<Rightarrow> svsm_call \<Rightarrow> monitor_call_struct \<Rightarrow> 'k \<Rightarrow> int \<times> 'k" where
  "send_policy_call k call mcall s =
     (let sender_pub_key_pa = pagewalk k s (sender_pub_key mcall);
          encrypted_data_pa = pagewalk k s (encrypted_data mcall);
          call = call\<lparr>c_r8 := encrypted_data_pa\<rparr>;
          call = call\<lparr>c_rcx := sender_pub_key_pa\<rparr>;
          call = call\<lparr>c_rdx := ucast (encrypted_data_size mcall)\<rparr>;
          call = call\<lparr>c_rax := MONITORCALLID (call_type mcall)\<rparr>;
          (res, call, s) = do_svsm_protocol k call s
      in if res \<noteq> 1 then (- 1, s) else (0, s))"

definition exec_elf :: "('k, 'e) kernel \<Rightarrow> svsm_call \<Rightarrow> monitor_call_struct \<Rightarrow> 'k \<Rightarrow> int \<times> 'k" where
  "exec_elf k call mcall s =
     (let page1_pa = pagewalk k s (page1 mcall);
          page2_pa = pagewalk k s (page2 mcall);
          call = call\<lparr>c_r8 := page1_pa\<rparr>;
          call = call\<lparr>c_rcx := page2_pa\<rparr>;
          call = call\<lparr>c_rdx := ucast (elf_size mcall)\<rparr>;
          call = call\<lparr>c_rax := MONITORCALLID (call_type mcall)\<rparr>;
          (res, call, s) = do_svsm_protocol k call s
      in if res \<noteq> 1 then (- 1, s) else (0, s))"

definition load_data :: "('k, 'e) kernel \<Rightarrow> svsm_call \<Rightarrow> monitor_call_struct \<Rightarrow> 'k \<Rightarrow> int \<times> 'k" where
  "load_data k call mcall s =
     (let siz = data_size mcall; start_addr = start_address mcall;
          pgd_phys = get_pgd_phys k s;
          call = call\<lparr>c_rcx := siz\<rparr>;
          call = call\<lparr>c_rdx := pgd_phys\<rparr>;
          call = call\<lparr>c_r8 := start_addr\<rparr>;
          call = call\<lparr>c_rax := MONITORCALLID (call_type mcall)\<rparr>;
          (_, _, s) = do_svsm_protocol k call s
      in (0, s))"

definition get_stat_call :: "('k, 'e) kernel \<Rightarrow> svsm_call \<Rightarrow> monitor_call_struct \<Rightarrow> 'k \<Rightarrow> int \<times> 'k" where
  "get_stat_call k call mcall s =
     (let call = call\<lparr>c_rax := MONITORCALLID (call_type mcall)\<rparr>;
          (_, _, s) = do_svsm_protocol k call s
      in (0, s))"

definition reset_stat_call :: "('k, 'e) kernel \<Rightarrow> svsm_call \<Rightarrow> monitor_call_struct \<Rightarrow> 'k \<Rightarrow> int \<times> 'k" where
  "reset_stat_call k call mcall s =
     (let call = call\<lparr>c_rax := MONITORCALLID (call_type mcall)\<rparr>;
          (_, _, s) = do_svsm_protocol k call s
      in (0, s))"

definition parse_request :: "('k, 'e) kernel \<Rightarrow> svsm_call \<Rightarrow> addr \<Rightarrow> 'k \<Rightarrow> int \<times> 'k" where
  "parse_request k frame arg s =
     (case copy_from_user k s arg monitor_call_size of
        None \<Rightarrow> (- 1, s)
      | Some bs \<Rightarrow>
          (let call = load_monitor_call bs
           in case call_type_of (call_type call) of
                Some initMonitor \<Rightarrow> init_monitor k frame call s
              | Some attest \<Rightarrow> diff_attestation k frame call s
              | Some createZygote \<Rightarrow> create_zygote k frame call s
              | Some createTrustlet \<Rightarrow> create_trustlet k frame call s
              | Some deleteZygote \<Rightarrow> delete_zygote k frame call s
              | Some deleteTrustlet \<Rightarrow> delete_trustlet k frame call s
              | Some createChannel \<Rightarrow> create_channel k frame call s
              | Some get_public_key \<Rightarrow> get_pub_key k frame call s
              | Some send_policy \<Rightarrow> send_policy_call k frame call s
              | Some execute_elf \<Rightarrow> exec_elf k frame call s
              | Some create_data_struct \<Rightarrow> load_data k frame call s
              | Some invokeTrustlet \<Rightarrow> invoke_trustlet k frame call s
              | Some get_stat \<Rightarrow> get_stat_call k frame call s
              | Some reset_stat \<Rightarrow> reset_stat_call k frame call s
              | _ \<Rightarrow> (- 1, s)))"

text \<open>\<open>_IOR('a', 'a', struct monitor_call)\<close>.\<close>

definition VMPL_WR :: u32 where "VMPL_WR = 0x80306161"

definition vmpl_ioctl :: "('k, 'e) kernel \<Rightarrow> svsm_call \<Rightarrow> u32 \<Rightarrow> addr \<Rightarrow> 'k \<Rightarrow> int \<times> 'k" where
  "vmpl_ioctl k frame cmd arg s = (if cmd = VMPL_WR then parse_request k frame arg s else (0, s))"

section \<open>Loading the module\<close>

text \<open>What the module holds of the kernel; the results of the kernel's functions are arguments.\<close>

record chardev =
  region_allocated :: bool
  cdev_added :: bool
  class_created :: bool
  device_created :: bool

definition vmpl_start :: "int \<Rightarrow> int \<Rightarrow> bool \<Rightarrow> bool \<Rightarrow> chardev \<Rightarrow> int \<times> chardev" where
  "vmpl_start alloc_ret add_ret class_err device_err d =
     (if alloc_ret < 0 then (- 1, d)
      else (let d = d\<lparr>region_allocated := True\<rparr>
            in if add_ret < 0 then (- 1, d\<lparr>region_allocated := False\<rparr>)
               else (let d = d\<lparr>cdev_added := True\<rparr>
                     in if class_err then (- 1, d\<lparr>region_allocated := False\<rparr>)
                        else (let d = d\<lparr>class_created := True\<rparr>
                              in if device_err
                                 then (- 1, d\<lparr>class_created := False, region_allocated := False\<rparr>)
                                 else (0, d\<lparr>device_created := True\<rparr>)))))"

definition vmpl_end :: "chardev \<Rightarrow> chardev" where
  "vmpl_end d =
     (let d = d\<lparr>device_created := False\<rparr>; d = d\<lparr>class_created := False\<rparr>; d = d\<lparr>cdev_added := False\<rparr>
      in d\<lparr>region_allocated := False\<rparr>)"

section \<open>One request, one call\<close>

text \<open>
  What the device promises, apart from how: the registers of the call for a request, if it is one
  the device serves, and the value the user gets for the registers that come back.
\<close>

definition request_call ::
  "('k, 'e) kernel \<Rightarrow> 'k \<Rightarrow> svsm_call \<Rightarrow> monitor_call_type \<Rightarrow> monitor_call_struct \<Rightarrow> svsm_call option" where
  "request_call k s frame t mc =
     (let c = frame\<lparr>c_rax := 10 * 2 ^ 32 + ucast (call_code t)\<rparr>; pt = get_pgd_phys k s; page = pagewalk k s
      in case t of
           initMonitor \<Rightarrow> Some (c\<lparr>c_rcx := page (u0 mc)\<rparr>)
         | attest \<Rightarrow>
             (let c = c\<lparr>c_rcx := page (u0 mc), c_rdx := ucast (ucast (u4 mc) :: u32)\<rparr>; kind = (ucast (u4 mc) :: u32)
              in Some (if kind \<in> {1, 5, 6} then c\<lparr>c_r8 := u1 mc\<rparr>
                       else if kind \<in> {2, 7} then c\<lparr>c_r8 := u1 mc, c_r9 := u3 mc\<rparr>
                       else if kind = 3 then c\<lparr>c_r8 := pt, c_r9 := u2 mc\<rparr> else c))
         | createZygote \<Rightarrow> Some (c\<lparr>c_rcx := u1 mc, c_rdx := u0 mc, c_r8 := pt\<rparr>)
         | createTrustlet \<Rightarrow> Some (c\<lparr>c_rcx := u1 mc, c_rdx := u0 mc, c_r8 := pt, c_r9 := u2 mc\<rparr>)
         | deleteZygote \<Rightarrow> Some (c\<lparr>c_rcx := u0 mc\<rparr>)
         | deleteTrustlet \<Rightarrow> Some (c\<lparr>c_rcx := u0 mc\<rparr>)
         | createChannel \<Rightarrow> Some (c\<lparr>c_rcx := u0 mc, c_rdx := u1 mc\<rparr>)
         | get_public_key \<Rightarrow> Some (c\<lparr>c_rcx := page (u0 mc)\<rparr>)
         | send_policy \<Rightarrow> Some (c\<lparr>c_rcx := page (u0 mc), c_rdx := ucast (ucast (u2 mc) :: u32), c_r8 := page (u1 mc)\<rparr>)
         | execute_elf \<Rightarrow> Some (c\<lparr>c_rcx := page (u1 mc), c_rdx := ucast (ucast (u2 mc) :: u32), c_r8 := page (u0 mc)\<rparr>)
         | create_data_struct \<Rightarrow> Some (c\<lparr>c_rcx := u1 mc, c_rdx := pt, c_r8 := u0 mc\<rparr>)
         | invokeTrustlet \<Rightarrow> Some (c\<lparr>c_rcx := u0 mc, c_rdx := pt, c_r8 := u1 mc, c_r9 := u2 mc\<rparr>)
         | get_stat \<Rightarrow> Some c
         | reset_stat \<Rightarrow> Some c
         | _ \<Rightarrow> None)"

definition request_reply :: "monitor_call_type \<Rightarrow> int \<Rightarrow> svsm_call \<Rightarrow> int" where
  "request_reply t res out =
     (if t = createZygote then sint (ucast (c_rcx out) :: u32)
      else if t \<in> {createTrustlet, invokeTrustlet} then sint (c_rcx out)
      else if t \<in> {create_data_struct, get_stat, reset_stat} then 0
      else if res \<noteq> 1 then - 1
      else if t = attest then sint (c_rdx out) else 0)"

definition serve_request :: "('k, 'e) kernel \<Rightarrow> svsm_call \<Rightarrow> monitor_call_struct \<Rightarrow> 'k \<Rightarrow> int \<times> 'k" where
  "serve_request k frame mc s =
     (case call_type_of (call_type mc) of
        None \<Rightarrow> (- 1, s)
      | Some t \<Rightarrow>
          (case request_call k s frame t mc of
             None \<Rightarrow> (- 1, s)
           | Some call \<Rightarrow> (let (res, out, s) = do_svsm_protocol k call s in (request_reply t res out, s))))"

lemma call_type_of_code: "call_type_of (call_code t) = Some t"
  by (cases t) (simp_all add: call_type_of_def all_call_types_def)

lemma call_type_ofD: "call_type_of x = Some t \<Longrightarrow> x = call_code t"
  by (auto simp: call_type_of_def find_Some_iff)

lemma monitor_call_id: "MONITORCALLID (call_code t) = 10 * 2 ^ 32 + ucast (call_code t)"
  by (cases t) (simp_all add: MONITORCALLID_def push_bit_eq_mult)

lemma report_type_cases:
  "report_type_of x = (if x = 0 then Some monitorAttestation else if x = 1 then Some wamrRuntimeAttestation
     else if x = 2 then Some wasmModuleAttestation else if x = 3 then Some functionAttestation
     else if x = 4 then Some monitorAttestationCold else if x = 5 then Some prepareWamrRuntimeAttestationCold
     else if x = 6 then Some wamrRuntimeAttestationCold else if x = 7 then Some wasmModuleAttestationCold else None)"
  by (auto simp: report_type_of_def)

lemmas module_handlers = init_monitor_def create_zygote_def delete_zygote_def create_trustlet_def
  invoke_trustlet_def delete_trustlet_def create_channel_def get_pub_key_def send_policy_call_def exec_elf_def
  load_data_def get_stat_call_def reset_stat_call_def

lemmas module_accessors = process_id_def attestation_target_def attestation_process_id_def function_data_ptr_def
  module_id_def attestation_type_def invokation_process_id_def invokation_data_def invokation_data_size_def
  zygote_data_def zygote_size_def trustlet_data_def trustlet_size_def trustlet_zygote_def sender_pub_key_def
  encrypted_data_def encrypted_data_size_def page1_def page2_def elf_size_def start_address_def data_size_def
  trustlet_id_1_def trustlet_id_2_def

text \<open>The call of the attestation handler, and that every handler makes the call of its request.\<close>

lemma diff_attestation_call:
  assumes "call_type mc = call_code attest"
  shows "diff_attestation k frame mc s =
     (let (res, out, s) = do_svsm_protocol k (the (request_call k s frame attest mc)) s
      in (request_reply attest res out, s))"
  by (cases frame) (simp add: diff_attestation_def request_call_def request_reply_def report_type_cases module_accessors assms
      monitor_call_id Let_def case_prod_unfold del: call_code.simps)

lemma handler_call:
  assumes "call_type_of (call_type mc) = Some t"
  shows "(case t of initMonitor \<Rightarrow> init_monitor k frame mc s | attest \<Rightarrow> diff_attestation k frame mc s
           | createZygote \<Rightarrow> create_zygote k frame mc s | createTrustlet \<Rightarrow> create_trustlet k frame mc s
           | deleteZygote \<Rightarrow> delete_zygote k frame mc s | deleteTrustlet \<Rightarrow> delete_trustlet k frame mc s
           | createChannel \<Rightarrow> create_channel k frame mc s | get_public_key \<Rightarrow> get_pub_key k frame mc s
           | send_policy \<Rightarrow> send_policy_call k frame mc s | execute_elf \<Rightarrow> exec_elf k frame mc s
           | create_data_struct \<Rightarrow> load_data k frame mc s | invokeTrustlet \<Rightarrow> invoke_trustlet k frame mc s
           | get_stat \<Rightarrow> get_stat_call k frame mc s | reset_stat \<Rightarrow> reset_stat_call k frame mc s
           | _ \<Rightarrow> (- 1, s)) = serve_request k frame mc s"
proof -
  have t: "call_type mc = call_code t" using assms by (rule call_type_ofD)
  show ?thesis
    by (cases t; cases frame) (simp_all add: serve_request_def call_type_of_code t diff_attestation_call module_handlers
        module_accessors monitor_call_id request_call_def request_reply_def Let_def case_prod_unfold
        del: call_code.simps)
qed

lemma parse_request_serves:
  "parse_request k frame arg s =
     (case copy_from_user k s arg monitor_call_size of
        None \<Rightarrow> (- 1, s)
      | Some bs \<Rightarrow> serve_request k frame (load_monitor_call bs) s)"
proof (cases "copy_from_user k s arg monitor_call_size")
  case None
  then show ?thesis by (simp add: parse_request_def)
next
  case (Some bs)
  let ?mc = "load_monitor_call bs"
  show ?thesis
  proof (cases "call_type_of (call_type ?mc)")
    case None
    then show ?thesis by (simp add: parse_request_def serve_request_def Some)
  next
    case (Some t)
    from handler_call [OF this, of k frame s] show ?thesis
      by (simp add: parse_request_def \<open>copy_from_user k s arg monitor_call_size = Some bs\<close> Some)
  qed
qed


end
