(* ===== verification/Libwallet.thy ===== *)
theory Libwallet
  imports Vmpl_Module Pal_Cstring "HOL-Library.Monad_Syntax"
begin

text \<open>
  The user space library, \<open>module/libwallet/src\<close>: its buffers (memory.c), its connection to the device
  (monitor.c), the statistics calls (lib.c) and zygotes (zygote.c).  The C library and the kernel
  under it are the parameter \<open>'w libc\<close>, over a state \<open>'w\<close> of their own.  An operation that may not
  come back (an assert, exit, a NULL that is written through, a signed counter that overflows) gives
  an option, None if it does not.
\<close>

section \<open>The process and its C library\<close>

record 'w proc =
  pmem :: mem
  con :: int
  attested_function_cnt :: int
  pworld :: 'w

record 'w libc =
  nodebug :: bool
  aligned_alloc :: "u64 \<Rightarrow> u64 \<Rightarrow> 'w \<Rightarrow> addr \<times> 'w"
  malloc :: "u64 \<Rightarrow> 'w \<Rightarrow> addr \<times> 'w"
  free :: "addr \<Rightarrow> 'w \<Rightarrow> 'w"
  ioctl :: "int \<Rightarrow> u32 \<Rightarrow> monitor_call_struct \<Rightarrow> 'w proc \<Rightarrow> int \<times> 'w proc"
  fopen_read :: "mem \<Rightarrow> addr \<Rightarrow> 'w \<Rightarrow> addr \<times> 'w"
  file_end :: "addr \<Rightarrow> 'w \<Rightarrow> u64 \<times> 'w"
  fread :: "addr \<Rightarrow> u64 \<Rightarrow> 'w \<Rightarrow> byte list \<times> 'w"
  fopen_write :: "string \<Rightarrow> 'w \<Rightarrow> addr \<times> 'w"
  fputs :: "addr \<Rightarrow> string \<Rightarrow> 'w \<Rightarrow> 'w"
  fclose :: "addr \<Rightarrow> 'w \<Rightarrow> 'w"
  open_device :: "string \<Rightarrow> 'w \<Rightarrow> int \<times> 'w"
  open_file :: "mem \<Rightarrow> addr \<Rightarrow> 'w \<Rightarrow> int \<times> 'w"
  close :: "int \<Rightarrow> 'w \<Rightarrow> 'w"
  stat :: "mem \<Rightarrow> addr \<Rightarrow> 'w \<Rightarrow> int \<times> u64 \<times> u32 \<times> 'w"
  pread :: "int \<Rightarrow> u64 \<Rightarrow> u64 \<Rightarrow> 'w \<Rightarrow> int \<times> byte list \<times> 'w"
  getdents64 :: "int \<Rightarrow> nat \<Rightarrow> 'w \<Rightarrow> int \<times> byte list \<times> 'w"
  lseek_cur :: "int \<Rightarrow> int \<Rightarrow> 'w \<Rightarrow> 'w"

text \<open>\<open>assert\<close> is compiled in unless NODEBUG is set; a connection of 0 fails it.\<close>

definition assert_con :: "'w libc \<Rightarrow> 'w proc \<Rightarrow> unit option" where
  "assert_con L s = (if nodebug L \<or> con s \<noteq> 0 then Some () else None)"

section \<open>monitor.c and lib.c\<close>

definition monitor_connect :: "'w libc \<Rightarrow> 'w proc \<Rightarrow> int \<times> 'w proc" where
  "monitor_connect L s =
     (let (fd, w) = open_device L ''/dev/vmpl_device'' (pworld s); s = s\<lparr>con := fd, pworld := w\<rparr> in (con s, s))"

definition monitor_close :: "'w libc \<Rightarrow> 'w proc \<Rightarrow> 'w proc" where
  "monitor_close L s = s\<lparr>pworld := close L (con s) (pworld s)\<rparr>"

definition device_call :: "'w libc \<Rightarrow> monitor_call_struct \<Rightarrow> 'w proc \<Rightarrow> int \<times> 'w proc" where
  "device_call L call s = ioctl L (con s) VMPL_WR call s"

definition stat_get :: "'w libc \<Rightarrow> monitor_call_struct \<Rightarrow> 'w proc \<Rightarrow> int \<times> 'w proc" where
  "stat_get L call s = device_call L (call\<lparr>call_type := call_code get_stat\<rparr>) s"

definition stat_reset :: "'w libc \<Rightarrow> monitor_call_struct \<Rightarrow> 'w proc \<Rightarrow> int \<times> 'w proc" where
  "stat_reset L call s = device_call L (call\<lparr>call_type := call_code reset_stat\<rparr>) s"

section \<open>memory.c\<close>

definition ROUND_UP_SIZE :: "u64 \<Rightarrow> u64" where
  "ROUND_UP_SIZE x = x + 4096 - (x mod 4096)"

text \<open>
  The loops \<open>for (int i = 0; i < n; i++)\<close> over a buffer: the first index is written through NULL, and
  the counter of type int ends at \<open>2 ^ 31\<close>.
\<close>

definition int_loop :: "addr \<Rightarrow> u64 \<Rightarrow> (nat \<Rightarrow> mem \<Rightarrow> byte) \<Rightarrow> mem \<Rightarrow> mem option" where
  "int_loop buf n f m =
     (if 0 < n \<and> (buf = 0 \<or> 2 ^ 31 < unat n) then None
      else Some (fold (\<lambda>i m. m(buf + of_nat i := f i m)) [0..<unat n] m))"

definition load_file :: "'w libc \<Rightarrow> addr \<Rightarrow> 'w proc \<Rightarrow> (addr \<times> u64 \<times> 'w proc) option" where
  "load_file L path s =
     (let (file, w) = fopen_read L (pmem s) path (pworld s)
      in if file = 0 then None
         else (let (siz, w) = file_end L file w;
                   actual_size = ROUND_UP_SIZE siz;
                   (buf, w) = aligned_alloc L 4096 actual_size w
               in do {
                    m \<leftarrow> int_loop buf actual_size (\<lambda>_ _. 0) (pmem s);
                    let (bytes, w) = fread L file siz w;
                    let m = write_bytes m buf bytes;
                    (if length bytes \<noteq> unat siz then None
                     else Some (buf, actual_size, s\<lparr>pmem := m, pworld := w\<rparr>))
                  }))"

definition load_data_lib :: "'w libc \<Rightarrow> addr \<Rightarrow> 'w proc \<Rightarrow> (addr \<times> 'w proc) option" where
  "load_data_lib L inp s = do {
     n \<leftarrow> strlen (pmem s) inp;
     let siz = n + 1;
     let actual_size = ROUND_UP_SIZE siz;
     let (buf, w) = aligned_alloc L 4096 actual_size (pworld s);
     m \<leftarrow> int_loop buf siz (\<lambda>i m. m (inp + of_nat i)) (pmem s);
     let m = m(buf + siz := 0);
     Some (buf, s\<lparr>pmem := m, pworld := w\<rparr>)
   }"

definition load_data_with_len :: "'w libc \<Rightarrow> addr \<Rightarrow> u64 \<Rightarrow> 'w proc \<Rightarrow> (addr \<times> 'w proc) option" where
  "load_data_with_len L inp len s =
     (let actual_size = ROUND_UP_SIZE len;
          (buf, w) = aligned_alloc L 4096 actual_size (pworld s)
      in do {
           m \<leftarrow> int_loop buf actual_size (\<lambda>i m. m (inp + of_nat i)) (pmem s);
           Some (buf, s\<lparr>pmem := m, pworld := w\<rparr>)
         })"

definition allocate_buffer :: "'w libc \<Rightarrow> u64 \<Rightarrow> 'w proc \<Rightarrow> (addr \<times> 'w proc) option" where
  "allocate_buffer L siz s =
     (let actual_size = ROUND_UP_SIZE siz;
          (buf, w) = aligned_alloc L 4096 actual_size (pworld s)
      in if buf = 0 \<and> 0 < actual_size then None
         else Some (buf, s\<lparr>pmem := write_bytes (pmem s) buf (replicate (unat actual_size) 0), pworld := w\<rparr>))"

section \<open>zygote.c\<close>

definition allocate_zygote_struct :: "'w libc \<Rightarrow> 'w proc \<Rightarrow> (addr \<times> 'w proc) option" where
  "allocate_zygote_struct L s =
     (let (buf, w) = aligned_alloc L 4096 4096 (pworld s)
      in do {
           m \<leftarrow> int_loop buf 4096 (\<lambda>_ _. 0) (pmem s);
           Some (buf, s\<lparr>pmem := m, pworld := w\<rparr>)
         })"

text \<open>\<open>struct zygote_data\<close>: three pointers, then three sizes.\<close>

definition set_zygote_data :: "addr \<Rightarrow> nat \<Rightarrow> addr \<Rightarrow> mem \<Rightarrow> mem" where
  "set_zygote_data z i p m = store64 m (z + 8 * of_nat i) p"

definition set_zygote_size :: "addr \<Rightarrow> nat \<Rightarrow> u64 \<Rightarrow> mem \<Rightarrow> mem" where
  "set_zygote_size z i n m = store64 m (z + 24 + 8 * of_nat i) n"

definition create_zygote_lib ::
  "'w libc \<Rightarrow> monitor_call_struct \<Rightarrow> addr \<Rightarrow> addr \<Rightarrow> addr \<Rightarrow> 'w proc \<Rightarrow> (int \<times> 'w proc) option" where
  "create_zygote_lib L call pal m os s = do {
     (data, siz, s) \<leftarrow> load_file L pal s;
     (manifest, manifest_size, s) \<leftarrow> load_file L m s;
     (libos, libos_size, s) \<leftarrow> load_file L os s;
     (z, s) \<leftarrow> allocate_zygote_struct L s;
     let s = s\<lparr>pmem := set_zygote_data z 0 data (pmem s)\<rparr>;
     let s = s\<lparr>pmem := set_zygote_size z 0 siz (pmem s)\<rparr>;
     let s = s\<lparr>pmem := set_zygote_data z 1 manifest (pmem s)\<rparr>;
     let s = s\<lparr>pmem := set_zygote_size z 1 manifest_size (pmem s)\<rparr>;
     let s = s\<lparr>pmem := set_zygote_data z 2 libos (pmem s)\<rparr>;
     let s = s\<lparr>pmem := set_zygote_size z 2 libos_size (pmem s)\<rparr>;
     let call = call\<lparr>u0 := z\<rparr>;
     let call = call\<lparr>u1 := 4096\<rparr>;
     let call = call\<lparr>call_type := call_code createZygote\<rparr>;
     assert_con L s;
     Some (device_call L call s)
   }"

definition delete_zygote_lib :: "'w libc \<Rightarrow> monitor_call_struct \<Rightarrow> int \<Rightarrow> 'w proc \<Rightarrow> (int \<times> 'w proc) option" where
  "delete_zygote_lib L call zygote_id s = do {
     let call = call\<lparr>call_type := call_code deleteZygote\<rparr>;
     let call = call\<lparr>u0 := word_of_int zygote_id\<rparr>;
     assert_con L s;
     Some (device_call L call s)
   }"

section \<open>What a file is loaded as\<close>

lemma unat_ROUND_UP_SIZE:
  assumes "unat x < 2 ^ 64 - 4096"
  shows "unat (ROUND_UP_SIZE x) = (unat x div 4096 + 1) * 4096"
proof -
  have "unat (x + 4096) = unat x + 4096" using assms by (simp add: unat_add_lem [THEN iffD1])
  moreover have "unat (x mod 4096) = unat x mod 4096" by (simp add: unat_mod_distrib)
  moreover have "x mod 4096 \<le> x + 4096"
    using mod_le_divisor [of 4096 "unat x"] calculation by (simp add: word_le_nat_alt)
  ultimately have "unat (ROUND_UP_SIZE x) = unat x + 4096 - unat x mod 4096"
    by (simp add: ROUND_UP_SIZE_def unat_sub)
  also have "\<dots> = (unat x div 4096 + 1) * 4096"
    using mult_div_mod_eq [of 4096 "unat x"] by (simp add: minus_mod_eq_mult_div [symmetric] algebra_simps)
  finally show ?thesis .
qed

lemma zero_loop: "fold (\<lambda>i m. m(buf + of_nat i := c)) [0..<n] m = write_bytes m buf (replicate n c)"
proof (induction n)
  case (Suc n)
  have "replicate (Suc n) c = replicate n c @ [c]" by (simp add: replicate_append_same)
  with Suc show ?case by (simp add: write_bytes_append del: replicate.simps fun_upd_apply)
qed simp

text \<open>The beginning of a run written over.\<close>

lemma write_bytes_over:
  assumes "length xs \<le> length ys" "length ys \<le> 2 ^ 64"
  shows "write_bytes (write_bytes m p ys) p xs = write_bytes m p (xs @ drop (length xs) ys)"
proof (rule write_bytes_eqI)
  let ?zs = "xs @ drop (length xs) ys"
  show "length ?zs \<le> 2 ^ 64" using assms by simp
  show "write_bytes (write_bytes m p ys) p xs a = m a" if "\<not> in_range p (length ?zs) a" for a
    using that assms by (simp add: write_bytes_other in_range_def)
  show "read_bytes (write_bytes (write_bytes m p ys) p xs) p (length ?zs) = ?zs"
  proof (rule nth_equalityI)
    fix i assume "i < length (read_bytes (write_bytes (write_bytes m p ys) p xs) p (length ?zs))"
    then have i: "i < length ys" using assms by simp
    then have "\<not> in_range p (length xs) (p + of_nat i) \<longleftrightarrow> length xs \<le> i"
      using assms by (simp add: in_range_offset linorder_not_less)
    with i assms show "read_bytes (write_bytes (write_bytes m p ys) p xs) p (length ?zs) ! i = ?zs ! i"
      by (cases "i < length xs") (simp_all add: nth_read_bytes write_bytes_nth write_bytes_other nth_append)
  qed simp
qed

text \<open>
  A file is loaded whole or not at all.  For a file that can be opened, and shorter than the
  counter of the clearing loop allows, the buffer holds the bytes of the file and zeros up to the
  size that is reported, which is the next multiple of the page size above the length of the file
  (one page more than needed when the length is a multiple of it); if fewer bytes are read the process
  exits.  Nothing else of the memory changes.
\<close>
theorem load_file_loads:
  assumes "fopen_read L (pmem s) path (pworld s) = (file, w1)" "file \<noteq> 0" "file_end L file w1 = (siz, w2)"
    and "aligned_alloc L 4096 (ROUND_UP_SIZE siz) w2 = (buf, w3)" "buf \<noteq> 0"
    and "fread L file siz w3 = (bytes, w4)" "length bytes \<le> unat siz" "unat siz < 2 ^ 31 - 4096"
  shows "unat (ROUND_UP_SIZE siz) = (unat siz div 4096 + 1) * 4096
    \<and> load_file L path s =
        (if length bytes = unat siz
         then Some (buf, ROUND_UP_SIZE siz,
                s\<lparr>pmem := write_bytes (pmem s) buf (bytes @ replicate (unat (ROUND_UP_SIZE siz) - unat siz) 0),
                  pworld := w4\<rparr>)
         else None)"
proof -
  have r: "unat (ROUND_UP_SIZE siz) = (unat siz div 4096 + 1) * 4096"
    using assms(8) by (intro unat_ROUND_UP_SIZE) simp
  then have "unat siz \<le> unat (ROUND_UP_SIZE siz)" "unat (ROUND_UP_SIZE siz) \<le> 2 ^ 31"
    using assms(8) by auto
  then have "write_bytes (write_bytes (pmem s) buf (replicate (unat (ROUND_UP_SIZE siz)) 0)) buf bytes =
      write_bytes (pmem s) buf (bytes @ replicate (unat (ROUND_UP_SIZE siz) - unat siz) 0)"
    if "length bytes = unat siz"
    using that by (subst write_bytes_over) simp_all
  moreover have "int_loop buf (ROUND_UP_SIZE siz) (\<lambda>_ _. 0) (pmem s) =
      Some (write_bytes (pmem s) buf (replicate (unat (ROUND_UP_SIZE siz)) 0))"
    using assms(5) \<open>unat (ROUND_UP_SIZE siz) \<le> 2 ^ 31\<close> by (simp add: int_loop_def zero_loop)
  ultimately show ?thesis
    using assms(1-6) r by (simp add: load_file_def)
qed

definition file_libc :: "unit libc" where
  "file_libc =
     \<lparr>nodebug = True, aligned_alloc = \<lambda>_ _ w. (0x10000, w), malloc = \<lambda>_ w. (0, w), free = \<lambda>_ w. w,
      ioctl = \<lambda>_ _ _ s. (0, s), fopen_read = \<lambda>_ _ w. (1, w), file_end = \<lambda>_ w. (3, w),
      fread = \<lambda>_ _ w. ([7, 8, 9], w), fopen_write = \<lambda>_ w. (0, w), fputs = \<lambda>_ _ w. w, fclose = \<lambda>_ w. w,
      open_device = \<lambda>_ w. (3, w), open_file = \<lambda>_ _ w. (4, w), close = \<lambda>_ w. w, stat = \<lambda>_ _ w. (0, 3, 0, w),
      pread = \<lambda>_ _ _ w. (0, [], w), getdents64 = \<lambda>_ _ w. (0, [], w), lseek_cur = \<lambda>_ _ w. w\<rparr>"

lemma load_file_loads_witness:
  "load_file file_libc 0x100 \<lparr>pmem = \<lambda>_. 1, con = 3, attested_function_cnt = 0, pworld = ()\<rparr> =
     Some (0x10000, 4096, \<lparr>pmem = write_bytes (\<lambda>_. 1) 0x10000 ([7, 8, 9] @ replicate 4093 0), con = 3,
       attested_function_cnt = 0, pworld = ()\<rparr>)"
  using load_file_loads [of file_libc "\<lparr>pmem = \<lambda>_. 1, con = 3, attested_function_cnt = 0, pworld = ()\<rparr>" "0x100"
      1 "()" 3 "()" "0x10000" "()" "[7, 8, 9]" "()"]
  by (simp add: file_libc_def ROUND_UP_SIZE_def del: replicate.simps write_bytes.simps)

text \<open>
  The terminator that \<open>load_data\<close> writes behind the string and its own NUL is inside the block, which
  is longer than what it is rounded up from.
\<close>

lemma load_data_terminator:
  assumes "cstr_at m p str" "length str < 2 ^ 63"
  shows "\<exists>n. strlen m p = Some n \<and> unat (n + 1) < unat (ROUND_UP_SIZE (n + 1))"
proof -
  have "strlen m p = Some (of_nat (length str))" using assms(1) by (rule strlen_cstr)
  moreover have "unat (of_nat (length str) + 1 :: u64) = Suc (length str)"
    using assms(2) unat_of_nat_u64 [of "Suc (length str)"] by (simp add: add.commute)
  ultimately show ?thesis
    using assms(2) unat_ROUND_UP_SIZE [of "of_nat (length str) + 1"] by simp
qed

end
