(* ===== verification/Libwallet_Attest.thy ===== *)
theory Libwallet_Attest
  imports Libwallet
begin

text \<open>
  \<open>module/libwallet/src/attest.c\<close> and \<open>attest_microbenchmark.c\<close>: the attestation calls a process makes
  of the device, and the text dump of a report in the debug build.  Each function takes the
  uninitialised \<open>struct monitor_call call\<close> of its frame as \<open>call\<close>.
\<close>

section \<open>The report dump\<close>

definition fields :: "(string \<times> nat \<times> nat) list" where
  "fields =
    [(''VERSION'', 0x00, 4), (''GUEST_SVN'', 0x04, 4), (''POLICY'', 0x08, 8), (''FAMILY_ID'', 0x10, 16),
     (''IMAGE_ID'', 0x20, 16), (''VMPL'', 0x30, 4), (''SIGNATURE_ALGO'', 0x34, 4), (''CURRENT_TCB'', 0x38, 8),
     (''PLATFORM_INFO'', 0x40, 8), (''SIGNING_KEY'', 0x48, 1), (''MASK_CHIP_KEY'', 0x48, 1),
     (''AUTHOR_KEY_EN'', 0x48, 1), (''RESERVED'', 0x4C, 4), (''REPORT_DATA'', 0x50, 64),
     (''MEASUREMENT'', 0x90, 48), (''HOST_DATA'', 0xC0, 32), (''ID_KEY_DIGEST'', 0xE0, 48),
     (''AUTHOR_KEY_DIGEST'', 0x110, 48), (''REPORT_ID'', 0x140, 32), (''REPORT_ID_MA'', 0x160, 32),
     (''REPORTED_TCB'', 0x180, 8), (''CPUID_FAM_ID'', 0x188, 1), (''CPUID_MOD_ID'', 0x189, 1),
     (''CPUID_STEP'', 0x18A, 1), (''CHIP_ID'', 0x1A0, 64), (''COMMITTED_TCB'', 0x1E0, 8),
     (''CURRENT_BUILD'', 0x1E8, 1), (''CURRENT_MINOR'', 0x1E9, 1), (''CURRENT_MAJOR'', 0x1EA, 1),
     (''COMMITTED_BUILD'', 0x1EC, 1), (''COMMITTED_MINOR'', 0x1ED, 1), (''COMMITTED_MAJOR'', 0x1EE, 1),
     (''LAUNCH_TCB'', 0x1F0, 8), (''SIGNATURE'', 0x2A0, 512), (''INIT_MEASUREMENT'', 0x4A0, 64),
     (''RUNTIME_MEASUREMENT'', 0x4E0, 64), (''WASM_MODULE_MEASUREMENT'', 0x520, 64), (''ENV_HASH'', 0x560, 64),
     (''FUNCTION_INPUT_MEASUREMENT'', 0x5A0, 64), (''FUNCTION_OUTPUT_MEASUREMENT'', 0x5E0, 64),
     (''WALLET_SIGNATURE'', 0x620, 64)]"

definition hex_digit :: "nat \<Rightarrow> char" where
  "hex_digit n = ''0123456789ABCDEF'' ! n"

text \<open>The formats \<open>%02X\<close> of a byte, \<open>0x%02lX\<close> and \<open>%lu\<close>.\<close>

definition hex_byte :: "byte \<Rightarrow> string" where
  "hex_byte b = [hex_digit (unat b div 16), hex_digit (unat b mod 16)]"

fun hex_nat :: "nat \<Rightarrow> string" where
  "hex_nat n = (if n < 16 then [hex_digit n] else hex_nat (n div 16) @ [hex_digit (n mod 16)])"

definition hex_offset :: "nat \<Rightarrow> string" where
  "hex_offset n = (if n < 16 then ''0'' else []) @ hex_nat n"

fun dec_nat :: "nat \<Rightarrow> string" where
  "dec_nat n = (if n < 10 then [hex_digit n] else dec_nat (n div 10) @ [hex_digit (n mod 10)])"

definition newline :: string where "newline = [CHR 0x0A]"

definition print_buffer_hex :: "byte list \<Rightarrow> string" where
  "print_buffer_hex buffer =
     concat (map (\<lambda>i. hex_byte (buffer ! i) @ (if (i + 1) mod 16 = 0 then newline else [])) [0..<length buffer])
     @ (if length buffer mod 16 \<noteq> 0 then newline else [])"

definition print_attestation_report :: "mem \<Rightarrow> addr \<Rightarrow> string" where
  "print_attestation_report m att_buffer =
     concat (map (\<lambda>(name, offset, siz).
                    name @ '' (Offset: 0x'' @ hex_offset offset @ '', Size: '' @ dec_nat siz @ '' bytes):'' @ newline
                    @ print_buffer_hex (read_bytes m (att_buffer + of_nat offset) siz) @ newline) fields)"

section \<open>attest.c\<close>

datatype attest_result = Failed | Report addr | Path string

text \<open>The page for the report: NULL, or filled with zeros.\<close>

definition report_buffer :: "'w libc \<Rightarrow> 'w proc \<Rightarrow> addr \<times> 'w proc" where
  "report_buffer L s =
     (let (buf, w) = aligned_alloc L 4096 4096 (pworld s); s = s\<lparr>pworld := w\<rparr>
      in if buf = 0 then (0, s)
         else (buf, s\<lparr>pmem := fold (\<lambda>i m. m(buf + of_nat i := 0)) [0..<4096] (pmem s)\<rparr>))"

text \<open>The enum is the low half of its word; the rest is padding.\<close>

definition set_attestation_type :: "attestation_report_type \<Rightarrow> monitor_call_struct \<Rightarrow> monitor_call_struct" where
  "set_attestation_type t call =
     call\<lparr>u4 := push_bit 32 (drop_bit 32 (u4 call)) OR ucast (report_code t)\<rparr>"

text \<open>What a function hands back: the page, or in the debug build the path of the dump.\<close>

definition hand_report :: "'w libc \<Rightarrow> string \<Rightarrow> addr \<Rightarrow> 'w proc \<Rightarrow> attest_result \<times> 'w proc" where
  "hand_report L path att_buffer s =
     (if nodebug L then (Report att_buffer, s)
      else (let (file, w) = fopen_write L path (pworld s)
            in if file = 0 then (Failed, s\<lparr>pworld := w\<rparr>)
               else (let w = fputs L file (print_attestation_report (pmem s) att_buffer) w;
                         w = free L att_buffer w;
                         w = fclose L file w
                     in (Path path, s\<lparr>pworld := w\<rparr>))))"

definition attest_monitor :: "'w libc \<Rightarrow> monitor_call_struct \<Rightarrow> 'w proc \<Rightarrow> attest_result \<times> 'w proc" where
  "attest_monitor L call s =
     (let (att_buffer, s) = report_buffer L s
      in if att_buffer = 0 then (Failed, s)
         else (let call = call\<lparr>call_type := call_code attest\<rparr>;
                   call = set_attestation_type monitorAttestation call;
                   call = call\<lparr>u0 := att_buffer\<rparr>;
                   (ret, s) = ioctl L (con s) VMPL_WR call s
               in hand_report L ''monitor_attestation_report'' att_buffer s))"

definition attest_wamr_runtime :: "'w libc \<Rightarrow> monitor_call_struct \<Rightarrow> u64 \<Rightarrow> 'w proc \<Rightarrow> attest_result \<times> 'w proc" where
  "attest_wamr_runtime L call pid s =
     (let (att_buffer, s) = report_buffer L s
      in if att_buffer = 0 then (Failed, s)
         else (let call = call\<lparr>call_type := call_code attest\<rparr>;
                   call = set_attestation_type wamrRuntimeAttestation call;
                   call = call\<lparr>u1 := pid\<rparr>;
                   call = call\<lparr>u0 := att_buffer\<rparr>;
                   (ret, s) = ioctl L (con s) VMPL_WR call s
               in hand_report L ''wamr_runtime_attestation_report'' att_buffer s))"

definition attest_wasm_module ::
  "'w libc \<Rightarrow> monitor_call_struct \<Rightarrow> u64 \<Rightarrow> u64 \<Rightarrow> 'w proc \<Rightarrow> attest_result \<times> 'w proc" where
  "attest_wasm_module L call pid mid s =
     (let (att_buffer, s) = report_buffer L s
      in if att_buffer = 0 then (Failed, s)
         else (let call = call\<lparr>call_type := call_code attest\<rparr>;
                   call = set_attestation_type wasmModuleAttestation call;
                   call = call\<lparr>u1 := pid\<rparr>;
                   call = call\<lparr>u3 := mid\<rparr>;
                   call = call\<lparr>u0 := att_buffer\<rparr>;
                   (ret, s) = ioctl L (con s) VMPL_WR call s
               in hand_report L ''wasm_module_attestation_report'' att_buffer s))"

definition allocate_function_struct :: "'w libc \<Rightarrow> 'w proc \<Rightarrow> addr \<times> 'w proc" where
  "allocate_function_struct L s =
     (let (buf, w) = aligned_alloc L 4096 4096 (pworld s); s = s\<lparr>pworld := w\<rparr>
      in if buf = 0 then (0, s)
         else (buf, s\<lparr>pmem := fold (\<lambda>i m. m(buf + of_nat i := 0)) [0..<4096] (pmem s)\<rparr>))"

text \<open>
  \<open>struct _function_data\<close>, packed words at 0, 8, .., 40 (\<open>reportOutput\<close>, at 48, is never set).  Writing
  it through NULL ends the process.
\<close>

definition set_function_data :: "addr \<Rightarrow> u64 \<Rightarrow> u64 \<Rightarrow> addr \<Rightarrow> u64 \<Rightarrow> addr \<Rightarrow> u64 \<Rightarrow> mem \<Rightarrow> mem option" where
  "set_function_data p trustletId moduleId fnInput fnInputSize fnOutput fnOutputSize m =
     (if p = 0 then None
      else (let m = store64 m p trustletId; m = store64 m (p + 8) moduleId; m = store64 m (p + 24) fnInput;
                m = store64 m (p + 16) fnInputSize; m = store64 m (p + 40) fnOutput
            in Some (store64 m (p + 32) fnOutputSize)))"

text \<open>\<open>snprintf(.., 256, "%s%d", ..)\<close> of the debug build into memory that malloc may refuse.\<close>

definition execution_report_path :: "'w libc \<Rightarrow> 'w proc \<Rightarrow> (string \<times> 'w proc) option" where
  "execution_report_path L s =
     (if nodebug L then Some ([], s)
      else (let (p, w) = malloc L 256 (pworld s)
            in if p = 0 then None
               else Some (''function_attestation_report'' @ dec_nat (nat (attested_function_cnt s)),
                          s\<lparr>pworld := w, attested_function_cnt := attested_function_cnt s + 1\<rparr>)))"

definition attest_execution ::
  "'w libc \<Rightarrow> monitor_call_struct \<Rightarrow> u64 \<Rightarrow> u64 \<Rightarrow> addr \<Rightarrow> u64 \<Rightarrow> addr \<Rightarrow> u64 \<Rightarrow> 'w proc \<Rightarrow> (attest_result \<times> 'w proc) option" where
  "attest_execution L call pid mid inp input_len out output_len s =
     (let (att_buffer, s) = report_buffer L s
      in if att_buffer = 0 then Some (Failed, s)
         else (let (function_data_ptr, s) = allocate_function_struct L s
               in do {
                    m \<leftarrow> set_function_data function_data_ptr pid mid inp input_len out output_len (pmem s);
                    let s = s\<lparr>pmem := m\<rparr>;
                    let call = call\<lparr>call_type := call_code attest\<rparr>;
                    let call = set_attestation_type functionAttestation call;
                    let call = call\<lparr>u1 := pid\<rparr>;
                    let call = call\<lparr>u2 := function_data_ptr\<rparr>;
                    let call = call\<lparr>u0 := att_buffer\<rparr>;
                    let (ret, s) = ioctl L (con s) VMPL_WR call s;
                    (path, s) \<leftarrow> execution_report_path L s;
                    Some (hand_report L path att_buffer s)
                  }))"

section \<open>The microbenchmark calls\<close>

text \<open>The measured calls: the report goes into a page that is freed again.\<close>

definition measured_call :: "'w libc \<Rightarrow> (addr \<Rightarrow> monitor_call_struct) \<Rightarrow> 'w proc \<Rightarrow> 'w proc" where
  "measured_call L call s =
     (let (att_buffer, s) = report_buffer L s
      in if att_buffer = 0 then s
         else (let (ret, s) = ioctl L (con s) VMPL_WR (call att_buffer) s
               in s\<lparr>pworld := free L att_buffer (pworld s)\<rparr>))"

definition measure_monitor_cold :: "'w libc \<Rightarrow> monitor_call_struct \<Rightarrow> 'w proc \<Rightarrow> 'w proc" where
  "measure_monitor_cold L call s =
     measured_call L (\<lambda>b. (set_attestation_type monitorAttestationCold (call\<lparr>call_type := call_code attest\<rparr>))\<lparr>u0 := b\<rparr>) s"

definition measure_monitor_hot :: "'w libc \<Rightarrow> monitor_call_struct \<Rightarrow> 'w proc \<Rightarrow> 'w proc" where
  "measure_monitor_hot L call s =
     measured_call L (\<lambda>b. (set_attestation_type monitorAttestation (call\<lparr>call_type := call_code attest\<rparr>))\<lparr>u0 := b\<rparr>) s"

definition prepare_measure_wamr_runtime_cold ::
  "'w libc \<Rightarrow> monitor_call_struct \<Rightarrow> u64 \<Rightarrow> 'w proc \<Rightarrow> 'w proc" where
  "prepare_measure_wamr_runtime_cold L call pid s =
     (let call = call\<lparr>call_type := call_code attest\<rparr>;
          call = set_attestation_type prepareWamrRuntimeAttestationCold call;
          call = call\<lparr>u1 := pid\<rparr>;
          (ret, s) = ioctl L (con s) VMPL_WR call s
      in s)"

definition measure_wamr_runtime_cold :: "'w libc \<Rightarrow> monitor_call_struct \<Rightarrow> u64 \<Rightarrow> 'w proc \<Rightarrow> 'w proc" where
  "measure_wamr_runtime_cold L call pid s =
     measured_call L (\<lambda>b. (set_attestation_type wamrRuntimeAttestationCold (call\<lparr>call_type := call_code attest\<rparr>))
       \<lparr>u1 := pid, u0 := b\<rparr>) s"

definition measure_wamr_runtime_hot :: "'w libc \<Rightarrow> monitor_call_struct \<Rightarrow> u64 \<Rightarrow> 'w proc \<Rightarrow> 'w proc" where
  "measure_wamr_runtime_hot L call pid s =
     measured_call L (\<lambda>b. (set_attestation_type wamrRuntimeAttestation (call\<lparr>call_type := call_code attest\<rparr>))
       \<lparr>u1 := pid, u0 := b\<rparr>) s"

definition measure_wasm_module_cold :: "'w libc \<Rightarrow> monitor_call_struct \<Rightarrow> u64 \<Rightarrow> u64 \<Rightarrow> 'w proc \<Rightarrow> 'w proc" where
  "measure_wasm_module_cold L call pid mid s =
     measured_call L (\<lambda>b. (set_attestation_type wasmModuleAttestationCold (call\<lparr>call_type := call_code attest\<rparr>))
       \<lparr>u1 := pid, u3 := mid, u0 := b\<rparr>) s"

definition measure_wasm_module_hot :: "'w libc \<Rightarrow> monitor_call_struct \<Rightarrow> u64 \<Rightarrow> u64 \<Rightarrow> 'w proc \<Rightarrow> 'w proc" where
  "measure_wasm_module_hot L call pid mid s =
     measured_call L (\<lambda>b. (set_attestation_type wasmModuleAttestation (call\<lparr>call_type := call_code attest\<rparr>))
       \<lparr>u1 := pid, u3 := mid, u0 := b\<rparr>) s"

definition measure_function ::
  "'w libc \<Rightarrow> monitor_call_struct \<Rightarrow> u64 \<Rightarrow> u64 \<Rightarrow> addr \<Rightarrow> u64 \<Rightarrow> addr \<Rightarrow> u64 \<Rightarrow> 'w proc \<Rightarrow> 'w proc option" where
  "measure_function L call pid mid inp input_len out output_len s =
     (let (att_buffer, s) = report_buffer L s
      in if att_buffer = 0 then Some s
         else (let (function_data_ptr, s) = allocate_function_struct L s
               in do {
                    m \<leftarrow> set_function_data function_data_ptr pid mid inp input_len out output_len (pmem s);
                    let s = s\<lparr>pmem := m\<rparr>;
                    let call = call\<lparr>call_type := call_code attest\<rparr>;
                    let call = set_attestation_type functionAttestation call;
                    let call = call\<lparr>u1 := pid\<rparr>;
                    let call = call\<lparr>u2 := function_data_ptr\<rparr>;
                    let call = call\<lparr>u0 := att_buffer\<rparr>;
                    let (ret, s) = ioctl L (con s) VMPL_WR call s;
                    let w = free L att_buffer (pworld s);
                    Some (s\<lparr>pworld := free L function_data_ptr w\<rparr>)
                  }))"

section \<open>The dump keeps the report\<close>

definition hex_value :: "char \<Rightarrow> nat" where
  "hex_value c = (if of_char c < (58 :: nat) then of_char c - 48 else of_char c - 55)"

fun hex_decode :: "string \<Rightarrow> byte list" where
  "hex_decode (a # b # s) = of_nat (16 * hex_value a + hex_value b) # hex_decode s"
| "hex_decode _ = []"

lemma hex_digit_value: "n < 16 \<Longrightarrow> hex_value (hex_digit n) = n \<and> hex_digit n \<noteq> CHR 0x0A"
  by (simp add: less_Suc_eq numeral_eq_Suc hex_digit_def hex_value_def) (elim disjE; simp)

lemma hex_byte_decode: "hex_decode (hex_byte b @ s) = b # hex_decode s"
  using hex_digit_value [of "unat b div 16"] hex_digit_value [of "unat b mod 16"] unsigned_less [of b, where 'a = nat]
  by (simp add: hex_byte_def)

lemma hex_byte_no_newline: "filter (\<lambda>c. c \<noteq> CHR 0x0A) (hex_byte b) = hex_byte b"
  using hex_digit_value [of "unat b div 16"] hex_digit_value [of "unat b mod 16"] unsigned_less [of b, where 'a = nat]
  by (simp add: hex_byte_def)

lemma print_buffer_hex_stripped:
  "filter (\<lambda>c. c \<noteq> CHR 0x0A) (print_buffer_hex bs) = concat (map hex_byte bs)"
proof -
  have "map (filter (\<lambda>c. c \<noteq> CHR 0x0A)) (map (\<lambda>i. hex_byte (bs ! i) @ (if (i + 1) mod 16 = 0 then newline else []))
      [0..<length bs]) = map (\<lambda>i. hex_byte (bs ! i)) [0..<length bs]"
    by (simp add: hex_byte_no_newline newline_def)
  also have "\<dots> = map hex_byte bs" by (rule nth_equalityI) simp_all
  finally show ?thesis by (simp add: print_buffer_hex_def filter_concat newline_def)
qed

lemma hex_decode_bytes: "hex_decode (concat (map hex_byte bs)) = bs"
  by (induction bs) (simp_all add: hex_byte_decode)

text \<open>
  The dump of a report stays inside the page and loses nothing: every field of the table ends
  within the 4096 bytes of the buffer, and its digits, with the line breaks taken out, read back as
  pairs are the bytes of the field.
\<close>
theorem report_dump_roundtrip:
  "list_all (\<lambda>(name, offset, siz). offset + siz \<le> 4096
       \<and> hex_decode (filter (\<lambda>c. c \<noteq> CHR 0x0A) (print_buffer_hex (read_bytes m (att_buffer + of_nat offset) siz)))
           = read_bytes m (att_buffer + of_nat offset) siz) fields"
  by (simp only: print_buffer_hex_stripped hex_decode_bytes fields_def) simp

section \<open>The library over the device\<close>

text \<open>
  \<open>struct monitor_call\<close> in the memory the module copies from, the value of the C library's ioctl for
  what the module returns, and the call of the module for an ioctl of the library.
\<close>

definition store_monitor_call :: "monitor_call_struct \<Rightarrow> byte list" where
  "store_monitor_call mc =
     le_bytes 4 (call_type mc) @ replicate 4 0 @ le_bytes 8 (u0 mc) @ le_bytes 8 (u1 mc) @ le_bytes 8 (u2 mc)
     @ le_bytes 8 (u3 mc) @ le_bytes 8 (u4 mc)"

definition ioctl_value :: "int \<Rightarrow> int" where
  "ioctl_value r = (if - 4095 \<le> r \<and> r < 0 then - 1 else sint (word_of_int r :: u32))"

definition device_ioctl ::
  "('w proc, 'e) kernel \<Rightarrow> svsm_call \<Rightarrow> int \<Rightarrow> u32 \<Rightarrow> monitor_call_struct \<Rightarrow> 'w proc \<Rightarrow> int \<times> 'w proc" where
  "device_ioctl k frame fd cmd mc s =
     (let (r, s) = vmpl_ioctl (k\<lparr>copy_from_user := \<lambda>_ _ n. Some (take n (store_monitor_call mc))\<rparr>) frame cmd 0 s
      in (ioctl_value r, s))"

lemma load_store_monitor_call: "load_monitor_call (take monitor_call_size (store_monitor_call mc)) = mc"
  by (simp add: load_monitor_call_def store_monitor_call_def monitor_call_size_def le_word_le_bytes take_bit_full
      del: le_bytes.simps)

lemma pagewalk_copy: "pagewalk (k\<lparr>copy_from_user := f\<rparr>) s a = pagewalk k s a"
  by (simp add: pagewalk_def Let_def)

lemma request_call_copy: "request_call (k\<lparr>copy_from_user := f\<rparr>) s frame t mc = request_call k s frame t mc"
  by (cases t) (simp_all add: request_call_def pagewalk_copy get_pgd_phys_def Let_def)

lemma serve_request_copy: "serve_request (k\<lparr>copy_from_user := f\<rparr>) frame mc s = serve_request k frame mc s"
  by (simp add: serve_request_def request_call_copy split: option.splits)

lemma device_ioctl_serves:
  "device_ioctl k frame fd VMPL_WR mc s = (let (r, s) = serve_request k frame mc s in (ioctl_value r, s))"
  by (simp add: device_ioctl_def vmpl_ioctl_def parse_request_serves serve_request_copy load_store_monitor_call)

lemma attestation_type_set: "ucast (u4 (set_attestation_type t call)) = report_code t"
  by (rule bit_word_eqI) (auto simp: set_attestation_type_def bit_simps)

lemma set_attestation_type_others [simp]:
  "call_type (set_attestation_type t call) = call_type call" "u0 (set_attestation_type t call) = u0 call"
  "u1 (set_attestation_type t call) = u1 call" "u2 (set_attestation_type t call) = u2 call"
  "u3 (set_attestation_type t call) = u3 call"
  by (simp_all add: set_attestation_type_def)

text \<open>The registers of an attestation through the device.\<close>

definition attest_regs ::
  "('w proc, 'e) kernel \<Rightarrow> svsm_call \<Rightarrow> 'w proc \<Rightarrow> attestation_report_type \<Rightarrow> addr \<Rightarrow> svsm_call" where
  "attest_regs k frame s t buf =
     frame\<lparr>c_rax := 10 * 2 ^ 32 + 2, c_rcx := pagewalk k s buf, c_rdx := ucast (report_code t)\<rparr>"

lemma device_attestation:
  assumes "call_type mc = call_code attest" "ucast (u4 mc) = report_code t"
  shows "device_ioctl k frame fd VMPL_WR mc s =
     (let c = attest_regs k frame s t (u0 mc);
          (res, out, s) = do_svsm_protocol k
             (case t of monitorAttestation \<Rightarrow> c | monitorAttestationCold \<Rightarrow> c
              | wasmModuleAttestation \<Rightarrow> c\<lparr>c_r8 := u1 mc, c_r9 := u3 mc\<rparr>
              | wasmModuleAttestationCold \<Rightarrow> c\<lparr>c_r8 := u1 mc, c_r9 := u3 mc\<rparr>
              | functionAttestation \<Rightarrow> c\<lparr>c_r8 := get_pgd_phys k s, c_r9 := u2 mc\<rparr>
              | _ \<Rightarrow> c\<lparr>c_r8 := u1 mc\<rparr>) s
      in (ioctl_value (request_reply attest res out), s))"
  unfolding device_ioctl_serves serve_request_def assms(1) call_type_of_code
  by (cases t) (simp_all add: request_call_def assms(2) attest_regs_def Let_def case_prod_unfold)

text \<open>
  What the library relies on: a device that turns a request for an attestation into one call of the
  monitor, whose registers hold the page of the report, the kind, and what the kind names.  \<open>regs\<close> are
  the registers that all kinds have, \<open>root\<close> is the page table root of the caller.
\<close>

locale attestation_device =
  fixes dev :: "int \<Rightarrow> u32 \<Rightarrow> monitor_call_struct \<Rightarrow> 'w proc \<Rightarrow> int \<times> 'w proc"
    and monitor :: "svsm_call \<Rightarrow> 'w proc \<Rightarrow> int \<times> svsm_call \<times> 'w proc"
    and regs :: "'w proc \<Rightarrow> attestation_report_type \<Rightarrow> addr \<Rightarrow> svsm_call"
    and root :: "'w proc \<Rightarrow> u64"
  assumes attests:
    "call_type mc = call_code attest \<Longrightarrow> ucast (u4 mc) = report_code t \<Longrightarrow>
      dev fd VMPL_WR mc s =
       (let c = regs s t (u0 mc);
            (res, out, s) = monitor
               (case t of monitorAttestation \<Rightarrow> c | monitorAttestationCold \<Rightarrow> c
                | wasmModuleAttestation \<Rightarrow> c\<lparr>c_r8 := u1 mc, c_r9 := u3 mc\<rparr>
                | wasmModuleAttestationCold \<Rightarrow> c\<lparr>c_r8 := u1 mc, c_r9 := u3 mc\<rparr>
                | functionAttestation \<Rightarrow> c\<lparr>c_r8 := root s, c_r9 := u2 mc\<rparr>
                | _ \<Rightarrow> c\<lparr>c_r8 := u1 mc\<rparr>) s
        in (ioctl_value (request_reply attest res out), s))"
begin

lemma asks_monitor:
  assumes "ioctl L = dev" "report_buffer L s = (b, s1)" "b \<noteq> 0"
  shows "attest_monitor L call s =
      (let (_, _, s2) = monitor (regs s1 monitorAttestation b) s1
       in hand_report L ''monitor_attestation_report'' b s2)"
  using assms by (simp add: attest_monitor_def attests [where t = monitorAttestation] attestation_type_set Let_def
      case_prod_unfold)

lemma asks_runtime:
  assumes "ioctl L = dev" "report_buffer L s = (b, s1)" "b \<noteq> 0"
  shows "attest_wamr_runtime L call pid s =
      (let (_, _, s2) = monitor ((regs s1 wamrRuntimeAttestation b)\<lparr>c_r8 := pid\<rparr>) s1
       in hand_report L ''wamr_runtime_attestation_report'' b s2)"
  using assms by (simp add: attest_wamr_runtime_def attests [where t = wamrRuntimeAttestation] attestation_type_set
      Let_def case_prod_unfold)

lemma asks_module:
  assumes "ioctl L = dev" "report_buffer L s = (b, s1)" "b \<noteq> 0"
  shows "attest_wasm_module L call pid mid s =
      (let (_, _, s2) = monitor ((regs s1 wasmModuleAttestation b)\<lparr>c_r8 := pid, c_r9 := mid\<rparr>) s1
       in hand_report L ''wasm_module_attestation_report'' b s2)"
  using assms by (simp add: attest_wasm_module_def attests [where t = wasmModuleAttestation] attestation_type_set
      Let_def case_prod_unfold)

lemma asks_execution:
  assumes "ioctl L = dev" "report_buffer L s = (b, s1)" "b \<noteq> 0" "allocate_function_struct L s1 = (f, s2)"
    and "set_function_data f pid mid inp inlen out outlen (pmem s2) = Some m"
  shows "attest_execution L call pid mid inp inlen out outlen s =
     (let s3 = s2\<lparr>pmem := m\<rparr>;
          (_, _, s4) = monitor ((regs s3 functionAttestation b)\<lparr>c_r8 := root s3, c_r9 := f\<rparr>) s3
      in map_option (\<lambda>(path, s). hand_report L path b s) (execution_report_path L s4))"
  using assms by (simp add: attest_execution_def attests [where t = functionAttestation] attestation_type_set Let_def
      case_prod_unfold map_conv_bind_option comp_def)

end

interpretation module: attestation_device
  "device_ioctl k frame" "do_svsm_protocol k" "attest_regs k frame" "get_pgd_phys k"
  by unfold_locales (rule device_attestation)

text \<open>
  C20  The library asks the monitor for what its caller named.  Over the module's device, and with a
  page for the report, each of the three calls makes one call of the monitor: its page as the place
  of the report, the kind of the attestation, and the process and the module in r8 and r9.  What the
  monitor answers is not looked at: the page is handed back in any case.
\<close>
theorem attestation_requests:
  assumes "ioctl L = device_ioctl k frame" "report_buffer L s = (b, s1)" "b \<noteq> 0"
  shows "attest_monitor L call s =
      (let (_, _, s2) = do_svsm_protocol k (attest_regs k frame s1 monitorAttestation b) s1
       in hand_report L ''monitor_attestation_report'' b s2)
    \<and> attest_wamr_runtime L call pid s =
      (let (_, _, s2) = do_svsm_protocol k ((attest_regs k frame s1 wamrRuntimeAttestation b)\<lparr>c_r8 := pid\<rparr>) s1
       in hand_report L ''wamr_runtime_attestation_report'' b s2)
    \<and> attest_wasm_module L call pid mid s =
      (let (_, _, s2) = do_svsm_protocol k
              ((attest_regs k frame s1 wasmModuleAttestation b)\<lparr>c_r8 := pid, c_r9 := mid\<rparr>) s1
       in hand_report L ''wasm_module_attestation_report'' b s2)"
  using module.asks_monitor [OF assms] module.asks_runtime [OF assms] module.asks_module [OF assms] by blast

section \<open>The attestation of an execution\<close>

lemma load64_zeros:
  assumes "i + 8 \<le> n" "n \<le> 2 ^ 64"
  shows "load64 (write_bytes m p (replicate n 0)) (p + of_nat i) = 0"
proof -
  have "read_bytes (write_bytes m p (replicate n 0)) (p + of_nat i) 8 = replicate 8 0"
  proof (rule nth_equalityI)
    fix j assume j: "j < length (read_bytes (write_bytes m p (replicate n 0)) (p + of_nat i) 8)"
    then have "p + of_nat i + of_nat j = p + of_nat (i + j)" "i + j < n" using assms(1) by (simp_all add: add.assoc)
    with assms(2) show "read_bytes (write_bytes m p (replicate n 0)) (p + of_nat i) 8 ! j = replicate 8 0 ! j"
      using write_bytes_nth [of "replicate n 0" "i + j" m p] j
      by (simp add: nth_read_bytes add.assoc)
  qed simp
  then show ?thesis by (simp add: load64_def numeral_eq_Suc)
qed

lemma allocate_function_struct_zero:
  assumes "allocate_function_struct L s = (f, s')" "f \<noteq> 0"
  shows "load64 (pmem s') (f + 48) = 0"
  using assms load64_zeros [of 48 4096 "pmem s" f]
  by (auto simp: allocate_function_struct_def zero_loop Let_def case_prod_unfold split: if_splits)

lemma set_function_data_words:
  assumes "f \<noteq> 0"
  obtains m' where "set_function_data f tid mid inp n out k m = Some m'"
    "map (\<lambda>i. load64 m' (f + i)) [0, 8, 16, 24, 32, 40, 48] = [tid, mid, n, inp, k, out, load64 m (f + 48)]"
    "\<And>a. \<not> in_range f 48 a \<Longrightarrow> m' a = m a"
proof -
  let ?m = "store64 (store64 (store64 (store64 (store64 (store64 m f tid) (f + 8) mid) (f + 24) inp) (f + 16) n)
              (f + 40) out) (f + 32) k"
  have sep: "separate (f + a) 8 (f + b) 8" if "8 \<le> unat (b - a)" "8 \<le> unat (a - b)" for a b :: u64
    using that by (simp add: separate_def)
  have sep0: "separate f 8 (f + b) 8" "separate (f + b) 8 f 8" if "8 \<le> unat b" "8 \<le> unat (- b)" for b :: u64
    using sep [of 0 b] sep [of b 0] that by simp_all
  show ?thesis
  proof (rule that)
    show "set_function_data f tid mid inp n out k m = Some ?m"
      using assms by (simp add: set_function_data_def Let_def)
    show "map (\<lambda>i. load64 ?m (f + i)) [0, 8, 16, 24, 32, 40, 48] = [tid, mid, n, inp, k, out, load64 m (f + 48)]"
      by (simp add: load64_store64_separate sep sep0)
    show "?m a = m a" if "\<not> in_range f 48 a" for a
    proof -
      have "\<not> in_range (f + of_nat i) 8 a" if "i + 8 \<le> 48" for i
        using in_range_within [OF that, of f a] \<open>\<not> in_range f 48 a\<close> by blast
      from this [of 0] this [of 8] this [of 16] this [of 24] this [of 32] this [of 40] show ?thesis
        by (simp add: store64_other)
    qed
  qed
qed

text \<open>
  C22  An attestation of an execution binds the process, the module, the input and the output the
  caller gives.  When both pages are there, the one call of the monitor has the page table root of
  the caller in r8 and in r9 a structure in its memory, whose seven words are the two ids, size and
  address of the input, size and address of the output, and zero for the report; nothing else of the
  memory has changed.  The result of the call is not looked at.
\<close>
theorem execution_attestation_binds:
  assumes "ioctl L = device_ioctl k frame" "report_buffer L s = (b, s1)" "b \<noteq> 0"
    and "allocate_function_struct L s1 = (f, s2)" "f \<noteq> 0"
  shows "\<exists>m. map (\<lambda>i. load64 m (f + i)) [0, 8, 16, 24, 32, 40, 48] = [pid, mid, inlen, inp, outlen, out, 0]
      \<and> (\<forall>a. \<not> in_range f 48 a \<longrightarrow> m a = pmem s2 a)
      \<and> attest_execution L call pid mid inp inlen out outlen s =
         (let s3 = s2\<lparr>pmem := m\<rparr>;
              (_, _, s4) = do_svsm_protocol k ((attest_regs k frame s3 functionAttestation b)
                             \<lparr>c_r8 := get_pgd_phys k s3, c_r9 := f\<rparr>) s3
          in map_option (\<lambda>(path, s). hand_report L path b s) (execution_report_path L s4))"
proof -
  obtain m where m: "set_function_data f pid mid inp inlen out outlen (pmem s2) = Some m"
    "map (\<lambda>i. load64 m (f + i)) [0, 8, 16, 24, 32, 40, 48] =
       [pid, mid, inlen, inp, outlen, out, load64 (pmem s2) (f + 48)]"
    "\<And>a. \<not> in_range f 48 a \<Longrightarrow> m a = pmem s2 a"
    using set_function_data_words [OF assms(5)] by blast
  note module.asks_execution [OF assms(1-4) m(1)]
  with m allocate_function_struct_zero [OF assms(4,5)] show ?thesis by auto
qed

section \<open>Examples\<close>

text \<open>
  A library over a device whose monitor keeps a list of the calls it gets: blocks are cut from the
  address in the world, and pages are mapped to themselves.
\<close>

definition demo_monitor :: "((addr \<times> svsm_call list) proc, u64) kernel" where
  "demo_monitor =
     \<lparr>do_svsm_protocol = \<lambda>c s. (1, c, s\<lparr>pworld := (fst (pworld s), c # snd (pworld s))\<rparr>),
      copy_from_user = \<lambda>_ _ _. None, pgd_offset = \<lambda>_ a. a AND NOT 0xFFF, p4d_offset = \<lambda>_ e _. e,
      pud_offset = \<lambda>_ e _. e, pmd_offset = \<lambda>_ e _. e, pte_offset_kernel = \<lambda>_ e _. e,
      entry_none = \<lambda>_. False, entry_bad = \<lambda>_. False, page_to_phys = \<lambda>e. e, pgd_phys = \<lambda>_. 0x7000\<rparr>"

definition zero_call :: svsm_call where
  "zero_call = \<lparr>c_rax = 0, c_rcx = 0, c_rdx = 0, c_r8 = 0, c_r9 = 0\<rparr>"

definition zero_request :: monitor_call_struct where
  "zero_request = \<lparr>call_type = 0, u0 = 0, u1 = 0, u2 = 0, u3 = 0, u4 = 0\<rparr>"

definition demo_libc :: "(addr \<times> svsm_call list) libc" where
  "demo_libc =
     \<lparr>nodebug = True, aligned_alloc = \<lambda>_ n w. (fst w, (fst w + n, snd w)), malloc = \<lambda>_ w. (0, w), free = \<lambda>_ w. w,
      ioctl = device_ioctl demo_monitor zero_call, fopen_read = \<lambda>_ _ w. (1, w), file_end = \<lambda>_ w. (3, w),
      fread = \<lambda>_ _ w. ([7, 8, 9], w), fopen_write = \<lambda>_ w. (0, w), fputs = \<lambda>_ _ w. w, fclose = \<lambda>_ w. w,
      open_device = \<lambda>_ w. (3, w), open_file = \<lambda>_ _ w. (4, w), close = \<lambda>_ w. w, stat = \<lambda>_ _ w. (0, 3, 0, w),
      pread = \<lambda>_ n _ w. (3, [7, 8, 9], w), getdents64 = \<lambda>_ _ w. (0, [], w), lseek_cur = \<lambda>_ _ w. w\<rparr>"

definition demo_proc :: "(addr \<times> svsm_call list) proc" where
  "demo_proc = \<lparr>pmem = \<lambda>_. 0, con = 3, attested_function_cnt = 0, pworld = (0x10000, [])\<rparr>"

lemma demo_pagewalk: "pagewalk demo_monitor s a = a AND NOT 0xFFF"
  by (simp add: pagewalk_def demo_monitor_def)

lemma demo_calls:
  "do_svsm_protocol demo_monitor c s = (1, c, s\<lparr>pworld := (fst (pworld s), c # snd (pworld s))\<rparr>)"
  "get_pgd_phys demo_monitor s = 0x7000" "nodebug demo_libc"
  by (simp_all add: demo_monitor_def get_pgd_phys_def demo_libc_def)

lemma demo_report_buffer:
  "\<exists>m. report_buffer demo_libc demo_proc = (0x10000, demo_proc\<lparr>pmem := m, pworld := (0x11000, [])\<rparr>)"
  by (simp add: report_buffer_def demo_libc_def demo_proc_def)

lemma demo_function_struct:
  "\<exists>m'. allocate_function_struct demo_libc (demo_proc\<lparr>pmem := m, pworld := (0x11000, [])\<rparr>) =
     (0x11000, demo_proc\<lparr>pmem := m', pworld := (0x12000, [])\<rparr>)"
  by (simp add: allocate_function_struct_def demo_libc_def demo_proc_def)

lemma attestation_requests_witness:
  "snd (pworld (snd (attest_wasm_module demo_libc zero_request 5 6 demo_proc))) =
     [\<lparr>c_rax = 0xA00000002, c_rcx = 0x10000, c_rdx = 2, c_r8 = 5, c_r9 = 6\<rparr>]
   \<and> fst (attest_wasm_module demo_libc zero_request 5 6 demo_proc) = Report 0x10000"
proof -
  obtain m where b: "report_buffer demo_libc demo_proc = (0x10000, demo_proc\<lparr>pmem := m, pworld := (0x11000, [])\<rparr>)"
    using demo_report_buffer by blast
  have i: "ioctl demo_libc = device_ioctl demo_monitor zero_call" by (simp add: demo_libc_def)
  show ?thesis
    using attestation_requests [OF i b, of zero_request 5 6]
    by (simp add: demo_pagewalk demo_calls attest_regs_def hand_report_def zero_call_def Let_def)
qed

lemma execution_attestation_binds_witness:
  "\<exists>m s4. map (\<lambda>i. load64 m (0x11000 + i)) [0, 8, 16, 24, 32, 40, 48] = [5, 6, 10, 0x100, 20, 0x200, 0]
     \<and> attest_execution demo_libc zero_request 5 6 0x100 10 0x200 20 demo_proc = Some (Report 0x10000, s4)
     \<and> snd (pworld s4) = [\<lparr>c_rax = 0xA00000002, c_rcx = 0x10000, c_rdx = 3, c_r8 = 0x7000, c_r9 = 0x11000\<rparr>]"
proof -
  obtain m where b: "report_buffer demo_libc demo_proc = (0x10000, demo_proc\<lparr>pmem := m, pworld := (0x11000, [])\<rparr>)"
    using demo_report_buffer by blast
  obtain m' where f: "allocate_function_struct demo_libc (demo_proc\<lparr>pmem := m, pworld := (0x11000, [])\<rparr>) =
     (0x11000, demo_proc\<lparr>pmem := m', pworld := (0x12000, [])\<rparr>)"
    using demo_function_struct by blast
  have i: "ioctl demo_libc = device_ioctl demo_monitor zero_call" by (simp add: demo_libc_def)
  have "0x10000 \<noteq> (0 :: addr)" "0x11000 \<noteq> (0 :: addr)" by simp_all
  from execution_attestation_binds [OF i b this(1) f this(2), of 5 6 10 "0x100" 20 "0x200" zero_request]
  obtain m3 where "map (\<lambda>i. load64 m3 (0x11000 + i)) [0, 8, 16, 24, 32, 40, 48] = [5, 6, 10, 0x100, 20, 0x200, 0]"
    "attest_execution demo_libc zero_request 5 6 0x100 10 0x200 20 demo_proc =
       (let s3 = demo_proc\<lparr>pmem := m', pworld := (0x12000, [])\<rparr>\<lparr>pmem := m3\<rparr>;
            (_, _, s4) = do_svsm_protocol demo_monitor ((attest_regs demo_monitor zero_call s3 functionAttestation 0x10000)
                             \<lparr>c_r8 := get_pgd_phys demo_monitor s3, c_r9 := 0x11000\<rparr>) s3
        in map_option (\<lambda>(path, s). hand_report demo_libc path 0x10000 s) (execution_report_path demo_libc s4))"
    by (elim exE conjE)
  then show ?thesis
    by (simp add: demo_pagewalk demo_calls attest_regs_def hand_report_def zero_call_def execution_report_path_def
        Let_def) blast
qed

end
