(* ===== verification/Libwallet_Trustlet.thy ===== *)
theory Libwallet_Trustlet
  imports Libwallet
begin

text \<open>
  \<open>module/libwallet/src/trustlet.c\<close>: creating and deleting trustlets and channels, and the invocation
  of a trustlet, which calls the monitor again and again while the guest asks for files.
\<close>

section \<open>The structures\<close>

text \<open>
  \<open>struct trustlet_invokation\<close>, 56 bytes: the type at 0, then pointer and size of the argument, of the
  result and of the guest's request.  \<open>struct guest_request_args\<close>, 1048 bytes, is a union; the
  offsets of its members are those of the definitions below.
\<close>

definition trustlet_invokation_size :: u64 where "trustlet_invokation_size = 56"
definition guest_request_args_size :: u64 where "guest_request_args_size = 1048"

definition set_invokation_type :: "addr \<Rightarrow> u64 \<Rightarrow> 'w proc \<Rightarrow> 'w proc" where
  "set_invokation_type d t s = s\<lparr>pmem := store64 (pmem s) d t\<rparr>"

section \<open>Creating and deleting\<close>

definition create_trustlet_lib ::
  "'w libc \<Rightarrow> monitor_call_struct \<Rightarrow> int \<Rightarrow> addr \<Rightarrow> 'w proc \<Rightarrow> (int \<times> 'w proc) option" where
  "create_trustlet_lib L call zygote_id func s = do {
     assert_con L s;
     siz \<leftarrow> (if func = 0 then None else strlen (pmem s) func);
     (out, s) \<leftarrow> (if func \<noteq> 0 then load_data_lib L func s else Some (0, s));
     let call = call\<lparr>call_type := call_code createTrustlet\<rparr>;
     let call = call\<lparr>u2 := word_of_int zygote_id\<rparr>;
     let call = call\<lparr>u0 := out\<rparr>;
     let call = call\<lparr>u1 := siz\<rparr>;
     Some (device_call L call s)
   }"

definition create_channel_lib :: "'w libc \<Rightarrow> monitor_call_struct \<Rightarrow> int \<Rightarrow> int \<Rightarrow> 'w proc \<Rightarrow> 'w proc option" where
  "create_channel_lib L call trustlet_id1 trustlet_id2 s = do {
     assert_con L s;
     let call = call\<lparr>call_type := call_code createChannel\<rparr>;
     let call = call\<lparr>u0 := word_of_int trustlet_id1\<rparr>;
     let call = call\<lparr>u1 := word_of_int trustlet_id2\<rparr>;
     Some (snd (device_call L call s))
   }"

definition delete_trustlet_lib :: "'w libc \<Rightarrow> monitor_call_struct \<Rightarrow> int \<Rightarrow> 'w proc \<Rightarrow> (int \<times> 'w proc) option" where
  "delete_trustlet_lib L call trustlet_id s = do {
     let call = call\<lparr>call_type := call_code deleteTrustlet\<rparr>;
     let call = call\<lparr>u0 := word_of_int trustlet_id\<rparr>;
     assert_con L s;
     Some (device_call L call s)
   }"

section \<open>Directories\<close>

text \<open>
  \<open>struct linux_dirent64\<close> at an offset of the buffer that getdents64 has filled: the length of the
  record, the type of the file and its name.  A name without a NUL in the buffer is read past its end.
\<close>

definition d_reclen :: "byte list \<Rightarrow> nat \<Rightarrow> nat" where
  "d_reclen db ptr = unat (db ! (ptr + 16)) + 256 * unat (db ! (ptr + 17))"

definition d_type :: "byte list \<Rightarrow> nat \<Rightarrow> byte" where "d_type db ptr = db ! (ptr + 18)"

definition d_name :: "byte list \<Rightarrow> nat \<Rightarrow> byte list option" where
  "d_name db ptr = (if 0 \<in> set (drop (ptr + 19) db) then Some (takeWhile (\<lambda>c. c \<noteq> 0) (drop (ptr + 19) db)) else None)"

definition DT_DIR :: byte where "DT_DIR = 4"

definition is_dot_or_dotdot :: "byte list \<Rightarrow> bool" where
  "is_dot_or_dotdot name \<longleftrightarrow>
     (let at = (\<lambda>i. if i < length name then name ! i else 0)
      in at 0 = ch CHR ''.'' \<and> (at 1 = 0 \<or> (at 1 = ch CHR ''.'' \<and> at 2 = 0)))"

text \<open>The walk over the records: what is left of the buffer and of the room for names.\<close>

partial_function (option) read_dir_loop ::
  "'w libc \<Rightarrow> int \<Rightarrow> byte list \<Rightarrow> nat \<Rightarrow> int \<Rightarrow> addr \<Rightarrow> int \<Rightarrow> nat \<Rightarrow> 'w proc \<Rightarrow> (int \<times> 'w proc) option" where
  "read_dir_loop L fd db ptr remaining buf nread count s =
     (if remaining \<le> 0 then Some (nread, s)
      else (case d_name db ptr of
              None \<Rightarrow> None
            | Some name \<Rightarrow>
                if is_dot_or_dotdot name
                then read_dir_loop L fd db (ptr + d_reclen db ptr) (remaining - int (d_reclen db ptr)) buf nread count s
                else (let is_dir = (d_type db ptr = DT_DIR); len = length name
                      in if count < len + 1 + (if is_dir then 1 else 0)
                         then Some (nread, s\<lparr>pworld := lseek_cur L fd (- remaining) (pworld s)\<rparr>)
                         else (let m = write_bytes (pmem s) buf name;
                                   (m, len) = (if is_dir then (m(buf + of_nat len := ch CHR ''/''), len + 1) else (m, len));
                                   (m, len) = (m(buf + of_nat len := 0), len + 1);
                                   buf = buf + of_nat len;
                                   nread = nread + int len;
                                   count = count - len;
                                   s = s\<lparr>pmem := m\<rparr>
                               in if count = 0 then Some (nread, s)
                                  else read_dir_loop L fd db (ptr + d_reclen db ptr) (remaining - int (d_reclen db ptr))
                                         buf nread count s))))"

section \<open>The requests of the guest\<close>

text \<open>Each handler works on the request at \<open>a\<close>.\<close>

definition handle_fileattr :: "'w libc \<Rightarrow> addr \<Rightarrow> 'w proc \<Rightarrow> 'w proc" where
  "handle_fileattr L a s =
     (let (ret, st_size, st_mode, w) = stat L (pmem s) a (pworld s);
          m = store32 (pmem s) (a + 268) (word_of_int ret);
          m = store64 m (a + 256) st_size;
          m = store32 m (a + 264) st_mode
      in s\<lparr>pmem := m, pworld := w\<rparr>)"

definition handle_open :: "'w libc \<Rightarrow> addr \<Rightarrow> 'w proc \<Rightarrow> 'w proc" where
  "handle_open L a s =
     (let (fd, w) = open_file L (pmem s) a (pworld s)
      in s\<lparr>pmem := store32 (pmem s) (a + 256) (word_of_int fd), pworld := w\<rparr>)"

text \<open>\<open>int count\<close> of the 64-bit field; the comparison with \<open>sizeof(arg->read.buf)\<close> is unsigned.\<close>

definition read_count :: "u64 \<Rightarrow> nat" where
  "read_count c =
     (let count = sint (ucast c :: u32) in if (1024 :: u64) < word_of_int count then 1024 else nat count)"

definition handle_read :: "'w libc \<Rightarrow> addr \<Rightarrow> 'w proc \<Rightarrow> 'w proc option" where
  "handle_read L a s =
     (let fd = sint (load32 (pmem s) (a + 1040)); count = read_count (load64 (pmem s) (a + 1024));
          offset = load64 (pmem s) (a + 1032)
      in do {
           (nread, s) \<leftarrow>
             (if offset = - 1
              then (let (siz, db, w) = getdents64 L fd 1024 (pworld s); s = s\<lparr>pworld := w\<rparr>
                    in if siz = - 1 then Some (0, s) else read_dir_loop L fd db 0 siz a 0 count s)
              else (let (r, bytes, w) = pread L fd (of_nat count) offset (pworld s)
                    in Some (r, s\<lparr>pmem := write_bytes (pmem s) a bytes, pworld := w\<rparr>)));
           Some (s\<lparr>pmem := store64 (pmem s) (a + 1024) (word_of_int nread)\<rparr>)
         })"

definition handle_mmap :: "'w libc \<Rightarrow> addr \<Rightarrow> addr \<Rightarrow> 'w proc \<Rightarrow> 'w proc" where
  "handle_mmap L a mmap_read_buffer s =
     (let m = write_bytes (pmem s) mmap_read_buffer (replicate 4096 0);
          (r, bytes, w) = pread L (sint (ucast (load64 m a) :: u32)) 4096 (load64 m (a + 8) + load64 m (a + 24)) (pworld s);
          m = write_bytes m mmap_read_buffer bytes
      in s\<lparr>pmem := store64 m (a + 32) mmap_read_buffer, pworld := w\<rparr>)"

text \<open>A request, and the type of the next invocation.\<close>

definition guest_request :: "int \<Rightarrow> bool" where "guest_request ret \<longleftrightarrow> 3 \<le> ret \<and> ret \<le> 6"

definition serve_guest :: "'w libc \<Rightarrow> int \<Rightarrow> addr \<Rightarrow> addr \<Rightarrow> 'w proc \<Rightarrow> 'w proc option" where
  "serve_guest L ret invoke_data mmap_read_buffer s =
     (let a = load64 (pmem s) (invoke_data + 40)
      in if ret = 3 then Some (set_invokation_type invoke_data 1 (handle_fileattr L a s))
         else if ret = 4 then Some (set_invokation_type invoke_data 2 (handle_open L a s))
         else if ret = 5 then map_option (set_invokation_type invoke_data 3) (handle_read L a s)
         else Some (set_invokation_type invoke_data 4 (handle_mmap L a mmap_read_buffer s)))"

section \<open>The invocation\<close>

text \<open>From the label \<open>retry\<close> to \<open>exit\<close>: the address of the result, or NULL.\<close>

partial_function (option) invoke_loop ::
  "'w libc \<Rightarrow> monitor_call_struct \<Rightarrow> addr \<Rightarrow> addr \<Rightarrow> addr \<Rightarrow> 'w proc \<Rightarrow> (addr \<times> 'w proc) option" where
  "invoke_loop L call invoke_data return_buffer mmap_read_buffer s =
     (let (ret, s) = ioctl L (con s) VMPL_WR call s
      in if ret = 1 then Some (return_buffer, s)
         else if guest_request ret
         then do {
                s \<leftarrow> serve_guest L ret invoke_data mmap_read_buffer s;
                invoke_loop L call invoke_data return_buffer mmap_read_buffer s
              }
         else Some (0, s))"

definition allocate_trustlet_struct :: "'w libc \<Rightarrow> 'w proc \<Rightarrow> (addr \<times> 'w proc) option" where
  "allocate_trustlet_struct L s =
     (let (buf, w) = aligned_alloc L 4096 4096 (pworld s)
      in do {
           m \<leftarrow> int_loop buf 4096 (\<lambda>_ _. 0) (pmem s);
           Some (buf, s\<lparr>pmem := m, pworld := w\<rparr>)
         })"

definition set_word :: "addr \<Rightarrow> u64 \<Rightarrow> u64 \<Rightarrow> 'w proc \<Rightarrow> 'w proc" where
  "set_word d i x s = s\<lparr>pmem := store64 (pmem s) (d + i) x\<rparr>"

text \<open>What both entry points do once the argument is in its buffer.\<close>

definition invoke_with ::
  "'w libc \<Rightarrow> monitor_call_struct \<Rightarrow> int \<Rightarrow> addr \<Rightarrow> u64 \<Rightarrow> u64 \<Rightarrow> 'w proc \<Rightarrow> (addr \<times> 'w proc) option" where
  "invoke_with L call trustlet_id data args_size output_size s = do {
     (invoke_data, s) \<leftarrow> allocate_trustlet_struct L s;
     let call = call\<lparr>call_type := call_code invokeTrustlet\<rparr>;
     let call = call\<lparr>u0 := word_of_int trustlet_id\<rparr>;
     let s = set_word invoke_data 8 data s;
     let s = set_word invoke_data 16 args_size s;
     let allocaction_size = (if output_size \<noteq> 0 then output_size else 4096);
     (return_buffer, s) \<leftarrow> allocate_buffer L allocaction_size s;
     (mmap_read_buffer, s) \<leftarrow> allocate_buffer L 4096 s;
     let s = set_word invoke_data 24 return_buffer s;
     let s = set_word invoke_data 32 allocaction_size s;
     (guest_request_args_buffer, s) \<leftarrow> allocate_buffer L allocaction_size s;
     let s = set_word invoke_data 40 guest_request_args_buffer s;
     let s = set_word invoke_data 48 guest_request_args_size s;
     let s = set_invokation_type invoke_data 0 s;
     let call = call\<lparr>u1 := invoke_data\<rparr>;
     let call = call\<lparr>u2 := trustlet_invokation_size\<rparr>;
     (return_buffer_address, s) \<leftarrow> invoke_loop L call invoke_data return_buffer mmap_read_buffer s;
     Some (return_buffer_address, s\<lparr>pworld := free L mmap_read_buffer (pworld s)\<rparr>)
   }"

definition invoke_trustlet_bin ::
  "'w libc \<Rightarrow> monitor_call_struct \<Rightarrow> int \<Rightarrow> addr \<Rightarrow> u64 \<Rightarrow> u64 \<Rightarrow> 'w proc \<Rightarrow> (addr \<times> 'w proc) option" where
  "invoke_trustlet_bin L call trustlet_id args args_size output_size s = do {
     assert_con L s;
     (data, s) \<leftarrow> load_data_with_len L args args_size s;
     invoke_with L call trustlet_id data args_size output_size s
   }"

definition invoke_trustlet_lib ::
  "'w libc \<Rightarrow> monitor_call_struct \<Rightarrow> int \<Rightarrow> addr \<Rightarrow> u64 \<Rightarrow> 'w proc \<Rightarrow> (addr \<times> 'w proc) option" where
  "invoke_trustlet_lib L call trustlet_id args output_size s = do {
     assert_con L s;
     (data, s) \<leftarrow> load_data_lib L args s;
     n \<leftarrow> strlen (pmem s) args;
     invoke_with L call trustlet_id data (n + 1) output_size s
   }"

section \<open>What a directory is listed as\<close>

text \<open>
  Records in the buffer, as name, whether it is a directory, and length; the text of one; and the
  listing into a given room: the text of the names, and how far the directory is sought back.
\<close>

type_synonym dir_entry = "byte list \<times> bool \<times> nat"

fun dir_at :: "byte list \<Rightarrow> nat \<Rightarrow> dir_entry list \<Rightarrow> bool" where
  "dir_at db ptr [] \<longleftrightarrow> True"
| "dir_at db ptr ((name, is_dir, reclen) # es) \<longleftrightarrow>
     d_name db ptr = Some name \<and> (d_type db ptr = DT_DIR) = is_dir \<and> d_reclen db ptr = reclen \<and> 0 < reclen
     \<and> dir_at db (ptr + reclen) es"

definition dir_bytes :: "dir_entry list \<Rightarrow> nat" where
  "dir_bytes es = sum_list (map (\<lambda>(_, _, reclen). reclen) es)"

fun dir_text :: "dir_entry \<Rightarrow> byte list" where
  "dir_text (name, is_dir, _) = name @ (if is_dir then [ch CHR ''/''] else []) @ [0]"

fun list_dir :: "nat \<Rightarrow> dir_entry list \<Rightarrow> byte list \<times> nat" where
  "list_dir room [] = ([], 0)"
| "list_dir room (e # es) =
     (if is_dot_or_dotdot (fst e) then list_dir room es
      else if room < length (dir_text e) then ([], dir_bytes (e # es))
      else if room = length (dir_text e) then (dir_text e, 0)
      else (let (out, rest) = list_dir (room - length (dir_text e)) es in (dir_text e @ out, rest)))"

definition seek_back :: "'w libc \<Rightarrow> int \<Rightarrow> nat \<Rightarrow> 'w \<Rightarrow> 'w" where
  "seek_back L fd rest w = (if rest = 0 then w else lseek_cur L fd (- int rest) w)"

lemma list_dir_room: "length (fst (list_dir room es)) \<le> room"
proof (induction room es rule: list_dir.induct)
  case (2 room e es)
  then show ?case
    by (cases "list_dir (room - length (dir_text e)) es") (auto split: if_splits)
qed simp

lemma dir_text_length: "length (dir_text (name, is_dir, reclen)) = length name + 1 + (if is_dir then 1 else 0)"
  by simp

lemma read_dir_lists:
  assumes "dir_at db ptr es" "list_dir count es = (out, rest)"
  shows "read_dir_loop L fd db ptr (int (dir_bytes es)) buf n count s =
     Some (n + int (length out), s\<lparr>pmem := write_bytes (pmem s) buf out, pworld := seek_back L fd rest (pworld s)\<rparr>)"
  using assms
proof (induction es arbitrary: ptr buf n count s out rest)
  case Nil
  then show ?case by (simp add: read_dir_loop.simps dir_bytes_def seek_back_def)
next
  case (Cons e es)
  obtain name is_dir reclen where e: "e = (name, is_dir, reclen)" by (cases e)
  have r: "dir_bytes (e # es) = reclen + dir_bytes es" "0 < reclen" "dir_at db (ptr + reclen) es"
    using Cons.prems(1) by (simp_all add: e dir_bytes_def)
  then have left: "int (dir_bytes (e # es)) - int reclen = int (dir_bytes es)" "\<not> int (dir_bytes (e # es)) \<le> 0" by simp_all
  note step = read_dir_loop.simps [of L fd db ptr "int (dir_bytes (e # es))" buf n count s]
  show ?case
  proof (cases "is_dot_or_dotdot name")
    case True
    then have "list_dir count es = (out, rest)" using Cons.prems(2) by (simp add: e)
    with Cons.IH [OF r(3)] show ?thesis
      using Cons.prems(1) True left by (subst step) (simp add: e)
  next
    case False
    let ?t = "dir_text e" and ?s = "s\<lparr>pmem := write_bytes (pmem s) buf (dir_text e)\<rparr>"
    have loop: "read_dir_loop L fd db ptr (int (dir_bytes (e # es))) buf n count s =
       (if count < length ?t then Some (n, s\<lparr>pworld := lseek_cur L fd (- int (dir_bytes (e # es))) (pworld s)\<rparr>)
        else if count = length ?t then Some (n + int (length ?t), ?s)
        else read_dir_loop L fd db (ptr + reclen) (int (dir_bytes es)) (buf + of_nat (length ?t)) (n + int (length ?t))
               (count - length ?t) ?s)"
      using Cons.prems(1) False left
      by (subst step) (cases is_dir; simp add: e write_bytes_append Let_def add_ac)
    show ?thesis
    proof (cases "length ?t < count")
      case True
      obtain o' r' where l: "list_dir (count - length ?t) es = (o', r')" by (cases "list_dir (count - length ?t) es")
      with Cons.prems(2) True False have "out = ?t @ o'" "rest = r'" by (simp_all add: e del: dir_text.simps)
      with Cons.IH [OF r(3) l] True show ?thesis
        unfolding loop by (simp add: write_bytes_append del: dir_text.simps)
    next
      case False
      with Cons.prems(2) \<open>\<not> is_dot_or_dotdot name\<close> r show ?thesis
        unfolding loop by (auto simp: e seek_back_def dir_bytes_def simp del: dir_text.simps split: if_splits)
    qed
  qed
qed

lemma clamp_count: "k < 2 ^ 31 \<Longrightarrow> \<not> (1024 :: u64) < word_of_int k \<Longrightarrow> nat k \<le> 1024"
  by (cases "0 \<le> k") (auto simp: word_less_def unsigned_of_int take_bit_int_eq_self_iff
      take_bit_int_eq_self [of k 64])

lemma read_count_bound: "read_count c \<le> 1024"
  using sint_lt [of "ucast c :: u32"] clamp_count [of "sint (ucast c :: u32)"]
  by (simp add: read_count_def Let_def del: of_int_sint)


section \<open>What a request may change\<close>

lemma store64_within: "i + 8 \<le> n \<Longrightarrow> \<not> in_range p n x \<Longrightarrow> store64 m (p + of_nat i) w x = m x"
  by (rule store64_other) (blast dest: in_range_within)

lemma store32_within: "i + 4 \<le> n \<Longrightarrow> \<not> in_range p n x \<Longrightarrow> store32 m (p + of_nat i) w x = m x"
  by (rule store32_other) (blast dest: in_range_within)

lemma write_within: "length bs \<le> n \<Longrightarrow> n \<le> 2 ^ 64 \<Longrightarrow> \<not> in_range p n x \<Longrightarrow> write_bytes m p bs x = m x"
  by (rule write_bytes_other) (auto simp: in_range_def)

lemma handle_fileattr_within: "\<not> in_range a 1048 x \<Longrightarrow> pmem (handle_fileattr L a s) x = pmem s x"
  using store64_within [of 256 1048 a x] store32_within [of 264 1048 a x] store32_within [of 268 1048 a x]
  by (simp add: handle_fileattr_def case_prod_unfold Let_def)

lemma handle_open_within: "\<not> in_range a 1048 x \<Longrightarrow> pmem (handle_open L a s) x = pmem s x"
  using store32_within [of 256 1048 a x] by (simp add: handle_open_def case_prod_unfold Let_def)

text \<open>What the code relies on of the kernel: no more bytes than asked for, and whole records.\<close>

definition pread_bounded :: "'w libc \<Rightarrow> bool" where
  "pread_bounded L \<longleftrightarrow> (\<forall>fd n off w. length (fst (snd (pread L fd n off w))) \<le> unat n)"

definition getdents_records :: "'w libc \<Rightarrow> bool" where
  "getdents_records L \<longleftrightarrow>
     (\<forall>fd w. case getdents64 L fd 1024 w of
        (siz, db, w') \<Rightarrow> siz = - 1 \<or> (\<exists>es. siz = int (dir_bytes es) \<and> dir_at db 0 es))"

lemma pread_boundedD: "pread_bounded L \<Longrightarrow> n < 2 ^ 64 \<Longrightarrow> length (fst (snd (pread L fd (of_nat n) off w))) \<le> n"
  by (metis pread_bounded_def unat_of_nat_u64)

lemma handle_mmap_within:
  "pread_bounded L \<Longrightarrow> \<not> in_range a 1048 x \<Longrightarrow> \<not> in_range mb 4096 x \<Longrightarrow> pmem (handle_mmap L a mb s) x = pmem s x"
  using store64_within [of 32 1048 a x] write_within [of _ 4096 mb x] pread_boundedD [of L 4096]
  by (simp add: handle_mmap_def case_prod_unfold Let_def)

lemma getdents_recordsD:
  assumes "getdents_records L" "getdents64 L fd 1024 w = (siz, db, v)" "siz \<noteq> - 1"
  shows "\<exists>es. siz = int (dir_bytes es) \<and> dir_at db 0 es"
  using assms(1)[unfolded getdents_records_def, rule_format, of fd w] assms(2,3) by simp

lemma handle_read_within:
  assumes "pread_bounded L" "getdents_records L"
  obtains s' where "handle_read L a s = Some s'" "\<And>x. \<not> in_range a 1048 x \<Longrightarrow> pmem s' x = pmem s x"
proof -
  let ?fd = "sint (load32 (pmem s) (a + 1040))" and ?n = "read_count (load64 (pmem s) (a + 1024))"
  have w: "write_bytes m a bs x = m x" if "length bs \<le> ?n" "\<not> in_range a 1048 x" for m bs x
    using that read_count_bound [of "load64 (pmem s) (a + 1024)"] by (intro write_within) auto
  note f = store64_within [of 1024 1048 a, simplified]
  show thesis
  proof (cases "load64 (pmem s) (a + 1032) = - 1")
    case True
    obtain siz db v where d: "getdents64 L ?fd 1024 (pworld s) = (siz, db, v)" by (metis prod_cases3)
    show thesis
    proof (cases "siz = - 1")
      case True
      show thesis
        by (rule that [of "s\<lparr>pworld := v, pmem := store64 (pmem s) (a + 1024) 0\<rparr>"])
          (use True \<open>load64 (pmem s) (a + 1032) = - 1\<close> d f in \<open>simp_all add: handle_read_def\<close>)
    next
      case False
      then obtain es where es: "siz = int (dir_bytes es)" "dir_at db 0 es"
        using getdents_recordsD [OF assms(2) d] by blast
      obtain out rest where l: "list_dir ?n es = (out, rest)" by (cases "list_dir ?n es")
      let ?m = "store64 (write_bytes (pmem s) a out) (a + 1024) (of_nat (length out))"
      from read_dir_lists [OF es(2) l, of L ?fd a 0 "s\<lparr>pworld := v\<rparr>"]
      have "handle_read L a s = Some (s\<lparr>pmem := ?m, pworld := seek_back L ?fd rest v\<rparr>)"
        using \<open>load64 (pmem s) (a + 1032) = - 1\<close> False d es by (simp add: handle_read_def)
      moreover have "length out \<le> ?n" using list_dir_room [of ?n es] l by simp
      ultimately show thesis using that f w by simp
    qed
  next
    case False
    obtain r bytes v where p: "pread L ?fd (of_nat ?n) (load64 (pmem s) (a + 1032)) (pworld s) = (r, bytes, v)"
      by (metis prod_cases3)
    have "length bytes \<le> ?n"
      using pread_boundedD [OF assms(1), of ?n ?fd "load64 (pmem s) (a + 1032)" "pworld s"] p
        read_count_bound [of "load64 (pmem s) (a + 1024)"] by simp
    moreover have "handle_read L a s = Some (s\<lparr>pmem := store64 (write_bytes (pmem s) a bytes) (a + 1024) (word_of_int r), pworld := v\<rparr>)"
      using False p by (simp add: handle_read_def)
    ultimately show thesis using that f w by simp
  qed
qed

text \<open>
  C19  Every request of a guest is answered, and only in the places meant for it.  When reads give
  no more than they are asked for and directories come in whole records, serving a request returns,
  tells the monitor with the type of the next invocation which request was served, and has changed
  no memory but that word, the request itself and the page for mapped files.
\<close>
theorem guest_request_confined:
  assumes "pread_bounded L" "getdents_records L" "guest_request ret"
  shows "\<exists>s'. serve_guest L ret d mb s = Some s' \<and> load64 (pmem s') d = word_of_int (ret - 2)
    \<and> (\<forall>x. in_range d 8 x \<or> in_range (load64 (pmem s) (d + 40)) 1048 x \<or> in_range mb 4096 x \<or> pmem s' x = pmem s x)"
proof -
  let ?a = "load64 (pmem s) (d + 40)"
  obtain s2 where r: "handle_read L ?a s = Some s2" "\<And>x. \<not> in_range ?a 1048 x \<Longrightarrow> pmem s2 x = pmem s x"
    using handle_read_within [OF assms(1,2)] by blast
  have "store64 m d t x = m x" if "\<not> in_range d 8 x" for m t x using that by (rule store64_other)
  moreover have "ret = 3 \<or> ret = 4 \<or> ret = 5 \<or> ret = 6" using assms(3) unfolding guest_request_def by arith
  moreover have "in_range ?a 1048 x \<or> in_range mb 4096 x \<or> pmem (handle_mmap L ?a mb s) x = pmem s x" for x
    using handle_mmap_within [OF assms(1)] by blast
  ultimately show ?thesis
    using handle_fileattr_within [of ?a _ L s] handle_open_within [of ?a _ L s] r
    by (elim disjE) (auto simp: serve_guest_def set_invokation_type_def Let_def, blast)
qed

section \<open>When an invocation returns\<close>

text \<open>One round of the loop, if it is not the last, and so many of them.\<close>

definition invoke_round ::
  "'w libc \<Rightarrow> monitor_call_struct \<Rightarrow> addr \<Rightarrow> addr \<Rightarrow> 'w proc \<Rightarrow> 'w proc option" where
  "invoke_round L call d mb s =
     (let (ret, s) = ioctl L (con s) VMPL_WR call s in if guest_request ret then serve_guest L ret d mb s else None)"

primrec invoke_rounds ::
  "'w libc \<Rightarrow> monitor_call_struct \<Rightarrow> addr \<Rightarrow> addr \<Rightarrow> nat \<Rightarrow> 'w proc \<Rightarrow> 'w proc option" where
  "invoke_rounds L call d mb 0 s = Some s"
| "invoke_rounds L call d mb (Suc n) s = Option.bind (invoke_round L call d mb s) (invoke_rounds L call d mb n)"

lemma guest_request_not_value [simp]: "\<not> guest_request 1" by (simp add: guest_request_def)

lemma invoke_loop_step:
  "invoke_loop L call d p mb s =
     (case invoke_round L call d mb s of
        Some s' \<Rightarrow> invoke_loop L call d p mb s'
      | None \<Rightarrow> (let (ret, s') = ioctl L (con s) VMPL_WR call s
                 in if guest_request ret then None else Some (if ret = 1 then p else 0, s')))"
  by (subst invoke_loop.simps) (auto simp: invoke_round_def Let_def split: prod.splits option.splits)

lemma invoke_loop_rounds:
  "invoke_rounds L call d mb n s = Some t \<Longrightarrow> invoke_loop L call d p mb s = invoke_loop L call d p mb t"
  by (induction n arbitrary: s) (auto simp: invoke_loop_step [of L call d p mb s for s] split: bind_splits)

lemma invoke_loop_unrolls:
  assumes "invoke_loop L call d p mb s = Some r"
  shows "\<exists>n t ret. invoke_rounds L call d mb n s = Some t \<and> ioctl L (con t) VMPL_WR call t = (ret, snd r)
       \<and> \<not> guest_request ret \<and> fst r = (if ret = 1 then p else 0)"
proof (rule invoke_loop.raw_induct [where P = "\<lambda>L call d p mb s r. \<exists>n t ret. invoke_rounds L call d mb n s = Some t
    \<and> ioctl L (con t) VMPL_WR call t = (ret, snd r) \<and> \<not> guest_request ret \<and> fst r = (if ret = 1 then p else 0)",
    OF _ assms])
  fix loop L call d p mb s r
  assume IH: "\<And>L call d p mb s r. loop L call d p mb s = Some r \<Longrightarrow>
      \<exists>n t ret. invoke_rounds L call d mb n s = Some t \<and> ioctl L (con t) VMPL_WR call t = (ret, snd r)
        \<and> \<not> guest_request ret \<and> fst r = (if ret = 1 then p else 0)"
    and step: "(let (ret, s) = ioctl L (con s) VMPL_WR call s
      in if ret = 1 then Some (p, s)
         else if guest_request ret then serve_guest L ret d mb s \<bind> loop L call d p mb
         else Some (0, s)) = Some r"
  obtain ret s1 where i: "ioctl L (con s) VMPL_WR call s = (ret, s1)" by fastforce
  show "\<exists>n t ret. invoke_rounds L call d mb n s = Some t \<and> ioctl L (con t) VMPL_WR call t = (ret, snd r)
        \<and> \<not> guest_request ret \<and> fst r = (if ret = 1 then p else 0)"
  proof (cases "guest_request ret")
    case True
    then obtain s2 where s2: "serve_guest L ret d mb s1 = Some s2" "loop L call d p mb s2 = Some r"
      using step i by (auto split: if_splits bind_splits)
    from IH [OF s2(2)] obtain n t ret' where t: "invoke_rounds L call d mb n s2 = Some t"
      "ioctl L (con t) VMPL_WR call t = (ret', snd r)" "\<not> guest_request ret'" "fst r = (if ret' = 1 then p else 0)"
      by blast
    have "invoke_rounds L call d mb (Suc n) s = Some t"
      using True i s2 t(1) by (simp add: invoke_round_def)
    with t show ?thesis by blast
  next
    case False
    with step i have "invoke_rounds L call d mb 0 s = Some s" "s1 = snd r" "fst r = (if ret = 1 then p else 0)"
      by (auto split: if_splits)
    with i False show ?thesis by blast
  qed
qed


section \<open>Examples\<close>

text \<open>A directory with the files \<open>a\<close> and \<open>b\<close>, read into room for one name.\<close>

definition demo_dirent :: "byte \<Rightarrow> byte list" where
  "demo_dirent c = [0, 0, 0, 0, 0, 0, 0, 0, 0, 0, 0, 0, 0, 0, 0, 0, 24, 0, 8, c, 0, 0, 0, 0]"

definition dir_libc :: "unit libc" where
  "dir_libc = file_libc\<lparr>getdents64 := \<lambda>_ _ w. (48, demo_dirent 97 @ demo_dirent 98, w)\<rparr>"

definition dir_proc :: "unit proc" where
  "dir_proc = \<lparr>pmem = store64 (store64 (store64 (\<lambda>_. 0) 0x1400 2) 0x1408 (- 1)) 0x8028 0x1000, con = 3, attested_function_cnt = 0, pworld = ()\<rparr>"

lemma demo_dir_at:
  "dir_at (demo_dirent 97 @ demo_dirent 98) 0 [([97], False, 24), ([98], False, 24)]"
  "48 = int (dir_bytes [([97], False, 24), ([98], False, 24)])"
  by (simp_all add: demo_dirent_def d_name_def d_type_def d_reclen_def DT_DIR_def dir_bytes_def)

lemma dir_proc_request: "load64 (pmem dir_proc) 0x1408 = - 1" "load64 (pmem dir_proc) 0x1400 = 2"
  "load64 (pmem dir_proc) 0x8028 = 0x1000"
  by (simp_all add: dir_proc_def load64_store64_separate separate_def)


lemma dir_libc_contracts: "pread_bounded dir_libc" "getdents_records dir_libc"
proof -
  show "pread_bounded dir_libc" by (simp add: pread_bounded_def dir_libc_def file_libc_def)
  show "getdents_records dir_libc"
    using demo_dir_at by (auto simp: getdents_records_def dir_libc_def)
qed

lemma guest_request_confined_witness:
  "\<exists>s'. serve_guest dir_libc 5 0x8000 0x10000 dir_proc = Some s' \<and> load64 (pmem s') 0x8000 = 3
     \<and> pmem s' 0x9000 = pmem dir_proc 0x9000"
proof -
  obtain s' where "serve_guest dir_libc 5 0x8000 0x10000 dir_proc = Some s'" "load64 (pmem s') 0x8000 = 3"
    "in_range 0x8000 8 x \<or> in_range 0x1000 1048 x \<or> in_range 0x10000 4096 x \<or> pmem s' x = pmem dir_proc x" for x
    using guest_request_confined [OF dir_libc_contracts, of 5 "0x8000" "0x10000" dir_proc] dir_proc_request(3)
    by (auto simp: guest_request_def)
  from this(1,2) this(3) [of "0x9000"] show ?thesis by (simp add: in_range_def)
qed

end
