(* ===== verification/Pal_Sort.thy ===== *)
theory Pal_Sort
  imports Pal_Cstring "HOL-Library.Multiset"
begin

text \<open>
  \<open>qsort\<close> and \<open>bsearch\<close> of \<open>wamr-pal/pal_string.c\<close> over arrays in memory.  The callback
  \<open>compar\<close> is an argument that reads memory; the locale \<open>comparator\<close> is the contract the C
  standard puts on it, and \<open>memcmp\<close> is shown to satisfy it.
\<close>

section \<open>The C functions\<close>

type_synonym compar = "mem \<Rightarrow> addr \<Rightarrow> addr \<Rightarrow> int"

definition swap_bytes :: "mem \<Rightarrow> addr \<Rightarrow> addr \<Rightarrow> nat \<Rightarrow> mem" where
  "swap_bytes m a b n =
     fold (\<lambda>k m. (m(a + of_nat k := m (b + of_nat k)))(b + of_nat k := m (a + of_nat k))) [0..<n] m"

function qsort_inner :: "compar \<Rightarrow> addr \<Rightarrow> u64 \<Rightarrow> mem \<Rightarrow> u64 \<Rightarrow> mem" where
  "qsort_inner compar arr siz m j =
     (if 0 < j
      then (let a = arr + (j - 1) * siz; b = arr + j * siz
            in if compar m a b \<le> 0 then m
               else qsort_inner compar arr siz (swap_bytes m a b (unat siz)) (j - 1))
      else m)"
  by pat_completeness auto
termination
  by (relation "measure (\<lambda>(compar, arr, siz, m, j). unat j)")
    (auto simp: measure_unat word_greater_zero_iff)

function qsort_outer :: "compar \<Rightarrow> addr \<Rightarrow> u64 \<Rightarrow> u64 \<Rightarrow> mem \<Rightarrow> u64 \<Rightarrow> mem" where
  "qsort_outer compar arr nmemb siz m i =
     (if i < nmemb then qsort_outer compar arr nmemb siz (qsort_inner compar arr siz m i) (i + 1)
      else m)"
  by pat_completeness auto
termination
proof (relation "measure (\<lambda>(compar, arr, nmemb, siz, m, i). unat (nmemb - i))")
  fix compar arr and nmemb siz i :: u64 and m
  assume "i < nmemb"
  then have "unat (nmemb - i - 1) < unat (nmemb - i)"
    by (intro measure_unat) auto
  then show "((compar, arr, nmemb, siz, qsort_inner compar arr siz m i, i + 1),
              (compar, arr, nmemb, siz, m, i))
             \<in> measure (\<lambda>(compar, arr, nmemb, siz, m, i). unat (nmemb - i))"
    by (simp add: diff_diff_eq)
qed simp

definition qsort :: "mem \<Rightarrow> addr \<Rightarrow> u64 \<Rightarrow> u64 \<Rightarrow> compar \<Rightarrow> mem" where
  "qsort m base nmemb siz compar = qsort_outer compar base nmemb siz m 1"

lemma bsearch_mid: "(lo :: u64) < hi \<Longrightarrow> lo \<le> lo + (hi - lo) div 2 \<and> lo + (hi - lo) div 2 < hi"
proof -
  assume lt: "lo < hi"
  then have d: "unat (hi - lo) = unat hi - unat lo"
    by (simp add: unat_sub word_less_nat_alt word_le_nat_alt)
  have "unat lo + (unat hi - unat lo) div 2 < 2 ^ 64"
  proof -
    have "(unat hi - unat lo) div 2 \<le> unat hi - unat lo" by simp
    moreover have "unat lo < unat hi" using lt by (simp add: word_less_nat_alt)
    ultimately show ?thesis using unat_less_u64 [of hi] by linarith
  qed
  then have "unat (lo + (hi - lo) div 2) = unat lo + (unat hi - unat lo) div 2"
    by (simp add: unat_word_ariths unat_div d)
  then show ?thesis
    using lt by (simp add: word_less_nat_alt word_le_nat_alt)
qed

function bsearch_loop :: "compar \<Rightarrow> mem \<Rightarrow> addr \<Rightarrow> addr \<Rightarrow> u64 \<Rightarrow> u64 \<Rightarrow> u64 \<Rightarrow> addr" where
  "bsearch_loop compar m key arr siz lo hi =
     (if lo < hi
      then (let mid = lo + (hi - lo) div 2; elem = arr + mid * siz; cmp = compar m key elem
            in if cmp < 0 then bsearch_loop compar m key arr siz lo mid
               else if 0 < cmp then bsearch_loop compar m key arr siz (mid + 1) hi
               else elem)
      else NULL)"
  by pat_completeness auto
termination
proof (relation "measure (\<lambda>(compar, m, key, arr, siz, lo, hi). unat hi - unat lo)", goal_cases)
  case (2 compar m key arr siz lo hi mid)
  then show ?case using bsearch_mid [of lo hi] by (auto simp: word_less_nat_alt word_le_nat_alt)
next
  case (3 compar m key arr siz lo hi mid)
  then have "lo \<le> mid" "mid < hi" using bsearch_mid [of lo hi] by auto
  moreover then have "unat (mid + 1) = unat mid + 1" by unat_arith
  ultimately show ?case by (simp add: word_less_nat_alt word_le_nat_alt)
qed simp

definition bsearch :: "mem \<Rightarrow> addr \<Rightarrow> addr \<Rightarrow> u64 \<Rightarrow> u64 \<Rightarrow> compar \<Rightarrow> addr" where
  "bsearch m key base nmemb siz compar = bsearch_loop compar m key base siz 0 nmemb"

declare qsort_inner.simps [simp del] qsort_outer.simps [simp del] bsearch_loop.simps [simp del]

section \<open>The contract of the comparison callback\<close>

locale comparator =
  fixes cmp :: "byte list \<Rightarrow> byte list \<Rightarrow> int"
  assumes cmp_flip: "cmp x y < 0 \<longleftrightarrow> 0 < cmp y x"
    and cmp_trans: "cmp x y \<le> 0 \<Longrightarrow> cmp y z \<le> 0 \<Longrightarrow> cmp x z \<le> 0"

text \<open>The insertion step and the sort as functions on the list of elements.\<close>

primrec sift_list :: "('a \<Rightarrow> 'a \<Rightarrow> int) \<Rightarrow> 'a list \<Rightarrow> nat \<Rightarrow> 'a list" where
  "sift_list cmp xs 0 = xs"
| "sift_list cmp xs (Suc j) =
     (if cmp (xs ! j) (xs ! Suc j) \<le> 0 then xs
      else sift_list cmp (xs[j := xs ! Suc j, Suc j := xs ! j]) j)"

definition sort_list :: "('a \<Rightarrow> 'a \<Rightarrow> int) \<Rightarrow> 'a list \<Rightarrow> 'a list" where
  "sort_list cmp xs = fold (\<lambda>i xs. sift_list cmp xs i) [1..<length xs] xs"

lemma length_sift_list [simp]: "length (sift_list cmp xs j) = length xs"
  by (induction j arbitrary: xs) auto

lemma mset_sift_list: "j < length xs \<Longrightarrow> mset (sift_list cmp xs j) = mset xs"
  by (induction j arbitrary: xs) (auto simp: mset_swap)

lemma sift_list_append:
  "j < length xs \<Longrightarrow> sift_list cmp (xs @ ws) j = sift_list cmp xs j @ ws"
  by (induction j arbitrary: xs) (auto simp: nth_append list_update_append)

lemma swap_at: "(ys @ y # x # zs)[length ys := x, Suc (length ys) := y] = ys @ x # y # zs"
  by (simp add: list_update_append)

context comparator begin

lemma cmp_total: "\<not> cmp x y \<le> 0 \<Longrightarrow> cmp y x \<le> 0"
  using cmp_flip [of y x] by auto

lemma sift_list_sorts:
  "sorted_wrt (\<lambda>x y. cmp x y \<le> 0) (ys @ zs) \<Longrightarrow> \<forall>z \<in> set zs. cmp x z \<le> 0 \<Longrightarrow>
   sorted_wrt (\<lambda>x y. cmp x y \<le> 0) (sift_list cmp (ys @ x # zs) (length ys))"
proof (induction ys arbitrary: zs rule: rev_induct)
  case Nil
  then show ?case by simp
next
  case (snoc y ys)
  have at: "(ys @ y # x # zs) ! length ys = y" "(ys @ y # x # zs) ! Suc (length ys) = x"
    by (simp_all add: nth_append)
  show ?case
  proof (cases "cmp y x \<le> 0")
    case True
    then show ?thesis
      using snoc.prems at cmp_trans by (auto simp: sorted_wrt_append)
  next
    case False
    then have "cmp x y \<le> 0" by (rule cmp_total)
    then have "sorted_wrt (\<lambda>x y. cmp x y \<le> 0) (sift_list cmp (ys @ x # y # zs) (length ys))"
      using snoc.IH [of "y # zs"] snoc.prems by simp
    then show ?thesis using False at swap_at [of ys y x zs] by simp
  qed
qed

lemma sort_list_prefix:
  "k \<le> length xs \<Longrightarrow>
   (let ys = fold (\<lambda>i xs. sift_list cmp xs i) [1..<k] xs
    in sorted_wrt (\<lambda>x y. cmp x y \<le> 0) (take k ys) \<and> mset ys = mset xs)"
proof (induction k)
  case (Suc k)
  let ?ys = "fold (\<lambda>i xs. sift_list cmp xs i) [1..<k] xs"
  have IH: "sorted_wrt (\<lambda>x y. cmp x y \<le> 0) (take k ?ys)" "mset ?ys = mset xs"
    using Suc by (simp_all add: Let_def)
  show ?case
  proof (cases k)
    case 0
    then show ?thesis by (cases xs) (auto simp: Let_def)
  next
    case k: (Suc k')
    have len: "k < length ?ys" using IH(2) Suc.prems by (metis Suc_le_eq mset_eq_length)
    then have split: "?ys = (take k ?ys @ [?ys ! k]) @ drop (Suc k) ?ys" by (simp add: id_take_nth_drop)
    have "sorted_wrt (\<lambda>x y. cmp x y \<le> 0) (sift_list cmp (take k ?ys @ [?ys ! k]) k)"
      using sift_list_sorts [of "take k ?ys" "[]" "?ys ! k"] IH(1) len by simp
    moreover have "sift_list cmp ?ys k = sift_list cmp (take k ?ys @ [?ys ! k]) k @ drop (Suc k) ?ys"
      using len by (subst (1) split, intro sift_list_append) simp
    ultimately show ?thesis
      using len k IH(2) mset_sift_list [OF len, of cmp] by (simp add: Let_def)
  qed
qed simp

lemma sort_list_correct:
  "sorted_wrt (\<lambda>x y. cmp x y \<le> 0) (sort_list cmp xs) \<and> mset (sort_list cmp xs) = mset xs"
proof -
  have "length (fold (\<lambda>i xs. sift_list cmp xs i) [1..<length xs] xs) = length xs"
    using sort_list_prefix [of "length xs" xs] by (metis le_refl mset_eq_length)
  then show ?thesis
    using sort_list_prefix [of "length xs" xs] by (simp add: sort_list_def Let_def)
qed

end

section \<open>The array in memory\<close>

definition elem_at :: "addr \<Rightarrow> u64 \<Rightarrow> nat \<Rightarrow> addr" where
  "elem_at arr siz j = arr + of_nat j * siz"

definition elems :: "mem \<Rightarrow> addr \<Rightarrow> u64 \<Rightarrow> nat \<Rightarrow> byte list list" where
  "elems m arr siz n = map (\<lambda>j. read_bytes m (elem_at arr siz j) (unat siz)) [0..<n]"

lemma length_elems [simp]: "length (elems m arr siz n) = n"
  by (simp add: elems_def)

lemma nth_elems: "j < n \<Longrightarrow> elems m arr siz n ! j = read_bytes m (elem_at arr siz j) (unat siz)"
  by (simp add: elems_def)

lemma swap_bytes_upto:
  "separate a n b n \<Longrightarrow> k \<le> n \<Longrightarrow>
   fold (\<lambda>k m. (m(a + of_nat k := m (b + of_nat k)))(b + of_nat k := m (a + of_nat k))) [0..<k] m x
     = (if in_range a k x then m (b + (x - a)) else if in_range b k x then m (a + (x - b)) else m x)"
proof (induction k arbitrary: x)
  case (Suc k)
  let ?m = "fold (\<lambda>k m. (m(a + of_nat k := m (b + of_nat k)))(b + of_nat k := m (a + of_nat k))) [0..<k] m"
  have IH: "?m x = (if in_range a k x then m (b + (x - a))
                    else if in_range b k x then m (a + (x - b)) else m x)" for x
    by (rule Suc.IH) (use Suc.prems in auto)
  have k: "k < 2 ^ 64" using separate_bound [OF Suc.prems(1)] Suc.prems(2) by simp
  have sk: "separate a (Suc k) b (Suc k)" using Suc.prems separate_mono by blast
  note dis = separate_disjoint [OF sk] separate_disjoint [OF separate_sym [OF sk]]
  have a: "in_range a (Suc k) y \<longleftrightarrow> y = a + of_nat k \<or> in_range a k y"
    and b: "in_range b (Suc k) y \<longleftrightarrow> y = b + of_nat k \<or> in_range b k y" for y
    using k by (simp_all add: in_range_Suc_last)
  have na: "\<not> in_range a k (a + of_nat k)" "\<not> in_range b k (b + of_nat k)"
    using k by (simp_all add: in_range_offset)
  have nb: "\<not> in_range b k (a + of_nat k)" "\<not> in_range a k (b + of_nat k)"
    "a + of_nat k \<noteq> b + of_nat k"
    using dis a b by blast+
  have va: "?m (a + of_nat k) = m (a + of_nat k)" and vb: "?m (b + of_nat k) = m (b + of_nat k)"
    using IH na nb by simp_all
  have "fold (\<lambda>k m. (m(a + of_nat k := m (b + of_nat k)))(b + of_nat k := m (a + of_nat k))) [0..<Suc k] m x
      = (if x = b + of_nat k then m (a + of_nat k) else if x = a + of_nat k then m (b + of_nat k) else ?m x)"
    using va vb by simp
  also have "\<dots> = (if in_range a (Suc k) x then m (b + (x - a))
                   else if in_range b (Suc k) x then m (a + (x - b)) else m x)"
  proof -
    consider "x = b + of_nat k" | "x = a + of_nat k" | "x \<noteq> b + of_nat k" "x \<noteq> a + of_nat k" by blast
    then show ?thesis
    proof cases
      case 1
      then have "in_range b (Suc k) x" "\<not> in_range a (Suc k) x" using b dis(2) by blast+
      then show ?thesis using 1 by simp
    next
      case 2
      then have "in_range a (Suc k) x" using a by blast
      then show ?thesis using 2 nb(3) by simp
    next
      case 3
      then have "in_range a (Suc k) x = in_range a k x" "in_range b (Suc k) x = in_range b k x"
        using a b by blast+
      then show ?thesis using 3 IH [of x] by simp
    qed
  qed
  finally show ?case .
qed simp

lemma swap_bytes_spec:
  assumes "separate a n b n"
  shows "read_bytes (swap_bytes m a b n) a n = read_bytes m b n"
    and "read_bytes (swap_bytes m a b n) b n = read_bytes m a n"
    and "\<not> in_range a n x \<Longrightarrow> \<not> in_range b n x \<Longrightarrow> swap_bytes m a b n x = m x"
proof -
  have sw: "swap_bytes m a b n x = (if in_range a n x then m (b + (x - a))
      else if in_range b n x then m (a + (x - b)) else m x)" for x
    unfolding swap_bytes_def by (rule swap_bytes_upto [OF assms order_refl])
  note dis = separate_disjoint [OF separate_sym [OF assms]]
  have i: "i < 2 ^ 64" if "i < n" for i using that separate_bound [OF assms] by simp
  show "read_bytes (swap_bytes m a b n) a n = read_bytes m b n"
  proof (rule read_bytes_cong)
    fix j assume "j < n"
    then have "in_range a n (a + of_nat j)" using i by (simp add: in_range_offset)
    then show "swap_bytes m a b n (a + of_nat j) = m (b + of_nat j)" by (simp add: sw)
  qed
  show "read_bytes (swap_bytes m a b n) b n = read_bytes m a n"
  proof (rule read_bytes_cong)
    fix j assume "j < n"
    then have "in_range b n (b + of_nat j)" using i by (simp add: in_range_offset)
    then show "swap_bytes m a b n (b + of_nat j) = m (a + of_nat j)"
      using dis by (simp add: sw)
  qed
  show "\<not> in_range a n x \<Longrightarrow> \<not> in_range b n x \<Longrightarrow> swap_bytes m a b n x = m x"
    by (simp add: sw)
qed

lemma elem_separate:
  assumes "i < j" "j < n" "n * unat siz \<le> 2 ^ 64" "0 < unat siz"
  shows "separate (elem_at arr siz i) (unat siz) (elem_at arr siz j) (unat siz)"
proof -
  obtain d where d: "j = i + d" "0 < d" using assms(1) less_imp_add_positive by blast
  have diff: "elem_at arr siz j - elem_at arr siz i = of_nat (d * unat siz)"
    by (simp add: elem_at_def d algebra_simps)
  have "(d + 1) * unat siz \<le> n * unat siz"
    using assms(2) d by (intro mult_le_mono1) simp
  then have le: "d * unat siz + unat siz \<le> 2 ^ 64" using assms(3) by simp
  then have lt: "d * unat siz < 2 ^ 64" using assms(4) by linarith
  then have 1: "unat (elem_at arr siz j - elem_at arr siz i) = d * unat siz"
    unfolding diff by (rule unat_of_nat_u64)
  have "0 < d * unat siz" using d(2) assms(4) by simp
  then have "elem_at arr siz j \<noteq> elem_at arr siz i" using 1 by auto
  from unat_diff_swap [OF this]
  have "unat (elem_at arr siz i - elem_at arr siz j) = 2 ^ 64 - d * unat siz"
    using 1 by simp
  moreover have "unat siz \<le> d * unat siz" using d(2) by simp
  ultimately show ?thesis using 1 le by (simp add: separate_def)
qed

lemma read_bytes_frame:
  assumes "\<And>x. in_range q n x \<Longrightarrow> m' x = m x" "n \<le> 2 ^ 64"
  shows "read_bytes m' q n = read_bytes m q n"
proof (rule read_bytes_cong)
  fix i assume "i < n"
  then have "in_range q n (q + of_nat i)" using assms(2) by (simp add: in_range_offset)
  then show "m' (q + of_nat i) = m (q + of_nat i)" by (rule assms(1))
qed

lemma elems_swap:
  assumes "Suc j < n" "n * unat siz \<le> 2 ^ 64" "0 < unat siz"
  shows "elems (swap_bytes m (elem_at arr siz j) (elem_at arr siz (Suc j)) (unat siz)) arr siz n
    = (let xs = elems m arr siz n in xs[j := xs ! Suc j, Suc j := xs ! j])"
proof (rule nth_equalityI)
  let ?a = "elem_at arr siz j" and ?b = "elem_at arr siz (Suc j)"
  let ?m = "swap_bytes m ?a ?b (unat siz)"
  have sep: "separate ?a (unat siz) ?b (unat siz)"
    by (rule elem_separate [of _ _ n]) (use assms in auto)
  note sw = swap_bytes_spec [OF sep, where m = m]
  have sz: "unat siz \<le> 2 ^ 64" by simp
  show "length (elems ?m arr siz n) = length (let xs = elems m arr siz n in xs[j := xs ! Suc j, Suc j := xs ! j])"
    by (simp add: Let_def)
  fix i assume "i < length (elems ?m arr siz n)"
  then have i: "i < n" by simp
  consider "i = j" | "i = Suc j" | "i \<noteq> j" "i \<noteq> Suc j" by blast
  then show "elems ?m arr siz n ! i = (let xs = elems m arr siz n in xs[j := xs ! Suc j, Suc j := xs ! j]) ! i"
  proof cases
    case 1
    then show ?thesis using i assms(1) sw(1) by (simp add: nth_elems Let_def)
  next
    case 2
    then show ?thesis using i assms(1) sw(2) by (simp add: nth_elems Let_def)
  next
    case 3
    have "separate (elem_at arr siz i) (unat siz) (elem_at arr siz k) (unat siz)" if "k \<noteq> i" "k < n" for k
    proof (cases "i < k")
      case False
      then show ?thesis
        using that i assms by (intro separate_sym [OF elem_separate [of k i n]]) auto
    qed (use that assms in \<open>auto intro: elem_separate [of i k n]\<close>)
    then have "separate (elem_at arr siz i) (unat siz) ?a (unat siz)"
      "separate (elem_at arr siz i) (unat siz) ?b (unat siz)" using 3 assms(1) by auto
    then have "?m x = m x" if "in_range (elem_at arr siz i) (unat siz) x" for x
      using sw(3) separate_disjoint that by blast
    then have "read_bytes ?m (elem_at arr siz i) (unat siz) = read_bytes m (elem_at arr siz i) (unat siz)"
      using sz by (rule read_bytes_frame)
    then show ?thesis using 3 i by (simp add: nth_elems Let_def)
  qed
qed

text \<open>The callback looks only at the bytes of the two elements.\<close>

definition compares :: "compar \<Rightarrow> u64 \<Rightarrow> (byte list \<Rightarrow> byte list \<Rightarrow> int) \<Rightarrow> bool" where
  "compares compar siz cmp \<longleftrightarrow>
     (\<forall>m a b. compar m a b = cmp (read_bytes m a (unat siz)) (read_bytes m b (unat siz)))"

definition in_array :: "addr \<Rightarrow> u64 \<Rightarrow> nat \<Rightarrow> addr \<Rightarrow> bool" where
  "in_array arr siz n x \<longleftrightarrow> (\<exists>j<n. in_range (elem_at arr siz j) (unat siz) x)"

lemma qsort_inner_sift:
  assumes cmp: "compares compar siz cmp" and fits: "n * unat siz \<le> 2 ^ 64" and sz: "0 < unat siz"
  shows "unat j < n \<Longrightarrow> n \<le> 2 ^ 64 \<Longrightarrow>
    elems (qsort_inner compar arr siz m j) arr siz n = sift_list cmp (elems m arr siz n) (unat j)
    \<and> (\<forall>x. in_array arr siz n x \<or> qsort_inner compar arr siz m j x = m x)"
proof (induction "unat j" arbitrary: m j)
  case 0
  then have "j = 0" by (simp add: unat_eq_0)
  then show ?case by (simp add: qsort_inner.simps)
next
  case (Suc k)
  note dec = unat_Suc_dec [OF Suc.hyps(2)]
  have j: "j = of_nat (Suc k)" "j - 1 = of_nat k"
    by (simp add: Suc.hyps(2) del: of_nat_Suc, simp flip: dec(2))
  have at: "arr + (j - 1) * siz = elem_at arr siz k" "arr + j * siz = elem_at arr siz (Suc k)"
    by (simp only: elem_at_def j(2), simp only: elem_at_def flip: j(1))
  have step: "qsort_inner compar arr siz m j
    = (let a = elem_at arr siz k; b = elem_at arr siz (Suc k)
       in if compar m a b \<le> 0 then m
          else qsort_inner compar arr siz (swap_bytes m a b (unat siz)) (j - 1))"
    unfolding qsort_inner.simps [of compar arr siz m j] at
    using dec(1) by (simp add: word_greater_zero_iff)
  have kn: "Suc k < n" using Suc.prems Suc.hyps(2) by simp
  have c: "compar m (elem_at arr siz k) (elem_at arr siz (Suc k))
      = cmp (elems m arr siz n ! k) (elems m arr siz n ! Suc k)"
    using cmp kn by (simp add: compares_def nth_elems)
  show ?case
  proof (cases "cmp (elems m arr siz n ! k) (elems m arr siz n ! Suc k) \<le> 0")
    case True
    then show ?thesis by (simp add: step c Let_def flip: Suc.hyps(2))
  next
    case False
    let ?a = "elem_at arr siz k" and ?b = "elem_at arr siz (Suc k)"
    let ?m = "swap_bytes m ?a ?b (unat siz)"
    have sep: "separate ?a (unat siz) ?b (unat siz)"
      by (rule elem_separate [of _ _ n]) (use kn fits sz in auto)
    have out: "?m x = m x" if "\<not> in_array arr siz n x" for x
      by (rule swap_bytes_spec(3) [OF sep]) (use that kn in \<open>auto simp: in_array_def\<close>)
    have rec: "elems (qsort_inner compar arr siz ?m (j - 1)) arr siz n
        = sift_list cmp (elems ?m arr siz n) (unat (j - 1))
      \<and> (\<forall>x. in_array arr siz n x \<or> qsort_inner compar arr siz ?m (j - 1) x = ?m x)"
      by (rule Suc.hyps(1)) (use dec kn Suc.prems(2) in auto)
    have res: "qsort_inner compar arr siz m j = qsort_inner compar arr siz ?m (j - 1)"
      using False by (simp add: step c Let_def)
    have "sift_list cmp (elems m arr siz n) (unat j) = sift_list cmp (elems ?m arr siz n) k"
      using False elems_swap [OF kn fits sz, of m arr] by (simp add: Let_def flip: Suc.hyps(2))
    then show ?thesis unfolding res dec(2) using rec out dec(2) by metis
  qed
qed

lemma qsort_outer_sort:
  assumes cmp: "compares compar siz cmp" and fits: "unat nmemb * unat siz \<le> 2 ^ 64" and sz: "0 < unat siz"
  shows "elems (qsort_outer compar arr nmemb siz m i) arr siz (unat nmemb)
      = fold (\<lambda>i xs. sift_list cmp xs i) [unat i..<unat nmemb] (elems m arr siz (unat nmemb))
    \<and> (\<forall>x. in_array arr siz (unat nmemb) x \<or> qsort_outer compar arr nmemb siz m i x = m x)"
proof (induction "unat nmemb - unat i" arbitrary: m i)
  case 0
  then have "\<not> i < nmemb" by (simp add: word_less_nat_alt)
  then show ?case using 0 by (simp add: qsort_outer.simps)
next
  case (Suc k)
  then have lt: "unat i < unat nmemb" by simp
  then have i1: "unat (i + 1) = Suc (unat i)"
    using unat_less_u64 [of nmemb] by (intro trans [OF _ unatSuc]) (auto simp: add.commute, unat_arith)
  let ?m = "qsort_inner compar arr siz m i"
  note inner = qsort_inner_sift [OF cmp fits sz lt, where m = m and arr = arr]
  have step: "qsort_outer compar arr nmemb siz m i = qsort_outer compar arr nmemb siz ?m (i + 1)"
    using lt by (simp add: qsort_outer.simps [of compar arr nmemb siz m i] word_less_nat_alt)
  have "k = unat nmemb - unat (i + 1)" using Suc.hyps(2) i1 by simp
  note rec = Suc.hyps(1) [OF this, of ?m]
  have "fold (\<lambda>i xs. sift_list cmp xs i) [unat i..<unat nmemb] (elems m arr siz (unat nmemb))
      = fold (\<lambda>i xs. sift_list cmp xs i) [Suc (unat i)..<unat nmemb] (elems ?m arr siz (unat nmemb))"
    using lt inner by (simp add: upt_conv_Cons)
  then show ?case unfolding step using rec inner i1 by (metis unat_le_u64 unat_less_u64 less_imp_le)
qed

lemma qsort_sorts_list:
  assumes "compares compar siz cmp" "unat nmemb * unat siz \<le> 2 ^ 64" "0 < unat siz"
  shows "elems (qsort m base nmemb siz compar) base siz (unat nmemb)
      = sort_list cmp (elems m base siz (unat nmemb))
    \<and> (\<forall>x. in_array base siz (unat nmemb) x \<or> qsort m base nmemb siz compar x = m x)"
  using qsort_outer_sort [OF assms, of base m 1] by (simp add: qsort_def sort_list_def)

context comparator begin

lemma cmp_lt_le: "cmp k x < 0 \<Longrightarrow> cmp x y \<le> 0 \<Longrightarrow> cmp k y < 0"
  using cmp_trans [of x y k] cmp_flip [of k x] cmp_flip [of k y] by linarith

lemma cmp_gt_ge: "0 < cmp k y \<Longrightarrow> cmp x y \<le> 0 \<Longrightarrow> 0 < cmp k x"
  using cmp_trans [of k x y] by linarith

lemma bsearch_loop_finds:
  assumes c: "compares compar siz cmp"
    and sorted: "\<And>i j. i < j \<Longrightarrow> j < n \<Longrightarrow> cmp (elems m arr siz n ! i) (elems m arr siz n ! j) \<le> 0"
  shows "unat lo \<le> unat hi \<Longrightarrow> unat hi \<le> n \<Longrightarrow>
    \<forall>j < unat lo. 0 < cmp (read_bytes m key (unat siz)) (elems m arr siz n ! j) \<Longrightarrow>
    \<forall>j < n. unat hi \<le> j \<longrightarrow> cmp (read_bytes m key (unat siz)) (elems m arr siz n ! j) < 0 \<Longrightarrow>
    r = bsearch_loop compar m key arr siz lo hi \<Longrightarrow>
    (\<exists>j<n. r = elem_at arr siz j \<and> cmp (read_bytes m key (unat siz)) (elems m arr siz n ! j) = 0)
    \<or> (r = NULL \<and> (\<forall>j<n. cmp (read_bytes m key (unat siz)) (elems m arr siz n ! j) \<noteq> 0))"
proof (induction "unat hi - unat lo" arbitrary: lo hi rule: less_induct)
  case less
  let ?K = "read_bytes m key (unat siz)" and ?e = "\<lambda>j. elems m arr siz n ! j"
  show ?case
  proof (cases "lo < hi")
    case False
    then have "unat lo = unat hi" using less.prems(1) by (simp add: word_less_nat_alt)
    moreover have "r = NULL" using False less.prems(5) by (simp add: bsearch_loop.simps)
    ultimately show ?thesis using less.prems(3,4) by (metis less_irrefl linorder_not_less)
  next
    case True
    define mid where "mid = lo + (hi - lo) div 2"
    have mid: "unat lo \<le> unat mid" "unat mid < unat hi"
      using bsearch_mid [OF True] by (simp_all add: mid_def word_less_nat_alt word_le_nat_alt)
    have mid1: "unat (mid + 1) = Suc (unat mid)"
      using mid(2) unat_less_u64 [of hi] by unat_arith
    have addr: "arr + mid * siz = elem_at arr siz (unat mid)" by (simp add: elem_at_def)
    have val: "compar m key (elem_at arr siz (unat mid)) = cmp ?K (?e (unat mid))"
      using c mid less.prems(2) by (simp add: compares_def nth_elems)
    have r: "r = (if cmp ?K (?e (unat mid)) < 0 then bsearch_loop compar m key arr siz lo mid
                  else if 0 < cmp ?K (?e (unat mid)) then bsearch_loop compar m key arr siz (mid + 1) hi
                  else elem_at arr siz (unat mid))"
      using True less.prems(5)
      by (simp add: bsearch_loop.simps [of compar m key arr siz lo hi] Let_def addr val flip: mid_def)
    consider "cmp ?K (?e (unat mid)) < 0" | "0 < cmp ?K (?e (unat mid))" | "cmp ?K (?e (unat mid)) = 0"
      by linarith
    then show ?thesis
    proof cases
      case 1
      have "cmp ?K (?e j) < 0" if "j < n" "unat mid \<le> j" for j
        using that 1 sorted [of "unat mid" j] cmp_lt_le [OF 1] by (cases "j = unat mid") auto
      moreover have "r = bsearch_loop compar m key arr siz lo mid" using r 1 by simp
      ultimately show ?thesis
        using less.hyps [of mid lo] mid less.prems(2,3) by simp
    next
      case 2
      have "0 < cmp ?K (?e j)" if "j < unat (mid + 1)" for j
        using that 2 sorted [of j "unat mid"] cmp_gt_ge [OF 2] mid less.prems(2) mid1
        by (cases "j = unat mid") auto
      moreover have "r = bsearch_loop compar m key arr siz (mid + 1) hi" using r 2 by simp
      ultimately show ?thesis
        using less.hyps [of hi "mid + 1"] mid mid1 less.prems(2,4) by simp
    next
      case 3
      then show ?thesis using r mid(2) less.prems(2) by auto
    qed
  qed
qed

end

section \<open>memcmp as a comparison callback\<close>

lemma memcmp_ref_flip: "memcmp_ref xs ys < 0 \<longleftrightarrow> 0 < memcmp_ref ys xs"
  by (induction xs ys rule: memcmp_ref.induct) auto

text \<open>For blocks of different lengths a comparison orders by length first.\<close>

definition block_cmp :: "byte list \<Rightarrow> byte list \<Rightarrow> int" where
  "block_cmp xs ys = (if length xs = length ys then memcmp_ref (butlast xs) (butlast ys)
                      else int (length xs) - int (length ys))"

lemma memcmp_ref_trans:
  "length xs = length ys \<Longrightarrow> length ys = length zs \<Longrightarrow>
   memcmp_ref xs ys \<le> 0 \<Longrightarrow> memcmp_ref ys zs \<le> 0 \<Longrightarrow> memcmp_ref xs zs \<le> 0"
proof (induction xs ys zs rule: list_induct3)
  case (Cons x xs y ys z zs)
  then show ?case by (auto simp: word_uint_eq_iff split: if_splits)
qed simp

interpretation block: comparator block_cmp
proof
  show "block_cmp x y < 0 \<longleftrightarrow> 0 < block_cmp y x" for x y
    by (simp add: block_cmp_def memcmp_ref_flip)
  show "block_cmp x y \<le> 0 \<Longrightarrow> block_cmp y z \<le> 0 \<Longrightarrow> block_cmp x z \<le> 0" for x y z
    using memcmp_ref_trans [of "butlast x" "butlast y" "butlast z"]
    by (auto simp: block_cmp_def split: if_splits)
qed

lemma read_bytes_butlast: "butlast (read_bytes m p n) = read_bytes m p (n - 1)"
  by (cases n) (simp_all only: read_bytes_Suc_last butlast_snoc diff_Suc_1 read_bytes.simps butlast.simps diff_0_eq_0)

lemma memcmp_compares: "compares (\<lambda>m a b. memcmp m a b siz) siz block_cmp"
  by (simp add: compares_def memcmp_char block_cmp_def read_bytes_butlast)

section \<open>Properties\<close>

text \<open>
  C37: with a callback that is a total preorder on the elements' bytes, \<open>qsort\<close> leaves the
  elements in order, a permutation of what they were, and changes no byte outside the array.
\<close>
theorem qsort_sorts:
  assumes "comparator cmp" "compares compar siz cmp"
    and "unat nmemb * unat siz \<le> 2 ^ 64" "0 < unat siz"
  shows "(let m' = qsort m base nmemb siz compar; n = unat nmemb
     in sorted_wrt (\<lambda>x y. cmp x y \<le> 0) (elems m' base siz n)
        \<and> mset (elems m' base siz n) = mset (elems m base siz n)
        \<and> (\<forall>x. in_array base siz n x \<or> m' x = m x))"
  using qsort_sorts_list [OF assms(2-4), of m base] comparator.sort_list_correct [OF assms(1)]
  by (simp add: Let_def)

theorem qsort_sorts_witness:
  "let demo = write_bytes (\<lambda>_. 0) 16 [3, 0, 1, 0, 2, 0] in (let m' = qsort demo 16 3 2 (\<lambda>m a b. memcmp m a b 2); n = unat (3 :: u64)
     in sorted_wrt (\<lambda>x y. block_cmp x y \<le> 0) (elems m' 16 2 n)
        \<and> mset (elems m' 16 2 n) = mset (elems demo 16 2 n)
        \<and> (\<forall>x. in_array 16 2 n x \<or> m' x = demo x))"
  unfolding Let_def [of "write_bytes _ _ _"]
  by (rule qsort_sorts [OF block.comparator_axioms memcmp_compares]) simp_all

text \<open>
  on a sorted array \<open>bsearch\<close> returns an element the callback finds equal to the key, and
  NULL exactly when there is none.
\<close>
lemma bsearch_finds:
  assumes "comparator cmp" "compares compar siz cmp"
    and "sorted_wrt (\<lambda>x y. cmp x y \<le> 0) (elems m base siz (unat nmemb))"
  shows "(let r = bsearch m key base nmemb siz compar; k = read_bytes m key (unat siz)
     in (\<exists>j < unat nmemb. r = elem_at base siz j \<and> cmp k (elems m base siz (unat nmemb) ! j) = 0)
        \<or> (r = NULL \<and> (\<forall>j < unat nmemb. cmp k (elems m base siz (unat nmemb) ! j) \<noteq> 0)))"
proof -
  have "cmp (elems m base siz (unat nmemb) ! i) (elems m base siz (unat nmemb) ! j) \<le> 0"
    if "i < j" "j < unat nmemb" for i j
    using that assms(3) by (simp add: sorted_wrt_iff_nth_less)
  from comparator.bsearch_loop_finds [OF assms(1,2) this, of 0 nmemb key
      "bsearch m key base nmemb siz compar"]
  show ?thesis by (simp add: bsearch_def Let_def)
qed

theorem bsearch_finds_witness:
  "let m = write_bytes (\<lambda>_. 0) 16 [1, 0, 2, 0, 3, 0]
   in (let r = bsearch m 18 16 3 2 (\<lambda>m a b. memcmp m a b 2); k = read_bytes m 18 (unat (2 :: u64))
     in (\<exists>j < unat (3 :: u64). r = elem_at 16 2 j \<and> block_cmp k (elems m 16 2 (unat (3 :: u64)) ! j) = 0)
        \<or> (r = NULL \<and> (\<forall>j < unat (3 :: u64). block_cmp k (elems m 16 2 (unat (3 :: u64)) ! j) \<noteq> 0)))"
  unfolding Let_def [of "write_bytes _ _ _"]
proof (rule bsearch_finds [OF block.comparator_axioms memcmp_compares])
  have "[0..<3] = [0, 1, 2 :: nat]" by (simp add: upt_rec)
  moreover have "read_bytes m p 2 = [m p, m (p + 1)]" for m p by (simp add: numeral_2_eq_2)
  ultimately show "sorted_wrt (\<lambda>x y. block_cmp x y \<le> 0)
      (elems (write_bytes (\<lambda>_. 0) 16 [1, 0, 2, 0, 3, 0]) 16 2 (unat (3 :: u64)))"
    by (simp add: elems_def elem_at_def block_cmp_def)
qed

end
