(* ===== verification/Sha512.thy ===== *)
theory Sha512
  imports Pal_Memory
begin

text \<open>
  The SHA-512 of \<open>wamr-pal/sha512_simple.c\<close>, which hashes the environment snapshot for
  differential attestation.  The local arrays of the C code (\<open>state\<close>, \<open>W\<close>, \<open>block\<close>) are lists;
  the message is read from memory and the digest written to it.  The reference is the standard's
  description: pad the message, cut it into blocks, fold the compression over them.
\<close>

section \<open>The code\<close>

definition rotr64 :: "u64 \<Rightarrow> nat \<Rightarrow> u64" where
  "rotr64 x n = (drop_bit n x) OR (push_bit (64 - n) x)"

definition sha_ch :: "u64 \<Rightarrow> u64 \<Rightarrow> u64 \<Rightarrow> u64" where
  "sha_ch x y z = (x AND y) XOR (NOT x AND z)"

definition sha_maj :: "u64 \<Rightarrow> u64 \<Rightarrow> u64 \<Rightarrow> u64" where
  "sha_maj x y z = (x AND y) XOR (x AND z) XOR (y AND z)"

definition sigma0 :: "u64 \<Rightarrow> u64" where
  "sigma0 x = rotr64 x 28 XOR rotr64 x 34 XOR rotr64 x 39"

definition sigma1 :: "u64 \<Rightarrow> u64" where
  "sigma1 x = rotr64 x 14 XOR rotr64 x 18 XOR rotr64 x 41"

definition gamma0 :: "u64 \<Rightarrow> u64" where
  "gamma0 x = rotr64 x 1 XOR rotr64 x 8 XOR drop_bit 7 x"

definition gamma1 :: "u64 \<Rightarrow> u64" where
  "gamma1 x = rotr64 x 19 XOR rotr64 x 61 XOR drop_bit 6 x"

definition sha_K :: "u64 list" where
  "sha_K = [
    0x428a2f98d728ae22, 0x7137449123ef65cd, 0xb5c0fbcfec4d3b2f, 0xe9b5dba58189dbbc,
    0x3956c25bf348b538, 0x59f111f1b605d019, 0x923f82a4af194f9b, 0xab1c5ed5da6d8118,
    0xd807aa98a3030242, 0x12835b0145706fbe, 0x243185be4ee4b28c, 0x550c7dc3d5ffb4e2,
    0x72be5d74f27b896f, 0x80deb1fe3b1696b1, 0x9bdc06a725c71235, 0xc19bf174cf692694,
    0xe49b69c19ef14ad2, 0xefbe4786384f25e3, 0x0fc19dc68b8cd5b5, 0x240ca1cc77ac9c65,
    0x2de92c6f592b0275, 0x4a7484aa6ea6e483, 0x5cb0a9dcbd41fbd4, 0x76f988da831153b5,
    0x983e5152ee66dfab, 0xa831c66d2db43210, 0xb00327c898fb213f, 0xbf597fc7beef0ee4,
    0xc6e00bf33da88fc2, 0xd5a79147930aa725, 0x06ca6351e003826f, 0x142929670a0e6e70,
    0x27b70a8546d22ffc, 0x2e1b21385c26c926, 0x4d2c6dfc5ac42aed, 0x53380d139d95b3df,
    0x650a73548baf63de, 0x766a0abb3c77b2a8, 0x81c2c92e47edaee6, 0x92722c851482353b,
    0xa2bfe8a14cf10364, 0xa81a664bbc423001, 0xc24b8b70d0f89791, 0xc76c51a30654be30,
    0xd192e819d6ef5218, 0xd69906245565a910, 0xf40e35855771202a, 0x106aa07032bbd1b8,
    0x19a4c116b8d2d0c8, 0x1e376c085141ab53, 0x2748774cdf8eeb99, 0x34b0bcb5e19b48a8,
    0x391c0cb3c5c95a63, 0x4ed8aa4ae3418acb, 0x5b9cca4f7763e373, 0x682e6ff3d6b2b8a3,
    0x748f82ee5defb2fc, 0x78a5636f43172f60, 0x84c87814a1f0ab72, 0x8cc702081a6439ec,
    0x90befffa23631e28, 0xa4506cebde82bde9, 0xbef9a3f7b2c67915, 0xc67178f2e372532b,
    0xca273eceea26619c, 0xd186b8c721c0c207, 0xeada7dd6cde0eb1e, 0xf57d4f7fee6ed178,
    0x06f067aa72176fba, 0x0a637dc5a2c898a6, 0x113f9804bef90dae, 0x1b710b35131c471b,
    0x28db77f523047d84, 0x32caab7b40c72493, 0x3c9ebe0a15c9bebc, 0x431d67c49c100d4c,
    0x4cc5d4becb3e42b6, 0x597f299cfc657e2a, 0x5fcb6fab3ad6faec, 0x6c44198c4a475817]"

definition sha_H0 :: "u64 list" where
  "sha_H0 = [
    0x6a09e667f3bcc908, 0xbb67ae8584caa73b, 0x3c6ef372fe94f82b, 0xa54ff53a5f1d36f1,
    0x510e527fade682d1, 0x9b05688c2b3e6c1f, 0x1f83d9abfb41bd6b, 0x5be0cd19137e2179]"

definition store_be64 :: "u64 \<Rightarrow> byte list" where
  "store_be64 v =
     [ucast (drop_bit 56 v), ucast (drop_bit 48 v), ucast (drop_bit 40 v), ucast (drop_bit 32 v),
      ucast (drop_bit 24 v), ucast (drop_bit 16 v), ucast (drop_bit 8 v), ucast v]"

definition load_be64 :: "byte list \<Rightarrow> u64" where
  "load_be64 src =
     push_bit 56 (ucast (src ! 0)) OR push_bit 48 (ucast (src ! 1)) OR
     push_bit 40 (ucast (src ! 2)) OR push_bit 32 (ucast (src ! 3)) OR
     push_bit 24 (ucast (src ! 4)) OR push_bit 16 (ucast (src ! 5)) OR
     push_bit 8 (ucast (src ! 6)) OR ucast (src ! 7)"

text \<open>The two loops that fill \<open>W\<close>, each entry appended in turn.\<close>

definition sha_schedule :: "byte list \<Rightarrow> u64 list" where
  "sha_schedule block =
     fold (\<lambda>t W. W @ [gamma1 (W ! (t - 2)) + W ! (t - 7) + gamma0 (W ! (t - 15)) + W ! (t - 16)])
       [16..<80] (map (\<lambda>t. load_be64 (drop (t * 8) block)) [0..<16])"

type_synonym sha_vars = "u64 \<times> u64 \<times> u64 \<times> u64 \<times> u64 \<times> u64 \<times> u64 \<times> u64"

definition sha_round :: "u64 \<Rightarrow> u64 \<Rightarrow> sha_vars \<Rightarrow> sha_vars" where
  "sha_round k w v =
     (case v of (a, b, c, d, e, f, g, h) \<Rightarrow>
        let T1 = h + sigma1 e + sha_ch e f g + k + w;
            T2 = sigma0 a + sha_maj a b c
        in (T1 + T2, a, b, c, d + T1, e, f, g))"

definition sha512_transform :: "u64 list \<Rightarrow> byte list \<Rightarrow> u64 list" where
  "sha512_transform state block =
     (let W = sha_schedule block;
          v = (state ! 0, state ! 1, state ! 2, state ! 3, state ! 4, state ! 5, state ! 6, state ! 7);
          (a, b, c, d, e, f, g, h) = fold (\<lambda>t. sha_round (sha_K ! t) (W ! t)) [0..<80] v
      in [state ! 0 + a, state ! 1 + b, state ! 2 + c, state ! 3 + d,
          state ! 4 + e, state ! 5 + f, state ! 6 + g, state ! 7 + h])"

function sha512_blocks :: "mem \<Rightarrow> u64 list \<Rightarrow> addr \<Rightarrow> u64 \<Rightarrow> u64 list \<times> addr \<times> u64" where
  "sha512_blocks m state src remaining =
     (if 128 \<le> remaining
      then sha512_blocks m (sha512_transform state (read_bytes m src 128)) (src + 128) (remaining - 128)
      else (state, src, remaining))"
  by pat_completeness auto
termination
  by (relation "measure (\<lambda>(m, state, src, remaining). unat remaining)")
    (auto simp: word_le_nat_alt unat_sub)

declare sha512_blocks.simps [simp del]

text \<open>The padding of the last block or two, and the digest.\<close>

definition sha512_finish :: "u64 list \<Rightarrow> byte list \<Rightarrow> u64 \<Rightarrow> u64 list" where
  "sha512_finish state tail len =
     (let remaining = length tail;
          block = tail @ [0x80] @ replicate (128 - (remaining + 1)) 0;
          (state, block) = (if remaining \<ge> 112
                            then (sha512_transform state block, replicate 128 0) else (state, block));
          block = take 112 block @ store_be64 0 @ store_be64 (len * 8)
      in sha512_transform state block)"

definition sha512_simple :: "mem \<Rightarrow> addr \<Rightarrow> u64 \<Rightarrow> addr \<Rightarrow> mem" where
  "sha512_simple m data len digest =
     (let (state, src, remaining) = sha512_blocks m sha_H0 data len;
          state = sha512_finish state (read_bytes m src (unat remaining)) len
      in fold (\<lambda>i m. write_bytes m (digest + of_nat (i * 8)) (store_be64 (state ! i))) [0..<8] m)"

section \<open>Big-endian words\<close>

lemma eight: "(8 :: nat) = Suc (Suc (Suc (Suc (Suc (Suc (Suc (Suc 0)))))))"
  by simp

lemma store_be64_rev: "store_be64 v = rev (le_bytes 8 v)"
  unfolding eight by (simp add: store_be64_def drop_bit_drop_bit)

lemma load_be64_rev: "length bs = 8 \<Longrightarrow> load_be64 bs = le_word (rev bs)"
proof -
  assume "length bs = 8"
  then obtain b0 b1 b2 b3 b4 b5 b6 b7 where bs: "bs = [b0, b1, b2, b3, b4, b5, b6, b7]"
    unfolding eight by (auto simp: length_Suc_conv)
  have push: "push_bit 8 (x OR y) = push_bit 8 x OR push_bit 8 (y :: u64)" for x y
    by (rule bit_eqI) (auto simp: bit_simps)
  show ?thesis
    by (simp add: bs load_be64_def push push_bit_push_bit or.assoc or.commute or.left_commute)
qed

lemma load_store_be64: "load_be64 (store_be64 v) = v"
  by (simp add: load_be64_rev store_be64_rev le_word_le_bytes take_bit_full)

section \<open>The standard's description\<close>

function sha_W :: "byte list \<Rightarrow> nat \<Rightarrow> u64" where
  "sha_W block t =
     (if t < 16 then load_be64 (drop (t * 8) block)
      else gamma1 (sha_W block (t - 2)) + sha_W block (t - 7)
           + gamma0 (sha_W block (t - 15)) + sha_W block (t - 16))"
  by pat_completeness auto
termination by (relation "measure snd") auto

declare sha_W.simps [simp del]

definition sha_compress :: "u64 list \<Rightarrow> byte list \<Rightarrow> u64 list" where
  "sha_compress H block =
     (case fold (\<lambda>t. sha_round (sha_K ! t) (sha_W block t)) [0..<80]
             (H ! 0, H ! 1, H ! 2, H ! 3, H ! 4, H ! 5, H ! 6, H ! 7) of
        (a, b, c, d, e, f, g, h) \<Rightarrow> map2 (+) H [a, b, c, d, e, f, g, h])"

text \<open>A single 1 bit, zeros up to 112 bytes modulo 128, and the length in bits as 128 bits.\<close>

definition sha_pad :: "byte list \<Rightarrow> byte list" where
  "sha_pad msg =
     msg @ [0x80] @ replicate ((239 - length msg mod 128) mod 128) 0
         @ store_be64 (of_nat (8 * length msg div 2 ^ 64)) @ store_be64 (of_nat (8 * length msg))"

function sha_chunks :: "byte list \<Rightarrow> byte list list" where
  "sha_chunks xs = (if xs = [] then [] else take 128 xs # sha_chunks (drop 128 xs))"
  by pat_completeness auto
termination by (relation "measure length") auto

declare sha_chunks.simps [simp del]

definition sha512_ref :: "byte list \<Rightarrow> byte list" where
  "sha512_ref msg = concat (map store_be64 (foldl sha_compress sha_H0 (sha_chunks (sha_pad msg))))"

section \<open>The code computes it\<close>

lemma sha_schedule_upto:
  "n \<le> 80 \<Longrightarrow> 16 \<le> n \<Longrightarrow>
   fold (\<lambda>t W. W @ [gamma1 (W ! (t - 2)) + W ! (t - 7) + gamma0 (W ! (t - 15)) + W ! (t - 16)])
     [16..<n] (map (\<lambda>t. load_be64 (drop (t * 8) block)) [0..<16]) = map (sha_W block) [0..<n]"
proof (induction n)
  case (Suc n)
  show ?case
  proof (cases "n < 16")
    case True
    then have "n = 15" using Suc.prems by simp
    then show ?thesis by (simp add: sha_W.simps)
  next
    case False
    have "sha_W block n = gamma1 (sha_W block (n - 2)) + sha_W block (n - 7)
           + gamma0 (sha_W block (n - 15)) + sha_W block (n - 16)"
      using False by (simp add: sha_W.simps [of block n])
    then show ?thesis using False Suc by simp
  qed
qed simp

lemma sha_schedule_W: "sha_schedule block = map (sha_W block) [0..<80]"
  unfolding sha_schedule_def by (rule sha_schedule_upto) simp_all

lemma transform_compress:
  assumes "length H = 8"
  shows "sha512_transform H block = sha_compress H block"
proof -
  obtain h0 h1 h2 h3 h4 h5 h6 h7 where H: "H = [h0, h1, h2, h3, h4, h5, h6, h7]"
    using assms unfolding eight by (auto simp: length_Suc_conv)
  have "fold (\<lambda>t. sha_round (sha_K ! t) (map (sha_W block) [0..<80] ! t)) [0..<80] v
      = fold (\<lambda>t. sha_round (sha_K ! t) (sha_W block t)) [0..<80] v" for v
    by (rule fold_cong) auto
  then show ?thesis
    unfolding sha512_transform_def sha_compress_def sha_schedule_W Let_def
    by (simp add: H split: prod.splits)
qed

lemma length_compress [simp]: "length H = 8 \<Longrightarrow> length (sha_compress H block) = 8"
  by (simp add: sha_compress_def split: prod.splits)

lemma chunks_block: "length b = 128 \<Longrightarrow> sha_chunks (b @ xs) = b # sha_chunks xs"
  by (subst sha_chunks.simps) auto

lemma sha512_blocks_fold:
  "length H = 8 \<Longrightarrow> sha512_blocks m H src remaining = (H', src', r) \<Longrightarrow>
   length H' = 8 \<and> unat r = unat remaining mod 128 \<and>
   foldl sha_compress H (sha_chunks (read_bytes m src (unat remaining) @ xs))
     = foldl sha_compress H' (sha_chunks (read_bytes m src' (unat r) @ xs))"
proof (induction m H src remaining rule: sha512_blocks.induct)
  case (1 m H src remaining)
  show ?case
  proof (cases "128 \<le> remaining")
    case False
    then have "unat remaining < 128" by (simp add: word_le_nat_alt)
    with False 1 show ?thesis by (simp add: sha512_blocks.simps [of m H])
  next
    case True
    have un: "unat (remaining - 128) = unat remaining - 128" "128 \<le> unat remaining"
      using True by (simp_all add: unat_sub word_le_nat_alt)
    let ?H = "sha_compress H (read_bytes m src 128)"
    have rec: "sha512_blocks m ?H (src + 128) (remaining - 128) = (H', src', r)"
      using 1 True by (simp add: sha512_blocks.simps [of m H] transform_compress)
    have "read_bytes m src (unat remaining)
        = read_bytes m src 128 @ read_bytes m (src + 128) (unat (remaining - 128))"
      using read_bytes_add [of m src 128 "unat remaining - 128"] un by simp
    moreover have "unat r = unat remaining mod 128"
      using 1 True rec un by (simp add: transform_compress le_mod_geq)
    ultimately show ?thesis
      using 1 True rec by (simp add: transform_compress chunks_block)
  qed
qed

lemma sha512_finish_fold:
  assumes "length H = 8" "length tail < 128" "length tail = unat len mod 128" "unat len < 2 ^ 61"
    and "xs = [0x80] @ replicate ((239 - unat len mod 128) mod 128) 0
         @ store_be64 (of_nat (8 * unat len div 2 ^ 64)) @ store_be64 (of_nat (8 * unat len))"
  shows "sha512_finish H tail len = foldl sha_compress H (sha_chunks (tail @ xs))"
proof -
  let ?n = "length tail"
  let ?fin = "store_be64 0 @ store_be64 (len * 8)"
  have len8: "of_nat (8 * unat len) = len * 8" by (simp add: mult.commute)
  have hi: "8 * unat len div 2 ^ 64 = 0" using assms(4) by simp
  have xs: "xs = [0x80] @ replicate ((239 - ?n) mod 128) 0 @ ?fin"
    unfolding assms(5) len8 hi using assms(3) by simp
  have le: "length ?fin = 16" by (simp add: store_be64_def)
  have nil: "sha_chunks [] = []" by (simp add: sha_chunks.simps)
  show ?thesis
  proof (cases "112 \<le> ?n")
    case False
    then have k: "(239 - ?n) mod 128 = 111 - ?n" using mod_add_self2 [of "111 - ?n" 128] by simp
    have "length (tail @ xs) = 128" using False k le xs by simp
    then have "sha_chunks (tail @ xs) = [tail @ xs]"
      using chunks_block [of "tail @ xs" "[]"] nil by simp
    moreover have "take 112 (tail @ [0x80] @ replicate (127 - ?n) 0) @ ?fin = tail @ xs"
    proof -
      have "112 - ?n = Suc (111 - ?n)" using False by simp
      then show ?thesis using False k xs by (simp add: min_def)
    qed
    ultimately show ?thesis
      using False assms(1) by (simp add: sha512_finish_def transform_compress Let_def)
  next
    case True
    have k: "(239 - ?n) mod 128 = (127 - ?n) + 112" using True assms(2) by simp
    let ?b = "tail @ [0x80] @ replicate (127 - ?n) 0"
    have split: "tail @ xs = ?b @ (replicate 112 0 @ ?fin)"
      unfolding xs k replicate_add by simp
    have "length ?b = 128" "length (replicate 112 (0 :: byte) @ ?fin) = 128"
      using assms(2) le by simp_all
    then have "sha_chunks (tail @ xs) = [?b, replicate 112 0 @ ?fin]"
      unfolding split using chunks_block [of "replicate 112 0 @ ?fin" "[]"] nil
      by (simp add: chunks_block del: append.simps append_assoc)
    then show ?thesis
      using True assms(1,2) by (simp add: sha512_finish_def transform_compress Let_def)
  qed
qed

lemma write_digest:
  "n \<le> length xs \<Longrightarrow>
   fold (\<lambda>i m. write_bytes m (p + of_nat (i * 8)) (store_be64 (xs ! i))) [0..<n] m
     = write_bytes m p (concat (map store_be64 (take n xs)))"
proof (induction n)
  case (Suc n)
  have "length (concat (map store_be64 (take n xs))) = n * 8"
    using Suc.prems by (simp add: length_concat store_be64_def comp_def sum_list_triv min_def)
  then show ?case using Suc by (simp add: take_Suc_conv_app_nth write_bytes_append)
qed simp

lemma sha512_simple_ref:
  assumes "unat len < 2 ^ 61"
  shows "sha512_simple m data len digest
           = write_bytes m digest (sha512_ref (read_bytes m data (unat len)))
         \<and> length (sha512_ref (read_bytes m data (unat len))) = 64"
proof -
  let ?msg = "read_bytes m data (unat len)"
  obtain H src r where b: "sha512_blocks m sha_H0 data len = (H, src, r)"
    by (cases "sha512_blocks m sha_H0 data len")
  define xs where "xs = [0x80] @ replicate ((239 - unat len mod 128) mod 128) 0
         @ store_be64 (of_nat (8 * unat len div 2 ^ 64)) @ store_be64 (of_nat (8 * unat len))"
  have "length sha_H0 = 8" by (simp add: sha_H0_def)
  note blocks = sha512_blocks_fold [OF this b, of xs]
  let ?tail = "read_bytes m src (unat r)"
  have "sha512_finish H ?tail len = foldl sha_compress H (sha_chunks (?tail @ xs))"
    by (rule sha512_finish_fold) (use blocks assms xs_def in auto)
  moreover have "?msg @ xs = sha_pad ?msg" by (simp add: xs_def sha_pad_def)
  ultimately have fin: "sha512_finish H ?tail len = foldl sha_compress sha_H0 (sha_chunks (sha_pad ?msg))"
    using blocks by simp
  have "length (foldl sha_compress H bs) = 8" if "length H = 8" for H bs
    using that by (induction bs arbitrary: H) auto
  then have len: "length (foldl sha_compress sha_H0 bs) = 8" for bs by (simp add: sha_H0_def)
  have "sha512_simple m data len digest = write_bytes m digest (sha512_ref ?msg)"
    using write_digest [of 8 "foldl sha_compress sha_H0 (sha_chunks (sha_pad ?msg))" digest m] len
    by (simp add: sha512_simple_def b fin sha512_ref_def)
  moreover have "length (sha512_ref ?msg) = 64"
    by (simp add: sha512_ref_def length_concat store_be64_def comp_def sum_list_triv len)
  ultimately show ?thesis by blast
qed

section \<open>Properties\<close>



end
