(* ===== verification/Pal_Heap.thy ===== *)
theory Pal_Heap
  imports Monitor_Call
begin

text \<open>
  \<open>wamr-pal/pal_malloc.c\<close>: the heap of VMPL1, a fixed 16 MB region obtained from the monitor and
  handed to dlmalloc, and the two string functions of \<open>pal_string.c\<close> that allocate from it.
  dlmalloc is third-party code: its mspace interface is the parameter record \<open>dlmalloc\<close>.  The log
  messages of \<open>pal_heap_init\<close> are left out; they only produce console output.
\<close>

section \<open>State and interface\<close>

record 'x dlmalloc =
  create_mspace_with_base :: "addr \<Rightarrow> u64 \<Rightarrow> int \<Rightarrow> 'x machine \<Rightarrow> addr \<times> 'x machine"
  mspace_malloc :: "addr \<Rightarrow> u64 \<Rightarrow> 'x machine \<Rightarrow> addr \<times> 'x machine"
  mspace_free :: "addr \<Rightarrow> addr \<Rightarrow> 'x machine \<Rightarrow> 'x machine"
  mspace_realloc :: "addr \<Rightarrow> addr \<Rightarrow> u64 \<Rightarrow> 'x machine \<Rightarrow> addr \<times> 'x machine"
  mspace_calloc :: "addr \<Rightarrow> u64 \<Rightarrow> u64 \<Rightarrow> 'x machine \<Rightarrow> addr \<times> 'x machine"
  destroy_mspace :: "addr \<Rightarrow> 'x machine \<Rightarrow> 'x machine"
  mspace_track_large_chunks :: "addr \<Rightarrow> int \<Rightarrow> 'x machine \<Rightarrow> 'x machine"

record heap_globals =
  g_mspace :: addr
  g_heap_initialized :: bool

definition heap_start :: heap_globals where
  "heap_start = \<lparr>g_mspace = NULL, g_heap_initialized = False\<rparr>"

definition HEAP_BASE_ADDR :: addr where
  "HEAP_BASE_ADDR = 0x4000000000"

definition HEAP_SIZE :: u64 where
  "HEAP_SIZE = 16 * 1024 * 1024"

definition HEAP_PROT_FLAGS :: u64 where
  "HEAP_PROT_FLAGS = 0x3"

section \<open>Operations\<close>

definition pal_heap_init ::
  "'x svsm \<Rightarrow> 'x dlmalloc \<Rightarrow> heap_globals \<Rightarrow> 'x machine \<Rightarrow> int \<times> heap_globals \<times> 'x machine" where
  "pal_heap_init svsm dl g s =
     (if g_heap_initialized g then (0, g, s)
      else (let (ret, s) = pal_svsm_virt_alloc svsm HEAP_BASE_ADDR HEAP_SIZE HEAP_PROT_FLAGS s
            in if ret \<noteq> 0 then (- 1, g, s)
               else (let s = s\<lparr>mem := snd (memset (mem s) HEAP_BASE_ADDR 0 HEAP_SIZE)\<rparr>;
                         (msp, s) = create_mspace_with_base dl HEAP_BASE_ADDR HEAP_SIZE 0 s;
                         g = g\<lparr>g_mspace := msp\<rparr>
                     in if msp = NULL then (- 1, g, s)
                        else (0, g\<lparr>g_heap_initialized := True\<rparr>, s))))"

definition pal_malloc :: "'x dlmalloc \<Rightarrow> heap_globals \<Rightarrow> u64 \<Rightarrow> 'x machine \<Rightarrow> addr \<times> 'x machine" where
  "pal_malloc dl g siz s =
     (if \<not> g_heap_initialized g \<or> g_mspace g = NULL then (NULL, s)
      else mspace_malloc dl (g_mspace g) siz s)"

definition pal_free :: "'x dlmalloc \<Rightarrow> heap_globals \<Rightarrow> addr \<Rightarrow> 'x machine \<Rightarrow> 'x machine" where
  "pal_free dl g ptr s =
     (if \<not> g_heap_initialized g \<or> g_mspace g = NULL \<or> ptr = NULL then s
      else mspace_free dl (g_mspace g) ptr s)"

definition pal_realloc ::
  "'x dlmalloc \<Rightarrow> heap_globals \<Rightarrow> addr \<Rightarrow> u64 \<Rightarrow> 'x machine \<Rightarrow> addr \<times> 'x machine" where
  "pal_realloc dl g ptr siz s =
     (if \<not> g_heap_initialized g \<or> g_mspace g = NULL then (NULL, s)
      else mspace_realloc dl (g_mspace g) ptr siz s)"

definition pal_calloc ::
  "'x dlmalloc \<Rightarrow> heap_globals \<Rightarrow> u64 \<Rightarrow> u64 \<Rightarrow> 'x machine \<Rightarrow> addr \<times> 'x machine" where
  "pal_calloc dl g nmemb siz s =
     (if \<not> g_heap_initialized g \<or> g_mspace g = NULL then (NULL, s)
      else mspace_calloc dl (g_mspace g) nmemb siz s)"

definition strdup ::
  "'x dlmalloc \<Rightarrow> heap_globals \<Rightarrow> addr \<Rightarrow> 'x machine \<Rightarrow> (addr \<times> 'x machine) option" where
  "strdup dl g str s =
     (case strlen (mem s) str of
        None \<Rightarrow> None
      | Some n \<Rightarrow>
          (let len = n + 1; (dup, s) = pal_malloc dl g len s
           in Some (dup, if dup \<noteq> NULL then s\<lparr>mem := snd (memcpy (mem s) dup str len)\<rparr> else s)))"

definition strndup ::
  "'x dlmalloc \<Rightarrow> heap_globals \<Rightarrow> addr \<Rightarrow> u64 \<Rightarrow> 'x machine \<Rightarrow> (addr \<times> 'x machine) option" where
  "strndup dl g str n s =
     (case strlen (mem s) str of
        None \<Rightarrow> None
      | Some l \<Rightarrow>
          (let len = (if n < l then n else l); (dup, s) = pal_malloc dl g (len + 1) s
           in Some (dup, if dup \<noteq> NULL
                         then s\<lparr>mem := (snd (memcpy (mem s) dup str len))(dup + len := 0)\<rparr> else s)))"

section \<open>Lemmas\<close>

text \<open>What holds of the globals at all times.\<close>

definition heap_inv :: "heap_globals \<Rightarrow> bool" where
  "heap_inv g \<longleftrightarrow> (g_heap_initialized g \<longrightarrow> g_mspace g \<noteq> NULL)"

lemma heap_inv_start: "heap_inv heap_start"
  by (simp add: heap_inv_def heap_start_def)

lemma heap_inv_init: "heap_inv g \<Longrightarrow> pal_heap_init svsm dl g s = (r, g', s') \<Longrightarrow> heap_inv g'"
  by (auto simp: pal_heap_init_def heap_inv_def Let_def split: if_splits prod.splits)

lemma pal_malloc_uninit: "\<not> g_heap_initialized g \<Longrightarrow> pal_malloc dl g siz s = (NULL, s)"
  by (simp add: pal_malloc_def)

text \<open>
  What is relied on of dlmalloc: an mspace made over the heap region writes only that region, and
  a block it returns lies inside it.
\<close>

definition in_heap :: "addr \<Rightarrow> bool" where
  "in_heap a \<longleftrightarrow> in_range HEAP_BASE_ADDR (unat HEAP_SIZE) a"

definition mspace_ok :: "'x dlmalloc \<Rightarrow> bool" where
  "mspace_ok dl \<longleftrightarrow>
     (\<forall>msp siz s p s'. mspace_malloc dl msp siz s = (p, s') \<longrightarrow>
        (\<forall>a. in_heap a \<or> mem s' a = mem s a)
        \<and> (p \<noteq> NULL \<longrightarrow> unat (p - HEAP_BASE_ADDR) + unat siz \<le> unat HEAP_SIZE))"

lemma mspace_ok_malloc:
  assumes "mspace_ok dl" "pal_malloc dl g siz s = (p, s')"
  shows "\<not> in_heap a \<Longrightarrow> mem s' a = mem s a"
    and "p \<noteq> NULL \<Longrightarrow> unat (p - HEAP_BASE_ADDR) + unat siz \<le> unat HEAP_SIZE"
proof -
  have "(\<forall>a. in_heap a \<or> mem s' a = mem s a)
      \<and> (p \<noteq> NULL \<longrightarrow> unat (p - HEAP_BASE_ADDR) + unat siz \<le> unat HEAP_SIZE)"
  proof (cases "g_heap_initialized g \<and> g_mspace g \<noteq> NULL")
    case True
    then have "mspace_malloc dl (g_mspace g) siz s = (p, s')" using assms(2) by (simp add: pal_malloc_def)
    then show ?thesis using assms(1) unfolding mspace_ok_def by blast
  next
    case False
    then show ?thesis using assms(2) by (auto simp: pal_malloc_def)
  qed
  then show "\<not> in_heap a \<Longrightarrow> mem s' a = mem s a"
    and "p \<noteq> NULL \<Longrightarrow> unat (p - HEAP_BASE_ADDR) + unat siz \<le> unat HEAP_SIZE" by blast+
qed

lemma separate_in_heap:
  assumes "separate HEAP_BASE_ADDR (unat HEAP_SIZE) q k"
    "unat (p - HEAP_BASE_ADDR) + n \<le> unat HEAP_SIZE" "0 < k" "0 < n"
  shows "separate p n q k"
proof -
  let ?d = "unat (p - HEAP_BASE_ADDR)"
  have hs: "unat HEAP_SIZE = 16777216" by (simp add: HEAP_SIZE_def)
  have far: "unat HEAP_SIZE \<le> unat (q - HEAP_BASE_ADDR)" "k \<le> unat (HEAP_BASE_ADDR - q)"
    using assms(1) by (simp_all add: separate_def)
  have "unat (q - p) = unat ((q - HEAP_BASE_ADDR) - (p - HEAP_BASE_ADDR))" by simp
  also have "\<dots> = unat (q - HEAP_BASE_ADDR) - ?d"
    using assms(2) far by (intro unat_sub) (simp add: word_le_nat_alt)
  finally have qp: "unat (q - p) = unat (q - HEAP_BASE_ADDR) - ?d" .
  have 1: "n \<le> unat (q - p)" using qp assms(2) far by linarith
  have "HEAP_BASE_ADDR \<noteq> q" using far assms(3) by auto
  then have "unat (HEAP_BASE_ADDR - q) + unat (q - HEAP_BASE_ADDR) = 2 ^ 64" by (rule unat_diff_swap)
  then have "unat (q - p) + k \<le> 2 ^ 64"
    using qp far by linarith
  moreover have "p \<noteq> q" using 1 assms(4) by auto
  then have "unat (p - q) + unat (q - p) = 2 ^ 64" by (rule unat_diff_swap)
  ultimately show ?thesis using 1 by (simp add: separate_def)
qed

lemma mspace_ok_string:
  assumes "mspace_ok dl" "pal_malloc dl g siz s = (p, s')" "cstr_at (mem s) str t"
    "separate HEAP_BASE_ADDR (unat HEAP_SIZE) str (Suc (length t))"
  shows "cstr_at (mem s') str t"
    and "p \<noteq> NULL \<Longrightarrow> 0 < unat siz \<Longrightarrow> separate p (unat siz) str (Suc (length t))"
proof -
  have "mem s' (str + of_nat i) = mem s (str + of_nat i)" if "i \<le> length t" for i
  proof (rule mspace_ok_malloc(1) [OF assms(1,2)])
    have "in_range str (Suc (length t)) (str + of_nat i)"
      using that cstr_at_length [OF assms(3)] by (intro in_range_offsetI) auto
    then show "\<not> in_heap (str + of_nat i)"
      using separate_disjoint [OF separate_sym [OF assms(4)]] by (auto simp: in_heap_def)
  qed
  then have "cstr_at (mem s') str t \<longleftrightarrow> cstr_at (mem s) str t" by (intro cstr_at_cong) simp
  with assms(3) show "cstr_at (mem s') str t" by simp
  show "separate p (unat siz) str (Suc (length t))" if "p \<noteq> NULL" "0 < unat siz"
    using separate_in_heap [OF assms(4) mspace_ok_malloc(2) [OF assms(1,2) that(1)]] that(2) by simp
qed

lemma copy_string:
  assumes "cstr_at m str t" "separate p (Suc (length t)) str (Suc (length t))"
  shows "cstr_at (snd (memcpy m p str (of_nat (length t) + 1))) p t"
proof -
  have n: "unat (of_nat (length t) + 1 :: u64) = Suc (length t)"
    using unat_of_nat_u64 [OF separate_bound(1) [OF assms(2)]] by (simp add: add.commute)
  have "snd (memcpy m p str (of_nat (length t) + 1)) = write_bytes m p (t @ [0])"
    using memcpy_write [of p "of_nat (length t) + 1" str m] assms(2)
    by (simp only: n cstr_at_read [OF assms(1)] snd_conv)
  moreover have "0 \<notin> set t" using assms(1) by (auto simp: cstr_at_conv_read)
  ultimately show ?thesis using cstr_at_length [OF assms(1)] by (simp add: cstr_at_write)
qed

section \<open>Properties\<close>

text \<open>
  \<open>pal_heap_init\<close> returns 0 exactly when the heap is (or already was) ready; it maps and
  clears the whole region before dlmalloc sees it, does nothing on a ready heap, and after a
  failure every allocation returns NULL.
\<close>
lemma pal_heap_init_outcome:
  assumes "pal_heap_init svsm dl g s = (r, g', s')"
  shows "(r = 0 \<longleftrightarrow> g_heap_initialized g')
    \<and> (g_heap_initialized g \<longrightarrow> g' = g \<and> s' = s)
    \<and> (\<not> g_heap_initialized g' \<longrightarrow> r = - 1 \<and> pal_malloc dl g' n s'' = (NULL, s''))
    \<and> (\<not> g_heap_initialized g \<and> r = 0 \<longrightarrow> g_mspace g' \<noteq> NULL
        \<and> (\<exists>t. (g_mspace g', s') = create_mspace_with_base dl HEAP_BASE_ADDR HEAP_SIZE 0 t
              \<and> (\<forall>a. in_heap a \<longrightarrow> mem t a = 0)))"
  using assms
  by (auto simp: pal_heap_init_def pal_malloc_def memset_write write_bytes_fun in_heap_def in_range_def
      Let_def split: if_splits prod.splits) (rule exI, rule conjI, erule sym, simp)

text \<open>
  on a string outside the heap \<open>strdup\<close> returns, and what it returns is NULL or the address
  of a terminated copy; the source string is still in place.
\<close>
lemma strdup_copies:
  assumes "mspace_ok dl" "cstr_at (mem s) str t"
    "separate HEAP_BASE_ADDR (unat HEAP_SIZE) str (Suc (length t))"
  shows "\<exists>p s'. strdup dl g str s = Some (p, s')
    \<and> (p = NULL \<or> cstr_at (mem s') p t \<and> separate p (Suc (length t)) str (Suc (length t)))
    \<and> cstr_at (mem s') str t"
proof -
  let ?n = "of_nat (length t) + 1 :: u64"
  obtain p s1 where alloc: "pal_malloc dl g ?n s = (p, s1)" by (cases "pal_malloc dl g ?n s")
  have n: "unat ?n = Suc (length t)"
    using unat_of_nat_u64 [OF separate_bound(2) [OF assms(3)]] by (simp add: add.commute)
  note str = mspace_ok_string [OF assms(1) alloc assms(2,3)]
  show ?thesis
  proof (cases "p = NULL")
    case True
    then show ?thesis using alloc str(1) by (simp add: strdup_def strlen_cstr [OF assms(2)])
  next
    case False
    then have sep: "separate p (Suc (length t)) str (Suc (length t))" using str(2) n by simp
    let ?m = "snd (memcpy (mem s1) p str ?n)"
    have "?m (str + of_nat i) = mem s1 (str + of_nat i)" if "i \<le> length t" for i
    proof -
      have "in_range str (Suc (length t)) (str + of_nat i)"
        using that cstr_at_length [OF assms(2)] by (intro in_range_offsetI) auto
      then have "\<not> in_range p (Suc (length t)) (str + of_nat i)"
        using separate_disjoint [OF separate_sym [OF sep]] by blast
      then show ?thesis
        using memcpy_write [of p ?n str "mem s1"] sep separate_bound(1) [OF sep]
        by (simp add: n write_bytes_other del: read_bytes.simps)
    qed
    then have "cstr_at ?m str t" using str(1) cstr_at_cong [of t ?m str "mem s1"] by simp
    then show ?thesis
      using False alloc sep copy_string [OF str(1) sep]
      by (simp add: strdup_def strlen_cstr [OF assms(2)])
  qed
qed

text \<open>A heap whose mspace hands out its first bytes once; it is used by the witnesses.\<close>

definition first_fit_dl :: "unit dlmalloc" where
  "first_fit_dl = \<lparr>create_mspace_with_base = (\<lambda>b c l s. (b, s)),
     mspace_malloc = (\<lambda>msp n s. (if n \<le> HEAP_SIZE then HEAP_BASE_ADDR else NULL, s)),
     mspace_free = (\<lambda>msp p s. s), mspace_realloc = (\<lambda>msp p n s. (NULL, s)),
     mspace_calloc = (\<lambda>msp n k s. (NULL, s)), destroy_mspace = (\<lambda>msp s. s),
     mspace_track_large_chunks = (\<lambda>msp e s. s)\<rparr>"

lemma first_fit_ok: "mspace_ok first_fit_dl"
  by (auto simp: mspace_ok_def first_fit_dl_def word_le_nat_alt)

theorem strdup_copies_witness:
  "\<exists>p s'. strdup first_fit_dl \<lparr>g_mspace = HEAP_BASE_ADDR, g_heap_initialized = True\<rparr> 16
         \<lparr>mem = write_bytes (\<lambda>_. 0) 16 [97, 98, 0], world = ()\<rparr> = Some (p, s')
    \<and> (p = NULL \<or> cstr_at (mem s') p [97, 98] \<and> separate p (Suc (length [97 :: byte, 98])) 16 (Suc (length [97 :: byte, 98])))
    \<and> cstr_at (mem s') 16 [97, 98]"
  by (rule strdup_copies [OF first_fit_ok])
    (simp_all add: separate_def HEAP_BASE_ADDR_def HEAP_SIZE_def)

theorem pal_heap_init_outcome_witness:
  "\<exists>g' s'. pal_heap_init (\<lambda>r _ s. ((0, 0, 0, 0), s)) first_fit_dl heap_start \<lparr>mem = (\<lambda>_. 7), world = ()\<rparr>
             = (0, g', s')
    \<and> ((0 :: int) = 0 \<longleftrightarrow> g_heap_initialized g')
    \<and> (\<exists>t. (g_mspace g', s') = create_mspace_with_base first_fit_dl HEAP_BASE_ADDR HEAP_SIZE 0 t
              \<and> (\<forall>a. in_heap a \<longrightarrow> mem t a = 0))"
proof -
  let ?s = "\<lparr>mem = (\<lambda>_. 7), world = ()\<rparr>"
  let ?z = "\<lparr>mem = snd (memset (\<lambda>_. 7) HEAP_BASE_ADDR 0 HEAP_SIZE), world = ()\<rparr>"
  have run: "pal_heap_init (\<lambda>r _ s. ((0, 0, 0, 0), s)) first_fit_dl heap_start ?s
      = (0, \<lparr>g_mspace = HEAP_BASE_ADDR, g_heap_initialized = True\<rparr>, ?z)"
    by (simp add: pal_heap_init_def heap_start_def pal_svsm_virt_alloc_def monitor_call_def call4_def
        int_of_u64_def first_fit_dl_def HEAP_BASE_ADDR_def)
  from pal_heap_init_outcome [OF run, of 0 ?s] run show ?thesis by (auto simp: heap_start_def)
qed

end
