(* ===== verification/Vmpl1_Thread.thy ===== *)
theory Vmpl1_Thread
  imports Pal_Memory
begin

text \<open>
  Locks and threads of VMPL1: the test-and-set spinlock of \<open>wamr-pal/pal_spinlock.h\<close> and the
  WAMR platform functions of \<open>platform/vmpl1/vmpl1_thread.c\<close> built on it.

  A lock is its flag byte in shared memory.  \<open>pal_spin_lock\<close> by itself spins for ever on a held
  lock, so it is a partial function; the interleaving of several vCPUs is a step relation whose
  steps are the atomic instructions, and mutual exclusion is proved for it once, from the laws of
  the locale \<open>lock_protocol\<close>.
\<close>

section \<open>The spinlock\<close>

text \<open>\<open>__atomic_test_and_set\<close>: set the byte, return whether it was set before.\<close>

definition atomic_test_and_set :: "mem \<Rightarrow> addr \<Rightarrow> bool \<times> mem" where
  "atomic_test_and_set m l = (m l \<noteq> 0, m(l := 1))"

definition atomic_clear :: "mem \<Rightarrow> addr \<Rightarrow> mem" where
  "atomic_clear m l = m(l := 0)"

partial_function (option) pal_spin_lock :: "mem \<Rightarrow> addr \<Rightarrow> mem option" where
  "pal_spin_lock m l =
     (let (busy, m') = atomic_test_and_set m l in if busy then pal_spin_lock m' l else Some m')"

definition pal_spin_unlock :: "mem \<Rightarrow> addr \<Rightarrow> mem" where
  "pal_spin_unlock m l = atomic_clear m l"

definition pal_spin_init :: "mem \<Rightarrow> addr \<Rightarrow> mem" where
  "pal_spin_init m l = store32 m l 0"

definition pal_spin_trylock :: "mem \<Rightarrow> addr \<Rightarrow> int \<times> mem" where
  "pal_spin_trylock m l = (let (busy, m') = atomic_test_and_set m l in (of_bool busy, m'))"

section \<open>Mutexes, condition variables and read-write locks\<close>

text \<open>The result codes of WAMR's platform interface, whose values its headers define.\<close>

datatype bht = BHT_OK | BHT_ERROR

definition os_mutex_init :: "mem \<Rightarrow> addr \<Rightarrow> bht \<times> mem" where
  "os_mutex_init m mutex = (if mutex = NULL then (BHT_ERROR, m) else (BHT_OK, pal_spin_init m mutex))"

definition os_mutex_destroy :: "mem \<Rightarrow> addr \<Rightarrow> bht \<times> mem" where
  "os_mutex_destroy m mutex = (BHT_OK, m)"

definition os_mutex_lock :: "mem \<Rightarrow> addr \<Rightarrow> (bht \<times> mem) option" where
  "os_mutex_lock m mutex =
     (if mutex = NULL then Some (BHT_ERROR, m)
      else map_option (\<lambda>m'. (BHT_OK, m')) (pal_spin_lock m mutex))"

definition os_mutex_unlock :: "mem \<Rightarrow> addr \<Rightarrow> bht \<times> mem" where
  "os_mutex_unlock m mutex = (if mutex = NULL then (BHT_ERROR, m) else (BHT_OK, pal_spin_unlock m mutex))"

definition os_recursive_mutex_init :: "mem \<Rightarrow> addr \<Rightarrow> bht \<times> mem" where
  "os_recursive_mutex_init m mutex = os_mutex_init m mutex"

definition os_cond_init :: "addr \<Rightarrow> bht" where "os_cond_init c = BHT_OK"
definition os_cond_destroy :: "addr \<Rightarrow> bht" where "os_cond_destroy c = BHT_OK"
definition os_cond_wait :: "addr \<Rightarrow> addr \<Rightarrow> bht" where "os_cond_wait c mutex = BHT_OK"
definition os_cond_reltimedwait :: "addr \<Rightarrow> addr \<Rightarrow> u64 \<Rightarrow> bht" where
  "os_cond_reltimedwait c mutex useconds = BHT_ERROR"
definition os_cond_signal :: "addr \<Rightarrow> bht" where "os_cond_signal c = BHT_OK"
definition os_cond_broadcast :: "addr \<Rightarrow> bht" where "os_cond_broadcast c = BHT_OK"

definition os_rwlock_init :: "mem \<Rightarrow> addr \<Rightarrow> bht \<times> mem" where
  "os_rwlock_init m lock = (if lock = NULL then (BHT_ERROR, m) else (BHT_OK, pal_spin_init m lock))"

definition os_rwlock_rdlock :: "mem \<Rightarrow> addr \<Rightarrow> (bht \<times> mem) option" where
  "os_rwlock_rdlock m lock =
     (if lock = NULL then Some (BHT_ERROR, m)
      else map_option (\<lambda>m'. (BHT_OK, m')) (pal_spin_lock m lock))"

definition os_rwlock_wrlock :: "mem \<Rightarrow> addr \<Rightarrow> (bht \<times> mem) option" where
  "os_rwlock_wrlock m lock =
     (if lock = NULL then Some (BHT_ERROR, m)
      else map_option (\<lambda>m'. (BHT_OK, m')) (pal_spin_lock m lock))"

definition os_rwlock_unlock :: "mem \<Rightarrow> addr \<Rightarrow> bht \<times> mem" where
  "os_rwlock_unlock m lock = (if lock = NULL then (BHT_ERROR, m) else (BHT_OK, pal_spin_unlock m lock))"

definition os_rwlock_destroy :: "mem \<Rightarrow> addr \<Rightarrow> bht \<times> mem" where
  "os_rwlock_destroy m lock = (BHT_OK, m)"

section \<open>Threads\<close>

definition os_self_thread :: u64 where "os_self_thread = 1"
definition os_thread_get_stack_boundary :: addr where "os_thread_get_stack_boundary = NULL"

text \<open>Thread creation also logs that it is not supported; the message is left out.\<close>

definition os_thread_create_with_prio :: "addr \<Rightarrow> addr \<Rightarrow> addr \<Rightarrow> u32 \<Rightarrow> int \<Rightarrow> bht" where
  "os_thread_create_with_prio tid start arg stack_size prio = BHT_ERROR"

definition os_thread_create :: "addr \<Rightarrow> addr \<Rightarrow> addr \<Rightarrow> u32 \<Rightarrow> bht" where
  "os_thread_create tid start arg stack_size = os_thread_create_with_prio tid start arg stack_size 0"

definition os_thread_join :: "u64 \<Rightarrow> addr \<Rightarrow> bht" where "os_thread_join thread value_ptr = BHT_OK"
definition os_thread_detach :: "u64 \<Rightarrow> bht" where "os_thread_detach thread = BHT_OK"

text \<open>\<open>thread_env_initialized\<close> is the argument and result of the three environment functions.\<close>

definition os_thread_env_init :: "bool \<Rightarrow> bht \<times> bool" where "os_thread_env_init e = (BHT_OK, True)"
definition os_thread_env_destroy :: "bool \<Rightarrow> bool" where "os_thread_env_destroy e = False"
definition os_thread_env_inited :: "bool \<Rightarrow> bool" where "os_thread_env_inited e = e"

definition os_usleep :: "u32 \<Rightarrow> bht" where "os_usleep usec = BHT_OK"

definition os_sem_open :: "addr \<Rightarrow> int \<Rightarrow> int \<Rightarrow> int \<Rightarrow> addr" where
  "os_sem_open name oflags mode val = NULL"
definition os_sem_close :: "addr \<Rightarrow> bht" where "os_sem_close sem = BHT_ERROR"
definition os_sem_wait :: "addr \<Rightarrow> bht" where "os_sem_wait sem = BHT_ERROR"
definition os_sem_trywait :: "addr \<Rightarrow> bht" where "os_sem_trywait sem = BHT_ERROR"
definition os_sem_post :: "addr \<Rightarrow> bht" where "os_sem_post sem = BHT_ERROR"
definition os_sem_getvalue :: "addr \<Rightarrow> addr \<Rightarrow> bht" where "os_sem_getvalue sem sval = BHT_ERROR"
definition os_sem_unlink :: "addr \<Rightarrow> bht" where "os_sem_unlink name = BHT_ERROR"
definition os_blocking_op_init :: bht where "os_blocking_op_init = BHT_OK"
definition os_wakeup_blocking_op :: "u64 \<Rightarrow> bht" where "os_wakeup_blocking_op tid = BHT_OK"

section \<open>Interleaved vCPUs\<close>

datatype lock_pc = Idle | Spinning | Critical

text \<open>
  Each vCPU is outside, spinning, or in its critical section; a step is one atomic instruction of
  one vCPU: an attempt, which reports whether the lock was busy, or the release.
\<close>

inductive lock_step ::
  "('s \<Rightarrow> bool \<times> 's) \<Rightarrow> ('s \<Rightarrow> 's) \<Rightarrow> (nat \<Rightarrow> lock_pc) \<times> 's \<Rightarrow> (nat \<Rightarrow> lock_pc) \<times> 's \<Rightarrow> bool"
  for attempt release where
  start: "pc i = Idle \<Longrightarrow> lock_step attempt release (pc, s) (pc(i := Spinning), s)"
| busy: "pc i = Spinning \<Longrightarrow> attempt s = (True, s') \<Longrightarrow> lock_step attempt release (pc, s) (pc, s')"
| taken: "pc i = Spinning \<Longrightarrow> attempt s = (False, s') \<Longrightarrow>
    lock_step attempt release (pc, s) (pc(i := Critical), s')"
| leave: "pc i = Critical \<Longrightarrow> lock_step attempt release (pc, s) (pc(i := Idle), release s)"

inductive_cases lock_stepE: "lock_step attempt release a b"

locale lock_protocol =
  fixes attempt :: "'s \<Rightarrow> bool \<times> 's" and release :: "'s \<Rightarrow> 's" and held :: "'s \<Rightarrow> bool"
  assumes attempt_busy: "attempt s = (True, s') \<Longrightarrow> held s \<and> held s'"
    and attempt_taken: "attempt s = (False, s') \<Longrightarrow> \<not> held s \<and> held s'"
    and release_free: "\<not> held (release s)"

definition lock_inv :: "('s \<Rightarrow> bool) \<Rightarrow> (nat \<Rightarrow> lock_pc) \<times> 's \<Rightarrow> bool" where
  "lock_inv held c \<longleftrightarrow>
     (\<forall>i j. fst c i = Critical \<and> fst c j = Critical \<longrightarrow> i = j)
     \<and> (held (snd c) \<longleftrightarrow> (\<exists>i. fst c i = Critical))"

context lock_protocol begin

lemma lock_inv_step: "lock_step attempt release a b \<Longrightarrow> lock_inv held a \<Longrightarrow> lock_inv held b"
proof (induction rule: lock_step.induct)
  case (start pc i s)
  then have "(pc(i := Spinning)) k = Critical \<longleftrightarrow> pc k = Critical" for k by auto
  with start show ?case unfolding lock_inv_def fst_conv snd_conv by blast
next
  case (busy pc i s s')
  then show ?case using attempt_busy [OF busy(2)] by (simp add: lock_inv_def)
next
  case (taken pc i s s')
  then show ?case using attempt_taken [OF taken(2)] by (auto simp: lock_inv_def)
next
  case (leave pc i s)
  then have "(pc(i := Idle)) k \<noteq> Critical" for k by (auto simp: lock_inv_def)
  then show ?case using release_free [of s] unfolding lock_inv_def fst_conv snd_conv by blast
qed

lemma lock_inv_reachable:
  "(lock_step attempt release)\<^sup>*\<^sup>* a b \<Longrightarrow> lock_inv held a \<Longrightarrow> lock_inv held b"
  by (induction rule: rtranclp_induct) (auto intro: lock_inv_step)

lemma mutual_exclusion:
  assumes "(lock_step attempt release)\<^sup>*\<^sup>* ((\<lambda>_. Idle), s) (pc, s')" "\<not> held s"
    "pc i = Critical" "pc j = Critical"
  shows "i = j"
  using lock_inv_reachable [OF assms(1)] assms(2-4) by (auto simp: lock_inv_def)

end

lemma spin_init_free: "pal_spin_init m l l = 0"
proof -
  have "store32 m l 0 (l + of_nat 0) = le_bytes 4 (0 :: u32) ! 0"
    unfolding store32_def by (rule write_bytes_nth) simp_all
  then show ?thesis by (simp add: pal_spin_init_def numeral_eq_Suc)
qed

interpretation spin: lock_protocol
  "\<lambda>m. atomic_test_and_set m l" "\<lambda>m. pal_spin_unlock m l" "\<lambda>m. m l \<noteq> 0"
  by unfold_locales (auto simp: atomic_test_and_set_def pal_spin_unlock_def atomic_clear_def)

lemma pal_spin_lock_free: "m l = 0 \<Longrightarrow> pal_spin_lock m l = Some (m(l := 1))"
  by (simp add: pal_spin_lock.simps [of m l] atomic_test_and_set_def)

lemma pal_spin_lock_held: "pal_spin_lock m l = Some m' \<Longrightarrow> m l = 0"
proof (rule pal_spin_lock.raw_induct [where P = "\<lambda>m l m'. m l = 0"])
  fix f m l m'
  assume "\<And>m l m'. f m l = Some m' \<Longrightarrow> m l = 0"
    and "(let (busy, m') = atomic_test_and_set m l in if busy then f m' l else Some m') = Some (m' :: mem)"
  then show "m l = (0 :: byte)"
    by (fastforce simp: atomic_test_and_set_def split: if_splits)
qed

section \<open>Properties\<close>

text \<open>
  C39: in every interleaving of any number of vCPUs on one spinlock, started on an initialised
  lock, at most one is in its critical section, and the flag is set exactly while one is.
\<close>
theorem spinlock_mutual_exclusion:
  assumes "(lock_step (\<lambda>m. atomic_test_and_set m l) (\<lambda>m. pal_spin_unlock m l))\<^sup>*\<^sup>*
             ((\<lambda>_. Idle), pal_spin_init m l) (pc, m')"
  shows "(\<forall>i j. pc i = Critical \<and> pc j = Critical \<longrightarrow> i = j)
    \<and> (m' l \<noteq> 0 \<longleftrightarrow> (\<exists>i. pc i = Critical))"
  using spin.lock_inv_reachable [OF assms] spin_init_free [of m l] by (auto simp: lock_inv_def)

theorem spinlock_mutual_exclusion_witness:
  "\<exists>pc m'. (lock_step (\<lambda>m. atomic_test_and_set m 8) (\<lambda>m. pal_spin_unlock m 8))\<^sup>*\<^sup>*
             ((\<lambda>_. Idle), pal_spin_init (\<lambda>_. 7) 8) (pc, m') \<and> pc 1 = Critical
    \<and> (\<forall>i j. pc i = Critical \<and> pc j = Critical \<longrightarrow> i = j)
    \<and> (m' 8 \<noteq> 0 \<longleftrightarrow> (\<exists>i. pc i = Critical))"
proof -
  let ?s = "lock_step (\<lambda>m. atomic_test_and_set m 8) (\<lambda>m. pal_spin_unlock m 8)"
  let ?m = "pal_spin_init (\<lambda>_. 7) 8"
  let ?pc = "(\<lambda>_. Idle)(1 := Spinning)"
  have a: "?s ((\<lambda>_. Idle), ?m) (?pc, ?m)" by (rule lock_step.start) simp
  have b: "?s (?pc, ?m) (?pc(1 := Critical), ?m(8 := 1))"
    by (rule lock_step.taken) (simp_all add: atomic_test_and_set_def spin_init_free)
  have run: "?s\<^sup>*\<^sup>* ((\<lambda>_. Idle), ?m) (?pc(1 := Critical), ?m(8 := 1))"
    by (rule converse_rtranclp_into_rtranclp, rule a, rule r_into_rtranclp, rule b)
  have at: "(?pc(1 := Critical)) 1 = Critical" by simp
  show ?thesis
    by (rule exI [of _ "?pc(1 := Critical)"], rule exI [of _ "?m(8 := 1)"], rule conjI, rule run,
        rule conjI, rule at, rule spinlock_mutual_exclusion, rule run)
qed

text \<open>
  a lock call of WAMR's mutex and read-write interface returns exactly when the lock is free
  or NULL; a second read lock on a held lock spins for ever, as a write lock does.
\<close>
theorem os_lock_returns:
  "(os_mutex_lock m l \<noteq> None \<longleftrightarrow> l = NULL \<or> m l = 0)
   \<and> os_rwlock_rdlock m l = os_mutex_lock m l \<and> os_rwlock_wrlock m l = os_mutex_lock m l
   \<and> (l = NULL \<or> os_mutex_lock (pal_spin_unlock m l) l = Some (BHT_OK, m(l := 1)))
   \<and> (l = NULL \<or> os_rwlock_rdlock (m(l := 1)) l = None)"
proof -
  have held: "pal_spin_lock m l = None" if "m l \<noteq> 0" for m l
    using that pal_spin_lock_held [of m l] by (cases "pal_spin_lock m l") auto
  show ?thesis
    using held [of m l] held [of "m(l := 1)" l]
    by (cases "m l = 0") (auto simp: os_mutex_lock_def os_rwlock_rdlock_def os_rwlock_wrlock_def pal_spin_unlock_def
        atomic_clear_def pal_spin_lock_free)
qed

end
