(* ===== verification/Bump_Allocator.thy ===== *)
theory Bump_Allocator
  imports Wallet_Prelude
begin

text \<open>
  The interface of the two address-space allocators of VMPL1, \<open>os_mmap\<close> and \<open>mpk_region_map\<close>:
  each hands out pages from a pointer that only moves up, and moves it back when a request fails.
  The locale states that contract; what clients need, that the blocks of any sequence of requests
  are aligned, inside the region and disjoint, is proved from it once.
\<close>

locale bump_allocator =
  fixes alloc :: "u64 \<Rightarrow> 's \<Rightarrow> addr \<times> 's" and next_addr :: "'s \<Rightarrow> u64"
    and base :: nat and limit :: nat
  assumes region: "0 < base" "limit \<le> 2 ^ 62"
    and refused: "alloc n s = (NULL, s') \<Longrightarrow> base \<le> unat (next_addr s) \<Longrightarrow> next_addr s' = next_addr s"
    and granted: "alloc n s = (p, s') \<Longrightarrow> p \<noteq> NULL \<Longrightarrow> unat n \<le> 2 ^ 62 \<Longrightarrow>
      unat (next_addr s) < limit \<Longrightarrow>
      p = next_addr s \<and> unat (next_addr s') = unat p + page_up (unat n) \<and> unat (next_addr s') < limit"

text \<open>A sequence of requests: the blocks granted, in order, and the final state.\<close>

primrec bump_run :: "(u64 \<Rightarrow> 's \<Rightarrow> addr \<times> 's) \<Rightarrow> u64 list \<Rightarrow> 's \<Rightarrow> (addr \<times> u64) list \<times> 's" where
  "bump_run alloc [] s = ([], s)"
| "bump_run alloc (n # ns) s =
     (let (p, s1) = alloc n s; (bs, s2) = bump_run alloc ns s1
      in (if p = NULL then bs else (p, n) # bs, s2))"

definition block_ok :: "nat \<Rightarrow> nat \<Rightarrow> addr \<times> u64 \<Rightarrow> bool" where
  "block_ok lo hi b \<longleftrightarrow> 4096 dvd unat (fst b) \<and> lo \<le> unat (fst b) \<and> unat (fst b) + unat (snd b) \<le> hi"

definition block_before :: "addr \<times> u64 \<Rightarrow> addr \<times> u64 \<Rightarrow> bool" where
  "block_before a b \<longleftrightarrow> unat (fst a) + unat (snd a) \<le> unat (fst b)"

text \<open>Blocks in this order do not share a byte.\<close>

lemma block_before_separate:
  assumes "block_before a b" "block_ok lo hi b" "hi \<le> 2 ^ 62" "snd a \<noteq> 0"
  shows "separate (fst a) (unat (snd a)) (fst b) (unat (snd b))"
proof -
  have le: "unat (fst a) \<le> unat (fst b)" using assms(1) by (simp add: block_before_def)
  then have d: "unat (fst b - fst a) + unat (fst a) = unat (fst b)"
    by (simp add: unat_sub word_le_nat_alt)
  have hi: "unat (fst b) + unat (snd b) \<le> 2 ^ 62" using assms(2,3) by (simp add: block_ok_def)
  show ?thesis
  proof (cases "fst a = fst b")
    case True
    then have "unat (snd a) = 0" using assms(1) by (simp add: block_before_def)
    then show ?thesis using assms(4) by (simp add: unat_eq_0)
  next
    case False
    then have "unat (fst a - fst b) + unat (fst b - fst a) = 2 ^ 64" by (rule unat_diff_swap)
    moreover have "unat (fst a) + unat (snd a) \<le> unat (fst b)"
      using assms(1) by (simp only: block_before_def)
    ultimately have "unat (snd a) \<le> unat (fst b - fst a)" "unat (snd b) \<le> unat (fst a - fst b)"
      using d hi le by (simp_all, linarith?)
    then show ?thesis by (simp only: separate_def)
  qed
qed

context bump_allocator begin

lemma bump_run_blocks:
  "bump_run alloc ns s = (bs, s') \<Longrightarrow> \<forall>n \<in> set ns. unat n \<le> 2 ^ 62 \<Longrightarrow>
   base \<le> unat (next_addr s) \<Longrightarrow> unat (next_addr s) < limit \<Longrightarrow> 4096 dvd unat (next_addr s) \<Longrightarrow>
   (\<forall>b \<in> set bs. block_ok (unat (next_addr s)) limit b) \<and> sorted_wrt block_before bs
   \<and> unat (next_addr s) \<le> unat (next_addr s') \<and> unat (next_addr s') < limit"
proof (induction ns arbitrary: s bs)
  case (Cons n ns)
  obtain p s1 where a: "alloc n s = (p, s1)" by (cases "alloc n s")
  obtain bs' where r: "bump_run alloc ns s1 = (bs', s')" "bs = (if p = NULL then bs' else (p, n) # bs')"
    using Cons.prems(1) a by (cases "bump_run alloc ns s1") simp
  show ?case
  proof (cases "p = NULL")
    case True
    then have "next_addr s1 = next_addr s" using refused a Cons.prems(3) by blast
    then show ?thesis using Cons.IH [OF r(1)] Cons.prems r(2) True by simp
  next
    case False
    have g: "p = next_addr s" "unat (next_addr s1) = unat p + page_up (unat n)" "unat (next_addr s1) < limit"
      using granted [OF a False] Cons.prems by auto
    have n: "unat n \<le> page_up (unat n)" by (rule page_up_ge)
    have IH: "\<forall>b \<in> set bs'. block_ok (unat (next_addr s1)) limit b" "sorted_wrt block_before bs'"
      "unat (next_addr s1) \<le> unat (next_addr s')" "unat (next_addr s') < limit"
      using Cons.IH [OF r(1)] Cons.prems g by (simp_all add: dvd_add)
    have "block_ok (unat (next_addr s)) limit (p, n)"
      using g n Cons.prems by (simp add: block_ok_def)
    moreover have "block_before (p, n) b \<and> block_ok (unat (next_addr s)) limit b" if "b \<in> set bs'" for b
      using IH(1) that g n by (auto simp: block_ok_def block_before_def)
    ultimately show ?thesis using IH g r(2) False by auto
  qed
qed auto

end

end
