(* ===== verification/Vmpl1_Mmap.thy ===== *)
theory Vmpl1_Mmap
  imports Monitor_Call Bump_Allocator
begin

text \<open>
  \<open>wamr-pal/platform/vmpl1/vmpl1_mmap.c\<close>: WAMR's memory mapping functions over a bump allocator.
  The static \<open>mmap_next_addr\<close> is passed and returned beside the machine.  WAMR's protection bits
  are defined by its own headers and are parameters; the log messages are left out.
\<close>

section \<open>The code\<close>

record wamr_mmap =
  MMAP_PROT_READ :: int
  MMAP_PROT_WRITE :: int
  MMAP_PROT_EXEC :: int
  MMAP_MAP_NONE :: int

definition mmap_start :: u64 where
  "mmap_start = 0x5000000000"

definition PAGE_SIZE :: u64 where
  "PAGE_SIZE = 4096"

definition os_get_invalid_handle :: int where
  "os_get_invalid_handle = - 1"

definition prot_to_pal_flags :: "wamr_mmap \<Rightarrow> int \<Rightarrow> u64" where
  "prot_to_pal_flags k prot =
     (let flags = (if prot AND MMAP_PROT_READ k \<noteq> 0 then 0x1 else 0);
          flags = (if prot AND MMAP_PROT_WRITE k \<noteq> 0 then flags OR 0x2 else flags);
          flags = (if prot AND MMAP_PROT_EXEC k \<noteq> 0 then flags OR 0x4 else flags)
      in if flags = 0 then 0x3 else flags)"

definition os_mmap ::
  "wamr_mmap \<Rightarrow> 'x svsm \<Rightarrow> addr \<Rightarrow> u64 \<Rightarrow> int \<Rightarrow> int \<Rightarrow> int \<Rightarrow> u64 \<times> 'x machine
   \<Rightarrow> addr \<times> u64 \<times> 'x machine" where
  "os_mmap k svsm hint siz prot flags file st =
     (let (mmap_next_addr, s) = st
      in if file \<noteq> os_get_invalid_handle \<and> 0 \<le> file then (NULL, mmap_next_addr, s)
         else if siz = 0 then (NULL, mmap_next_addr, s)
         else (let aligned_size = align_up siz PAGE_SIZE;
                   a = mmap_next_addr;
                   mmap_next_addr = mmap_next_addr + aligned_size
               in if 0x28000000000 \<le> mmap_next_addr then (NULL, a, s)
                  else (let (ret, s) = pal_svsm_virt_alloc svsm a aligned_size (prot_to_pal_flags k prot) s
                        in if ret \<noteq> 0 then (NULL, a, s)
                           else (a, mmap_next_addr, s\<lparr>mem := snd (memset (mem s) a 0 aligned_size)\<rparr>))))"

definition os_munmap :: "'x svsm \<Rightarrow> addr \<Rightarrow> u64 \<Rightarrow> 'x machine \<Rightarrow> 'x machine" where
  "os_munmap svsm a siz s =
     (if a = NULL \<or> siz = 0 then s else snd (pal_svsm_free svsm a (align_up siz PAGE_SIZE) s))"

definition os_mprotect :: "addr \<Rightarrow> u64 \<Rightarrow> int \<Rightarrow> int" where
  "os_mprotect a siz prot = (if a = NULL \<or> siz = 0 then 0 else 0)"

definition os_mremap ::
  "wamr_mmap \<Rightarrow> 'x svsm \<Rightarrow> addr \<Rightarrow> u64 \<Rightarrow> u64 \<Rightarrow> u64 \<times> 'x machine \<Rightarrow> addr \<times> u64 \<times> 'x machine" where
  "os_mremap k svsm old_addr old_size new_size st =
     (let (new_addr, nxt, s) = os_mmap k svsm NULL new_size (MMAP_PROT_READ k OR MMAP_PROT_WRITE k)
                                 (MMAP_MAP_NONE k) os_get_invalid_handle st
      in if new_addr = NULL then (NULL, nxt, s)
         else (let copy_size = (if old_size < new_size then old_size else new_size);
                   s = s\<lparr>mem := snd (memcpy (mem s) new_addr old_addr copy_size)\<rparr>
               in (new_addr, nxt, os_munmap svsm old_addr old_size s)))"

section \<open>It is a bump allocator\<close>

lemma bump_step:
  assumes "unat n \<le> 2 ^ 62" "unat (a :: u64) < limit" "limit \<le> 2 ^ 62"
  shows "unat (a + align_up n 4096) = unat a + page_up (unat n)"
proof -
  have p: "unat (align_up n 4096) = page_up (unat n)" using assms(1) by (intro align_up_page) simp
  have "page_up (unat n) \<le> 2 ^ 62 + 4095" using page_up_le [of "unat n"] assms(1) by linarith
  then have "unat a + page_up (unat n) < 2 ^ 64" using assms by simp
  then show ?thesis by (simp add: unat_word_ariths p)
qed

lemma os_mmap_cases:
  assumes "os_mmap k svsm hint n prot fl file (a, s) = (p, nxt, s')"
  obtains "p = NULL" "nxt = a"
  | s1 where "p = a" "nxt = a + align_up n 4096" "a + align_up n 4096 < 0x28000000000" "n \<noteq> 0"
      "pal_svsm_virt_alloc svsm a (align_up n 4096) (prot_to_pal_flags k prot) s = (0, s1)"
      "s' = s1\<lparr>mem := snd (memset (mem s1) a 0 (align_up n 4096))\<rparr>"
proof -
  let ?c = "align_up n 4096"
  obtain ret s1 where v: "pal_svsm_virt_alloc svsm a ?c (prot_to_pal_flags k prot) s = (ret, s1)"
    by (cases "pal_svsm_virt_alloc svsm a ?c (prot_to_pal_flags k prot) s")
  have "os_mmap k svsm hint n prot fl file (a, s) =
      (if file \<noteq> os_get_invalid_handle \<and> 0 \<le> file \<or> n = 0 \<or> 0x28000000000 \<le> a + ?c
       then (NULL, a, s)
       else if ret \<noteq> 0 then (NULL, a, s1)
       else (a, a + ?c, s1\<lparr>mem := snd (memset (mem s1) a 0 ?c)\<rparr>))"
    by (simp add: os_mmap_def PAGE_SIZE_def Let_def v)
  then show thesis
    using assms that v by (auto simp: not_le split: if_splits)
qed

text \<open>The next address as the allocator's pointer, over the pair of it and the machine.\<close>

interpretation mmap: bump_allocator
  "\<lambda>n st. os_mmap k svsm hint n prot fl file st" fst "0x5000000000" "0x28000000000"
proof
  fix n and st :: "u64 \<times> 'a machine" and p st'
  { assume "os_mmap k svsm hint n prot fl file st = (NULL, st')" "0x5000000000 \<le> unat (fst st)"
    then show "fst st' = fst st"
      by (cases st, cases st') (auto elim!: os_mmap_cases)
  next
    assume m: "os_mmap k svsm hint n prot fl file st = (p, st')" "p \<noteq> NULL" "unat n \<le> 2 ^ 62"
      "unat (fst st) < 0x28000000000"
    obtain a s nxt s' where st: "st = (a, s)" "st' = (nxt, s')" by (cases st, cases st')
    have step: "unat (a + align_up n 4096) = unat a + page_up (unat n)"
      using m(3,4) st by (intro bump_step [where limit = "0x28000000000"]) simp_all
    from m(1) st show "p = fst st \<and> unat (fst st') = unat p + page_up (unat n) \<and> unat (fst st') < 0x28000000000"
      using m(2) step by (auto simp: word_less_nat_alt elim!: os_mmap_cases) }
qed simp_all

text \<open>
  What is relied on of the monitor when it maps or unmaps pages: bytes outside them stay.
\<close>

definition svsm_maps_only :: "'x svsm \<Rightarrow> bool" where
  "svsm_maps_only svsm \<longleftrightarrow>
     (\<forall>p n fl s b. \<not> in_range p (unat n) b \<longrightarrow>
        mem (snd (pal_svsm_virt_alloc svsm p n fl s)) b = mem s b
        \<and> mem (snd (pal_svsm_free svsm p n s)) b = mem s b)"

lemma os_mmap_block:
  assumes "os_mmap k svsm hint n prot fl file (a, s) = (p, nxt, s')" "p \<noteq> NULL" "svsm_maps_only svsm"
  shows "mem s' b = (if in_range a (unat (align_up n 4096)) b then 0 else mem s b)"
proof -
  obtain s1 where s1: "pal_svsm_virt_alloc svsm a (align_up n 4096) (prot_to_pal_flags k prot) s = (0, s1)"
      "s' = s1\<lparr>mem := snd (memset (mem s1) a 0 (align_up n 4096))\<rparr>"
    using os_mmap_cases [OF assms(1)] assms(2) by metis
  have "mem s1 b = mem s b" if "\<not> in_range a (unat (align_up n 4096)) b"
    using assms(3) that s1(1) unfolding svsm_maps_only_def by (metis snd_conv)
  then show ?thesis
    by (simp add: s1(2) memset_write write_bytes_fun in_range_def)
qed

section \<open>Properties\<close>


definition quiet_svsm :: "unit svsm" where
  "quiet_svsm r e s = ((fst r, fst (snd r), 0, 0), s)"

lemma quiet_maps_only: "svsm_maps_only quiet_svsm"
  by (simp add: svsm_maps_only_def pal_svsm_virt_alloc_def pal_svsm_free_def monitor_call_def
      quiet_svsm_def call4_def)

definition demo_consts :: wamr_mmap where
  "demo_consts = \<lparr>MMAP_PROT_READ = 1, MMAP_PROT_WRITE = 2, MMAP_PROT_EXEC = 4, MMAP_MAP_NONE = 0\<rparr>"


text \<open>
  a successful \<open>os_mremap\<close> of a block below the allocation pointer returns a new block that
  starts with the old contents, up to the smaller size, and is zero from there to its end.
\<close>
lemma os_mremap_preserves:
  assumes "os_mremap k svsm old_addr old_size new_size (a, s) = (p, nxt, s')" "p \<noteq> NULL"
    and "svsm_maps_only svsm" "unat new_size \<le> 2 ^ 62" "unat a < 0x28000000000"
    and "unat old_addr + page_up (unat old_size) \<le> unat a" "i < page_up (unat new_size)"
  shows "mem s' (p + of_nat i) = (if i < min (unat old_size) (unat new_size)
                                   then mem s (old_addr + of_nat i) else 0)"
proof -
  define c where "c = (if old_size < new_size then old_size else new_size)"
  obtain s1 where m: "os_mmap k svsm NULL new_size (MMAP_PROT_READ k OR MMAP_PROT_WRITE k)
      (MMAP_MAP_NONE k) os_get_invalid_handle (a, s) = (p, nxt, s1)"
    and s': "s' = os_munmap svsm old_addr old_size
               (s1\<lparr>mem := snd (memcpy (mem s1) p old_addr c)\<rparr>)"
    using assms(1,2) by (auto simp: os_mremap_def c_def Let_def split: prod.splits if_splits)
  have p: "p = a" using os_mmap_cases [OF m] assms(2) by metis
  have al: "unat (align_up new_size 4096) = page_up (unat new_size)"
    using assms(4) by (intro align_up_page) simp
  have oa: "unat (align_up old_size 4096) = page_up (unat old_size)"
    using assms(5,6) page_up_ge [of "unat old_size"] by (intro align_up_page) simp
  have kn: "unat c = min (unat old_size) (unat new_size)"
    by (auto simp: c_def word_less_nat_alt min_def)
  have old: "unat old_size \<le> page_up (unat old_size)" "unat new_size \<le> page_up (unat new_size)"
    "page_up (unat new_size) \<le> 2 ^ 62 + 4095"
    using page_up_ge page_up_le [of "unat new_size"] assms(4) by simp_all
  have far: "page_up (unat old_size) \<le> unat (p - old_addr)"
    "page_up (unat new_size) \<le> unat (old_addr - p) \<or> old_size = 0"
  proof -
    have "unat (p - old_addr) = unat a - unat old_addr"
      using assms(6) p by (simp add: unat_sub word_le_nat_alt)
    then show 1: "page_up (unat old_size) \<le> unat (p - old_addr)" using assms(6) by linarith
    show "page_up (unat new_size) \<le> unat (old_addr - p) \<or> old_size = 0"
    proof (cases "p = old_addr")
      case True
      then show ?thesis using 1 old(1) by (simp add: unat_eq_0)
    next
      case False
      then have "unat (p - old_addr) + unat (old_addr - p) = 18446744073709551616"
        using unat_diff_swap [OF False] by simp
      moreover have "unat (p - old_addr) < 2748779069440"
        using \<open>unat (p - old_addr) = _\<close> assms(5) by simp
      moreover have "page_up (unat new_size) \<le> 4611686018427391999" using old(3) by simp
      ultimately show ?thesis by linarith
    qed
  qed
  have sep: "separate p (page_up (unat new_size)) old_addr (page_up (unat old_size))" if "old_size \<noteq> 0"
    using far that by (simp add: separate_def)
  have i: "i < 2 ^ 64" using assms(7) old(3) by simp
  have in_new: "in_range p (page_up (unat new_size)) (p + of_nat i)" using assms(7) i by (simp add: in_range_offset)
  have keep: "mem s' (p + of_nat i) = snd (memcpy (mem s1) p old_addr c) (p + of_nat i)"
  proof (cases "old_addr = NULL \<or> old_size = 0")
    case False
    then have "\<not> in_range old_addr (unat (align_up old_size 4096)) (p + of_nat i)"
      using separate_disjoint [OF sep in_new] oa by simp
    then show ?thesis
      using assms(3) False by (simp add: s' os_munmap_def PAGE_SIZE_def svsm_maps_only_def)
  qed (auto simp: s' os_munmap_def)
  have zero: "mem s1 b = (if in_range a (page_up (unat new_size)) b then 0 else mem s b)" for b
    using os_mmap_block [OF m assms(2,3), of b] al by simp
  show ?thesis
  proof (cases "old_size = 0")
    case True
    have "separate p 0 old_addr 0" by (simp add: separate_def)
    then show ?thesis
      using keep zero [of "p + of_nat i"] in_new True p kn memcpy_write [of p c old_addr "mem s1"] by simp
  next
    case False
    have sk: "separate p (unat c) old_addr (unat c)"
      by (rule separate_mono [OF sep [OF False]]) (use kn old in simp_all)
    have cp: "snd (memcpy (mem s1) p old_addr c) = write_bytes (mem s1) p (read_bytes (mem s1) old_addr (unat c))"
      by (simp add: memcpy_write [OF sk])
    have src: "mem s1 (old_addr + of_nat i) = mem s (old_addr + of_nat i)" if "i < unat c"
    proof -
      have "in_range old_addr (page_up (unat old_size)) (old_addr + of_nat i)"
        using that kn old i by (simp add: in_range_offset)
      then have "\<not> in_range a (page_up (unat new_size)) (old_addr + of_nat i)"
        using separate_disjoint [OF separate_sym [OF sep [OF False]]] p by blast
      then show ?thesis by (simp add: zero)
    qed
    have "mem s1 (p + of_nat i) = 0" using in_new zero [of "p + of_nat i"] p by simp
    then show ?thesis
      using src i
      by (simp add: keep cp write_bytes_fun in_range_def nth_read_bytes flip: kn)
  qed
qed

theorem os_mremap_preserves_witness:
  "\<exists>p nxt s'. os_mremap demo_consts quiet_svsm 0x5000000000 4096 8192
        (0x5000001000, \<lparr>mem = (\<lambda>_. 7), world = ()\<rparr>) = (p, nxt, s')
    \<and> mem s' (p + of_nat 4095) = 7 \<and> mem s' (p + of_nat 4096) = 0"
proof -
  let ?s = "\<lparr>mem = (\<lambda>_. 7), world = ()\<rparr> :: unit machine"
  obtain p nxt s' where r: "os_mremap demo_consts quiet_svsm 0x5000000000 4096 8192 (0x5000001000, ?s) = (p, nxt, s')"
    by (cases "os_mremap demo_consts quiet_svsm 0x5000000000 4096 8192 (0x5000001000, ?s)")
  have p: "p \<noteq> NULL"
    using r by (auto simp: os_mremap_def os_mmap_def os_get_invalid_handle_def PAGE_SIZE_def align_up_def
        pal_svsm_virt_alloc_def monitor_call_def quiet_svsm_def call4_def int_of_u64_def Let_def)
  have "mem s' (p + of_nat i) = (if i < min (unat (4096 :: u64)) (unat (8192 :: u64)) then 7 else 0)"
    if "i < page_up (unat (8192 :: u64))" for i
    using os_mremap_preserves [OF r p quiet_maps_only _ _ _ that] by (simp add: page_up_def)
  from this [of 4095] this [of 4096] r show ?thesis by (simp add: page_up_def)
qed

text \<open>
  The size is aligned and added without an overflow check: a request of \<open>2 ^ 64 - 1\<close> bytes is
  aligned to 0 and granted without moving the pointer.
\<close>
lemma u64_wrap_zero: "(18446744073709551616 :: u64) = 0"
  by (simp add: word_uint_eq_iff)

lemma os_mmap_wraps:
  "os_mmap demo_consts quiet_svsm NULL 0xffffffffffffffff 3 0 (- 1) (0x5000000000, s)
     = (0x5000000000, 0x5000000000, s\<lparr>mem := snd (memset (mem s) 0x5000000000 0 0)\<rparr>)"
  by (simp add: os_mmap_def os_get_invalid_handle_def PAGE_SIZE_def align_up_def
      pal_svsm_virt_alloc_def monitor_call_def quiet_svsm_def call4_def int_of_u64_def Let_def
      u64_wrap_zero)

end
