(* ===== verification/Mpk_Allocator.thy ===== *)
theory Mpk_Allocator
  imports Vmpl1_Mmap Pal_Heap "HOL-Library.Multiset"
begin

text \<open>
  \<open>wamr-pal/mpk_allocator_vmpl1.c\<close> in the MPK build: a pool of protection keys obtained from the
  monitor, memory regions tagged with a key, and the domains (key, region, heap) a wasm module
  runs in.  The file's statics are the record \<open>mpk_globals\<close>.  The pool's spinlock brackets each
  pool operation and is left out here (see \<open>Vmpl1_Thread\<close>); log messages are left out.
\<close>

section \<open>State\<close>

record mpk_globals =
  g_pkey_pool :: "int list"
  g_pkey_free :: "int list"
  g_pkey_free_top :: nat
  g_pkey_total :: nat
  g_default_msp :: addr
  g_default_base :: addr
  g_default_size :: u64
  g_allocator_initialized :: bool
  g_current_msp :: addr
  g_current_pkey :: int
  g_mpk_next_addr :: u64

definition PKEY_POOL_SIZE :: nat where "PKEY_POOL_SIZE = 1"
definition PKEY_POOL_MAX :: nat where "PKEY_POOL_MAX = 15"
definition MPK_REGION_BASE :: u64 where "MPK_REGION_BASE = 0x6000000000"
definition DEFAULT_HEAP_SIZE :: u64 where "DEFAULT_HEAP_SIZE = 4 * 1024 * 1024"
definition MIN_MSPACE_SIZE :: u64 where "MIN_MSPACE_SIZE = 4096 * 4"

definition mpk_start :: mpk_globals where
  "mpk_start = \<lparr>g_pkey_pool = replicate PKEY_POOL_MAX 0, g_pkey_free = replicate PKEY_POOL_MAX 0,
     g_pkey_free_top = 0, g_pkey_total = 0, g_default_msp = NULL, g_default_base = NULL,
     g_default_size = 0, g_allocator_initialized = False, g_current_msp = NULL,
     g_current_pkey = 0, g_mpk_next_addr = MPK_REGION_BASE\<rparr>"

text \<open>\<open>mpk_domain_t\<close>; a pointer to one is an option, None for NULL.\<close>

record mpk_domain =
  pkey :: int
  region_base :: addr
  region_size :: u64
  module_msp :: addr

section \<open>The key pool\<close>

primrec pkey_pool_fill :: "'x svsm \<Rightarrow> nat \<Rightarrow> mpk_globals \<Rightarrow> 'x machine \<Rightarrow> mpk_globals \<times> 'x machine" where
  "pkey_pool_fill svsm 0 g s = (g, s)"
| "pkey_pool_fill svsm (Suc n) g s =
     (let (k, s) = pal_svsm_mpk_pkey_alloc svsm s
      in if k < 1 \<or> 15 < k then (g, s)
         else pkey_pool_fill svsm n
                (g\<lparr>g_pkey_pool := (g_pkey_pool g)[g_pkey_total g := k],
                   g_pkey_free := (g_pkey_free g)[g_pkey_total g := k],
                   g_pkey_total := g_pkey_total g + 1\<rparr>) s)"

definition pkey_pool_init :: "'x svsm \<Rightarrow> mpk_globals \<Rightarrow> 'x machine \<Rightarrow> int \<times> mpk_globals \<times> 'x machine" where
  "pkey_pool_init svsm g s =
     (let (g, s) = pkey_pool_fill svsm PKEY_POOL_SIZE g s
      in if g_pkey_total g = 0 then (- 1, g, s)
         else (0, g\<lparr>g_pkey_free_top := g_pkey_total g\<rparr>, s))"

definition pkey_pool_destroy :: "'x svsm \<Rightarrow> mpk_globals \<Rightarrow> 'x machine \<Rightarrow> mpk_globals \<times> 'x machine" where
  "pkey_pool_destroy svsm g s =
     (g\<lparr>g_pkey_total := 0, g_pkey_free_top := 0\<rparr>,
      fold (\<lambda>i s. snd (pal_svsm_mpk_free_pkey svsm (word_of_int (g_pkey_pool g ! i)) NULL 0 s))
        [0..<g_pkey_total g] s)"

definition pkey_pool_alloc :: "mpk_globals \<Rightarrow> int \<times> mpk_globals" where
  "pkey_pool_alloc g =
     (if g_pkey_free_top g = 0 then (- 1, g)
      else (g_pkey_free g ! (g_pkey_free_top g - 1), g\<lparr>g_pkey_free_top := g_pkey_free_top g - 1\<rparr>))"

definition pkey_pool_free :: "int \<Rightarrow> mpk_globals \<Rightarrow> mpk_globals" where
  "pkey_pool_free k g =
     (if g_pkey_free_top g < g_pkey_total g
      then g\<lparr>g_pkey_free := (g_pkey_free g)[g_pkey_free_top g := k],
             g_pkey_free_top := g_pkey_free_top g + 1\<rparr>
      else g)"

section \<open>Regions\<close>

definition mpk_region_map ::
  "'x svsm \<Rightarrow> u64 \<Rightarrow> int \<Rightarrow> mpk_globals \<Rightarrow> 'x machine \<Rightarrow> addr \<times> mpk_globals \<times> 'x machine" where
  "mpk_region_map svsm siz k g s =
     (let siz = align_up siz 4096;
          a = g_mpk_next_addr g;
          g = g\<lparr>g_mpk_next_addr := a + siz\<rparr>;
          rollback = g\<lparr>g_mpk_next_addr := a\<rparr>
      in if 0x28000000000 \<le> g_mpk_next_addr g then (NULL, rollback, s)
         else (let (ret, s) = (if 0 < k then pal_svsm_mpk_alloc svsm a siz (word_of_int k) s
                               else pal_svsm_virt_alloc svsm a siz 0x3 s)
               in if ret \<noteq> 0 then (NULL, rollback, s)
                  else (a, g, if k = 0 then s\<lparr>mem := snd (memset (mem s) a 0 siz)\<rparr> else s)))"

definition mpk_region_unmap_pkey :: "'x svsm \<Rightarrow> addr \<Rightarrow> u64 \<Rightarrow> int \<Rightarrow> 'x machine \<Rightarrow> 'x machine" where
  "mpk_region_unmap_pkey svsm base siz k s =
     (if base = NULL then s
      else if 0 < k then snd (pal_svsm_mpk_free svsm base (align_up siz 4096) s) else s)"

definition create_tracked_mspace :: "'x dlmalloc \<Rightarrow> addr \<Rightarrow> u64 \<Rightarrow> 'x machine \<Rightarrow> addr \<times> 'x machine" where
  "create_tracked_mspace dl base siz s =
     (let (msp, s) = create_mspace_with_base dl base siz 1 s
      in (msp, if msp \<noteq> NULL then mspace_track_large_chunks dl msp 1 s else s))"

section \<open>The allocator\<close>

definition mpk_allocator_init ::
  "'x svsm \<Rightarrow> 'x dlmalloc \<Rightarrow> mpk_globals \<Rightarrow> 'x machine \<Rightarrow> int \<times> mpk_globals \<times> 'x machine" where
  "mpk_allocator_init svsm dl g s =
     (if g_allocator_initialized g then (- 1, g, s)
      else (let (r, g, s) = pkey_pool_init svsm g s
            in if r \<noteq> 0 then (- 1, g, s)
               else (let g = g\<lparr>g_default_size := DEFAULT_HEAP_SIZE\<rparr>;
                         (base, g, s) = mpk_region_map svsm (g_default_size g) 0 g s;
                         g = g\<lparr>g_default_base := base\<rparr>
                     in if base = NULL
                        then (let (g, s) = pkey_pool_destroy svsm g s in (- 1, g, s))
                        else (let (msp, s) = create_tracked_mspace dl base (g_default_size g) s;
                                  g = g\<lparr>g_default_msp := msp\<rparr>
                              in if msp = NULL
                                 then (let s = mpk_region_unmap_pkey svsm base (g_default_size g) 0 s;
                                           g = g\<lparr>g_default_base := NULL\<rparr>;
                                           (g, s) = pkey_pool_destroy svsm g s
                                       in (- 1, g, s))
                                 else (0, g\<lparr>g_current_msp := msp, g_allocator_initialized := True\<rparr>, s)))))"

definition mpk_allocator_destroy ::
  "'x svsm \<Rightarrow> 'x dlmalloc \<Rightarrow> mpk_globals \<Rightarrow> 'x machine \<Rightarrow> mpk_globals \<times> 'x machine" where
  "mpk_allocator_destroy svsm dl g s =
     (if \<not> g_allocator_initialized g then (g, s)
      else (let (g, s) = (if g_default_msp g \<noteq> NULL
                          then (g\<lparr>g_default_msp := NULL\<rparr>, destroy_mspace dl (g_default_msp g) s) else (g, s));
                (g, s) = (if g_default_base g \<noteq> NULL
                          then (g\<lparr>g_default_base := NULL\<rparr>,
                                mpk_region_unmap_pkey svsm (g_default_base g) (g_default_size g) 0 s)
                          else (g, s));
                (g, s) = pkey_pool_destroy svsm g s
            in (g\<lparr>g_current_msp := NULL, g_allocator_initialized := False\<rparr>, s)))"

section \<open>Domains\<close>

definition mpk_domain_create ::
  "'x svsm \<Rightarrow> u64 \<Rightarrow> mpk_domain option \<Rightarrow> mpk_globals \<Rightarrow> 'x machine
   \<Rightarrow> int \<times> mpk_domain option \<times> mpk_globals \<times> 'x machine" where
  "mpk_domain_create svsm module_size domain g s =
     (case domain of
        None \<Rightarrow> (- 1, domain, g, s)
      | Some _ \<Rightarrow>
          if module_size < MIN_MSPACE_SIZE then (- 1, domain, g, s)
          else (let (k, g) = pkey_pool_alloc g
                in if k < 0 then (- 1, domain, g, s)
                   else (let module_size = align_up module_size 4096;
                             (base, g, s) = mpk_region_map svsm module_size k g s
                         in if base = NULL then (- 1, domain, pkey_pool_free k g, s)
                            else (0, Some \<lparr>pkey = k, region_base = base, region_size = module_size,
                                           module_msp = NULL\<rparr>, g, s))))"

definition mpk_domain_enter ::
  "'x svsm \<Rightarrow> 'x dlmalloc \<Rightarrow> mpk_domain option \<Rightarrow> mpk_globals \<Rightarrow> 'x machine
   \<Rightarrow> int \<times> mpk_domain option \<times> mpk_globals \<times> 'x machine" where
  "mpk_domain_enter svsm dl domain g s =
     (case domain of
        None \<Rightarrow> (- 1, domain, g, s)
      | Some d \<Rightarrow>
          if region_base d = NULL then (- 1, domain, g, s)
          else (let (ret, s) = pal_svsm_mpk_enter_domain svsm (word_of_int (pkey d)) s
                in if ret \<noteq> 0 then (- 1, domain, g, s)
                   else (let (d, s) = (if module_msp d = NULL
                                       then (let (msp, s) = create_tracked_mspace dl (region_base d) (region_size d) s
                                             in (d\<lparr>module_msp := msp\<rparr>, s))
                                       else (d, s))
                         in if module_msp d = NULL
                            then (- 1, Some d, g, snd (pal_svsm_mpk_exit_domain svsm (word_of_int (pkey d)) s))
                            else (0, Some d, g\<lparr>g_current_msp := module_msp d\<rparr>, s))))"

definition mpk_domain_exit ::
  "'x svsm \<Rightarrow> mpk_domain option \<Rightarrow> mpk_globals \<Rightarrow> 'x machine \<Rightarrow> mpk_globals \<times> 'x machine" where
  "mpk_domain_exit svsm domain g s =
     (let s = (case domain of None \<Rightarrow> s
               | Some d \<Rightarrow> snd (pal_svsm_mpk_exit_domain svsm (word_of_int (pkey d)) s))
      in (g\<lparr>g_current_msp := g_default_msp g\<rparr>, s))"

definition mpk_domain_destroy ::
  "'x svsm \<Rightarrow> 'x dlmalloc \<Rightarrow> mpk_domain option \<Rightarrow> mpk_globals \<Rightarrow> 'x machine
   \<Rightarrow> mpk_domain option \<times> mpk_globals \<times> 'x machine" where
  "mpk_domain_destroy svsm dl domain g s =
     (case domain of
        None \<Rightarrow> (domain, g, s)
      | Some d \<Rightarrow>
          if region_base d = NULL then (domain, g, s)
          else (let (d, g, s) =
                  (if module_msp d \<noteq> NULL
                   then (let (r, dom, g, s) = mpk_domain_enter svsm dl (Some d) g s;
                             d = the dom;
                             (g, s) = (if r \<noteq> 0 then (g, s)
                                       else (let s = destroy_mspace dl (module_msp d) s
                                             in mpk_domain_exit svsm (Some d) g s))
                         in (d\<lparr>module_msp := NULL\<rparr>, g, s))
                   else (d, g, s));
                  k = pkey d; base = region_base d; siz = region_size d;
                  d = d\<lparr>region_base := NULL, region_size := 0, pkey := 0\<rparr>;
                  g = pkey_pool_free k g;
                  (free_ret, s) = pal_svsm_mpk_free_pkey svsm (word_of_int k) base siz s
                in (Some d, g, s)))"

section \<open>Current key and allocation\<close>

definition mpk_set_current_pkey :: "int \<Rightarrow> mpk_globals \<Rightarrow> mpk_globals" where
  "mpk_set_current_pkey k g = g\<lparr>g_current_pkey := k\<rparr>"

definition mpk_get_current_pkey :: "mpk_globals \<Rightarrow> int" where
  "mpk_get_current_pkey g = g_current_pkey g"

definition mpk_malloc ::
  "'x dlmalloc \<Rightarrow> heap_globals \<Rightarrow> mpk_globals \<Rightarrow> u64 \<Rightarrow> 'x machine \<Rightarrow> addr \<times> 'x machine" where
  "mpk_malloc dl h g siz s =
     (let msp = g_current_msp g; msp = (if msp = NULL then g_default_msp g else msp)
      in if msp = NULL then pal_malloc dl h siz s else mspace_malloc dl msp siz s)"

definition mpk_free ::
  "'x dlmalloc \<Rightarrow> heap_globals \<Rightarrow> mpk_globals \<Rightarrow> addr \<Rightarrow> 'x machine \<Rightarrow> 'x machine" where
  "mpk_free dl h g ptr s =
     (if ptr = NULL then s
      else (let msp = g_current_msp g; msp = (if msp = NULL then g_default_msp g else msp)
            in if msp \<noteq> NULL then mspace_free dl msp ptr s else pal_free dl h ptr s))"

definition mpk_realloc ::
  "'x dlmalloc \<Rightarrow> heap_globals \<Rightarrow> mpk_globals \<Rightarrow> addr \<Rightarrow> u64 \<Rightarrow> 'x machine \<Rightarrow> addr \<times> 'x machine" where
  "mpk_realloc dl h g ptr siz s =
     (if ptr = NULL then mpk_malloc dl h g siz s
      else if siz = 0 then (NULL, mpk_free dl h g ptr s)
      else (let msp = g_current_msp g; msp = (if msp = NULL then g_default_msp g else msp)
            in if msp \<noteq> NULL then mspace_realloc dl msp ptr siz s else pal_realloc dl h ptr siz s))"

section \<open>Regions are bump-allocated\<close>

lemma mpk_region_map_cases:
  assumes "mpk_region_map svsm n k g s = (p, g', s')"
  obtains "p = NULL" "g' = g"
  | "p = g_mpk_next_addr g" "g' = g\<lparr>g_mpk_next_addr := g_mpk_next_addr g + align_up n 4096\<rparr>"
      "g_mpk_next_addr g + align_up n 4096 < 0x28000000000"
proof -
  let ?a = "g_mpk_next_addr g" and ?c = "align_up n 4096"
  obtain ret s1 where v: "(if 0 < k then pal_svsm_mpk_alloc svsm ?a ?c (word_of_int k) s
                           else pal_svsm_virt_alloc svsm ?a ?c 0x3 s) = (ret, s1)"
    by (cases "if 0 < k then pal_svsm_mpk_alloc svsm ?a ?c (word_of_int k) s
               else pal_svsm_virt_alloc svsm ?a ?c 0x3 s")
  have roll: "g\<lparr>g_mpk_next_addr := g_mpk_next_addr g\<rparr> = g" by simp
  have "mpk_region_map svsm n k g s =
      (if 0x28000000000 \<le> ?a + ?c then (NULL, g, s) else if ret \<noteq> 0 then (NULL, g, s1)
       else (?a, g\<lparr>g_mpk_next_addr := ?a + ?c\<rparr>,
             if k = 0 then s1\<lparr>mem := snd (memset (mem s1) ?a 0 ?c)\<rparr> else s1))"
    unfolding mpk_region_map_def Let_def by (simp add: v)
  then show thesis using assms that by (auto simp: not_le split: if_splits)
qed

interpretation mpk: bump_allocator
  "\<lambda>n (g, s). case mpk_region_map svsm n k g s of (p, g', s') \<Rightarrow> (p, g', s')"
  "\<lambda>st. g_mpk_next_addr (fst st)" "0x6000000000" "0x28000000000"
proof
  fix n and st :: "mpk_globals \<times> 'a machine" and p st'
  let ?alloc = "\<lambda>n (g, s). case mpk_region_map svsm n k g s of (p, g', s') \<Rightarrow> (p, g', s')"
  { assume "?alloc n st = (NULL, st')" "0x6000000000 \<le> unat (g_mpk_next_addr (fst st))"
    then show "g_mpk_next_addr (fst st') = g_mpk_next_addr (fst st)"
      by (cases st, cases st') (auto split: prod.splits elim!: mpk_region_map_cases)
  next
    assume m: "?alloc n st = (p, st')" "p \<noteq> NULL" "unat n \<le> 2 ^ 62"
      "unat (g_mpk_next_addr (fst st)) < 0x28000000000"
    have step: "unat (g_mpk_next_addr (fst st) + align_up n 4096)
        = unat (g_mpk_next_addr (fst st)) + page_up (unat n)"
      using m(3,4) by (intro bump_step [where limit = "0x28000000000"]) simp_all
    from m(1,2) step show "p = g_mpk_next_addr (fst st)
        \<and> unat (g_mpk_next_addr (fst st')) = unat p + page_up (unat n)
        \<and> unat (g_mpk_next_addr (fst st')) < 0x28000000000"
      by (cases st, cases st') (auto simp: word_less_nat_alt split: prod.splits elim!: mpk_region_map_cases) }
qed simp_all

section \<open>The allocator as a state machine\<close>

text \<open>
  The allocator with the domain structures of its clients.  A client creates into a structure that
  holds no region, asks for at most \<open>2 ^ 62\<close> bytes, and destroys its domains before the allocator.
\<close>

type_synonym 'x mpk_config = "mpk_globals \<times> mpk_domain list \<times> 'x machine"

definition dead :: "mpk_domain \<Rightarrow> bool" where
  "dead d \<longleftrightarrow> region_base d = NULL"

inductive mpk_step :: "'x svsm \<Rightarrow> 'x dlmalloc \<Rightarrow> 'x mpk_config \<Rightarrow> 'x mpk_config \<Rightarrow> bool"
  for svsm dl where
  init: "mpk_allocator_init svsm dl g s = (r, g', s') \<Longrightarrow> mpk_step svsm dl (g, ds, s) (g', ds, s')"
| destroy: "\<forall>d \<in> set ds. dead d \<Longrightarrow> mpk_allocator_destroy svsm dl g s = (g', s') \<Longrightarrow>
    mpk_step svsm dl (g, ds, s) (g', ds, s')"
| create: "i < length ds \<Longrightarrow> dead (ds ! i) \<Longrightarrow> unat n \<le> 2 ^ 62 \<Longrightarrow>
    mpk_domain_create svsm n (Some (ds ! i)) g s = (r, Some d, g', s') \<Longrightarrow>
    mpk_step svsm dl (g, ds, s) (g', ds[i := d], s')"
| enter: "i < length ds \<Longrightarrow> mpk_domain_enter svsm dl (Some (ds ! i)) g s = (r, Some d, g', s') \<Longrightarrow>
    mpk_step svsm dl (g, ds, s) (g', ds[i := d], s')"
| leave: "i < length ds \<Longrightarrow> mpk_domain_exit svsm (Some (ds ! i)) g s = (g', s') \<Longrightarrow>
    mpk_step svsm dl (g, ds, s) (g', ds, s')"
| free: "i < length ds \<Longrightarrow> mpk_domain_destroy svsm dl (Some (ds ! i)) g s = (Some d, g', s') \<Longrightarrow>
    mpk_step svsm dl (g, ds, s) (g', ds[i := d], s')"

definition live_keys :: "mpk_domain list \<Rightarrow> int multiset" where
  "live_keys ds = image_mset pkey (filter_mset (\<lambda>d. \<not> dead d) (mset ds))"

definition pool_keys :: "mpk_globals \<Rightarrow> int list" where
  "pool_keys g = take (g_pkey_total g) (g_pkey_pool g)"

definition free_keys :: "mpk_globals \<Rightarrow> int list" where
  "free_keys g = take (g_pkey_free_top g) (g_pkey_free g)"

definition region_end :: "mpk_domain \<Rightarrow> nat" where
  "region_end d = unat (region_base d) + unat (region_size d)"

text \<open>Keys: every key of the pool is free or owned by one live domain.\<close>

definition keys_inv :: "mpk_globals \<Rightarrow> mpk_domain list \<Rightarrow> bool" where
  "keys_inv g ds \<longleftrightarrow>
     length (g_pkey_pool g) = PKEY_POOL_MAX \<and> length (g_pkey_free g) = PKEY_POOL_MAX
     \<and> g_pkey_free_top g \<le> g_pkey_total g \<and> g_pkey_total g \<le> PKEY_POOL_MAX
     \<and> live_keys ds + mset (free_keys g) = mset (pool_keys g)
     \<and> (\<forall>k \<in> set (pool_keys g). 1 \<le> k \<and> k \<le> 15)"

text \<open>Regions: those of live domains are allocated and disjoint.\<close>

definition regions_inv :: "mpk_globals \<Rightarrow> mpk_domain list \<Rightarrow> bool" where
  "regions_inv g ds \<longleftrightarrow>
     0x6000000000 \<le> unat (g_mpk_next_addr g) \<and> unat (g_mpk_next_addr g) < 0x28000000000
     \<and> (\<forall>i < length ds. dead (ds ! i) \<or>
          0x6000000000 \<le> unat (region_base (ds ! i)) \<and> region_end (ds ! i) \<le> unat (g_mpk_next_addr g))
     \<and> (\<forall>i < length ds. \<forall>j < length ds. i = j \<or> dead (ds ! i) \<or> dead (ds ! j)
          \<or> region_end (ds ! i) \<le> unat (region_base (ds ! j))
          \<or> region_end (ds ! j) \<le> unat (region_base (ds ! i)))"

definition init_inv :: "mpk_globals \<Rightarrow> bool" where
  "init_inv g \<longleftrightarrow> (g_allocator_initialized g \<longleftrightarrow> 0 < g_pkey_total g)
     \<and> (g_allocator_initialized g \<longleftrightarrow> g_default_msp g \<noteq> NULL)"

section \<open>Every step keeps the invariant\<close>

definition mpk_inv :: "mpk_globals \<Rightarrow> mpk_domain list \<Rightarrow> bool" where
  "mpk_inv g ds \<longleftrightarrow> keys_inv g ds \<and> regions_inv g ds \<and> init_inv g"

lemma region_map_next:
  assumes "mpk_region_map svsm n k g s = (p, g', s')" "unat n \<le> 2 ^ 62"
    "unat (g_mpk_next_addr g) < 0x28000000000"
  shows "\<exists>a. g' = g\<lparr>g_mpk_next_addr := a\<rparr>"
    and "unat (g_mpk_next_addr g) \<le> unat (g_mpk_next_addr g')"
    and "unat (g_mpk_next_addr g') < 0x28000000000"
    and "p \<noteq> NULL \<Longrightarrow> p = g_mpk_next_addr g \<and> unat (g_mpk_next_addr g') = unat p + page_up (unat n)"
proof -
  have step: "unat (g_mpk_next_addr g + align_up n 4096) = unat (g_mpk_next_addr g) + page_up (unat n)"
    using assms(2,3) by (intro bump_step [where limit = "0x28000000000"]) simp_all
  have "(\<exists>a. g' = g\<lparr>g_mpk_next_addr := a\<rparr>)
    \<and> unat (g_mpk_next_addr g) \<le> unat (g_mpk_next_addr g') \<and> unat (g_mpk_next_addr g') < 0x28000000000
    \<and> (p \<noteq> NULL \<longrightarrow> p = g_mpk_next_addr g \<and> unat (g_mpk_next_addr g') = unat p + page_up (unat n))"
    using mpk_region_map_cases [OF assms(1)]
  proof cases
    case 1
    moreover have "g = g\<lparr>g_mpk_next_addr := g_mpk_next_addr g\<rparr>" by simp
    ultimately show ?thesis using assms(3) by blast
  next
    case 2
    then have "unat (g_mpk_next_addr g') < 0x28000000000" by (simp add: word_less_nat_alt)
    then show ?thesis using 2 step by auto
  qed
  then show "\<exists>a. g' = g\<lparr>g_mpk_next_addr := a\<rparr>"
    "unat (g_mpk_next_addr g) \<le> unat (g_mpk_next_addr g')" "unat (g_mpk_next_addr g') < 0x28000000000"
    "p \<noteq> NULL \<Longrightarrow> p = g_mpk_next_addr g \<and> unat (g_mpk_next_addr g') = unat p + page_up (unat n)"
    by blast+
qed

lemma regions_inv_next:
  "regions_inv g ds \<Longrightarrow> unat (g_mpk_next_addr g) \<le> unat (g_mpk_next_addr g') \<Longrightarrow>
   unat (g_mpk_next_addr g') < 0x28000000000 \<Longrightarrow> regions_inv g' ds"
  unfolding regions_inv_def by (meson order_trans)

lemma live_keys_dead: "\<forall>d \<in> set ds. dead d \<Longrightarrow> live_keys ds = {#}"
  by (simp add: live_keys_def)

lemma live_keys_update:
  assumes "i < length ds"
  shows "live_keys (ds[i := d]) + (if dead (ds ! i) then {#} else {#pkey (ds ! i)#})
       = live_keys ds + (if dead d then {#} else {#pkey d#})"
proof -
  obtain M where M: "mset ds = add_mset (ds ! i) M" using assms by (metis mset_add nth_mem_mset)
  then show ?thesis using assms by (simp add: live_keys_def mset_update)
qed

text \<open>Filling the pool.\<close>

text \<open>The fields the pool operations leave alone.\<close>

definition same_heap :: "mpk_globals \<Rightarrow> mpk_globals \<Rightarrow> bool" where
  "same_heap g g' \<longleftrightarrow> g_default_msp g' = g_default_msp g \<and> g_default_base g' = g_default_base g
     \<and> g_default_size g' = g_default_size g \<and> g_allocator_initialized g' = g_allocator_initialized g
     \<and> g_current_msp g' = g_current_msp g \<and> g_current_pkey g' = g_current_pkey g
     \<and> g_mpk_next_addr g' = g_mpk_next_addr g"

definition pool_ok :: "mpk_globals \<Rightarrow> bool" where
  "pool_ok g \<longleftrightarrow> length (g_pkey_pool g) = PKEY_POOL_MAX \<and> length (g_pkey_free g) = PKEY_POOL_MAX
     \<and> g_pkey_total g \<le> PKEY_POOL_MAX \<and> take (g_pkey_total g) (g_pkey_free g) = pool_keys g
     \<and> (\<forall>k \<in> set (pool_keys g). 1 \<le> k \<and> k \<le> 15)"

lemma pkey_pool_fill_inv:
  "pkey_pool_fill svsm n g s = (g', s') \<Longrightarrow> g_pkey_total g + n \<le> PKEY_POOL_MAX \<Longrightarrow> pool_ok g \<Longrightarrow>
   pool_ok g' \<and> same_heap g g' \<and> g_pkey_free_top g' = g_pkey_free_top g"
proof (induction n arbitrary: g s)
  case (Suc n)
  obtain k s1 where k: "pal_svsm_mpk_pkey_alloc svsm s = (k, s1)" by (cases "pal_svsm_mpk_pkey_alloc svsm s")
  show ?case
  proof (cases "k < 1 \<or> 15 < k")
    case True
    then show ?thesis using Suc.prems k by (auto simp: same_heap_def)
  next
    case False
    let ?g = "g\<lparr>g_pkey_pool := (g_pkey_pool g)[g_pkey_total g := k],
               g_pkey_free := (g_pkey_free g)[g_pkey_total g := k], g_pkey_total := g_pkey_total g + 1\<rparr>"
    have t: "take (Suc (g_pkey_total g)) (xs[g_pkey_total g := k]) = take (g_pkey_total g) xs @ [k]"
      if "length xs = PKEY_POOL_MAX" for xs
      using that Suc.prems(2) by (simp add: take_Suc_conv_app_nth)
    have "pool_ok ?g" using Suc.prems(2,3) False by (auto simp: pool_ok_def pool_keys_def t)
    moreover have "pkey_pool_fill svsm n ?g s1 = (g', s')" using Suc.prems(1) k False by simp
    ultimately show ?thesis using Suc.IH [of ?g s1] Suc.prems(2) by (simp add: same_heap_def)
  qed
qed (auto simp: same_heap_def)

lemma pkey_pool_init_inv:
  assumes "pkey_pool_init svsm g s = (r, g', s')" "keys_inv g ds" "g_pkey_total g = 0"
  shows "keys_inv g' ds \<and> (r = 0 \<longleftrightarrow> 0 < g_pkey_total g') \<and> same_heap g g'"
proof -
  obtain h s1 where f: "pkey_pool_fill svsm PKEY_POOL_SIZE g s = (h, s1)"
    by (cases "pkey_pool_fill svsm PKEY_POOL_SIZE g s")
  have live: "live_keys ds = {#}" "g_pkey_free_top g = 0"
    using assms(2,3) by (simp_all add: keys_inv_def pool_keys_def)
  have "pool_ok g" using assms(2,3) by (simp add: keys_inv_def pool_ok_def pool_keys_def)
  then have h: "pool_ok h" "same_heap g h" "g_pkey_free_top h = 0"
    using pkey_pool_fill_inv [OF f] assms(3) live by (simp_all add: PKEY_POOL_SIZE_def PKEY_POOL_MAX_def)
  have r: "g' = (if g_pkey_total h = 0 then h else h\<lparr>g_pkey_free_top := g_pkey_total h\<rparr>)"
    "r = (if g_pkey_total h = 0 then - 1 else 0)"
    using assms(1) f by (auto simp: pkey_pool_init_def split: if_splits)
  show ?thesis
    using h live unfolding r
    by (auto simp: keys_inv_def pool_ok_def pool_keys_def free_keys_def same_heap_def)
qed

lemma pkey_pool_destroy_inv:
  assumes "keys_inv g ds" "live_keys ds = {#}"
  shows "keys_inv (fst (pkey_pool_destroy svsm g s)) ds"
  using assms by (simp add: pkey_pool_destroy_def keys_inv_def pool_keys_def free_keys_def)

lemma keys_inv_cong:
  "keys_inv g ds \<Longrightarrow> g_pkey_pool g' = g_pkey_pool g \<Longrightarrow> g_pkey_free g' = g_pkey_free g \<Longrightarrow>
   g_pkey_free_top g' = g_pkey_free_top g \<Longrightarrow> g_pkey_total g' = g_pkey_total g \<Longrightarrow>
   live_keys ds' = live_keys ds \<Longrightarrow> keys_inv g' ds'"
  by (simp add: keys_inv_def pool_keys_def free_keys_def)

text \<open>Initialisation and destruction of the allocator.\<close>

lemma mpk_allocator_init_inv:
  assumes run: "mpk_allocator_init svsm dl g s = (r, g', s')" and inv: "mpk_inv g ds"
  shows "mpk_inv g' ds \<and> (r = 0 \<longrightarrow> g_allocator_initialized g')
    \<and> (r \<noteq> 0 \<and> \<not> g_allocator_initialized g \<longrightarrow> \<not> g_allocator_initialized g')"
proof (cases "g_allocator_initialized g")
  case True
  then show ?thesis using run inv by (auto simp: mpk_allocator_init_def)
next
  case un: False
  have k0: "keys_inv g ds" "regions_inv g ds" "g_pkey_total g = 0" "g_default_msp g = NULL"
    using inv un by (simp_all add: mpk_inv_def init_inv_def)
  obtain r1 h s1 where p: "pkey_pool_init svsm g s = (r1, h, s1)" by (cases "pkey_pool_init svsm g s")
  note h = pkey_pool_init_inv [OF p k0(1,3)]
  have hr: "regions_inv h ds" by (rule regions_inv_next [OF k0(2)]) (use h k0(2) in \<open>auto simp: same_heap_def regions_inv_def\<close>)
  have hm: "g_default_msp h = NULL" "\<not> g_allocator_initialized h" using h k0 un by (auto simp: same_heap_def)
  show ?thesis
  proof (cases "r1 = 0")
    case False
    then show ?thesis using run p un h hr hm by (auto simp: mpk_allocator_init_def mpk_inv_def init_inv_def)
  next
    case True
    let ?h = "h\<lparr>g_default_size := DEFAULT_HEAP_SIZE\<rparr>"
    obtain base h2 s2 where m: "mpk_region_map svsm DEFAULT_HEAP_SIZE 0 ?h s1 = (base, h2, s2)"
      by (cases "mpk_region_map svsm DEFAULT_HEAP_SIZE 0 ?h s1")
    have nx: "unat (g_mpk_next_addr ?h) < 0x28000000000" using hr by (simp add: regions_inv_def)
    have sz: "unat DEFAULT_HEAP_SIZE \<le> 2 ^ 62" by (simp add: DEFAULT_HEAP_SIZE_def)
    note mm = region_map_next [OF m sz nx]
    obtain a where a: "h2 = ?h\<lparr>g_mpk_next_addr := a\<rparr>" using mm(1) by blast
    let ?k = "h2\<lparr>g_default_base := base\<rparr>"
    have kk: "keys_inv ?k ds" by (rule keys_inv_cong [of h]) (use h a in auto)
    have kr: "regions_inv ?k ds"
      by (rule regions_inv_next [OF hr]) (use mm(2,3) in auto)
    have dead: "live_keys ds = {#}" using k0(1,3) by (simp add: keys_inv_def pool_keys_def)
    obtain msp s3 where c: "create_tracked_mspace dl base DEFAULT_HEAP_SIZE s2 = (msp, s3)"
      by (cases "create_tracked_mspace dl base DEFAULT_HEAP_SIZE s2")
    show ?thesis
    proof (cases "base = NULL \<or> msp = NULL")
      case False
      then have g': "g' = ?k\<lparr>g_default_msp := msp, g_current_msp := msp, g_allocator_initialized := True\<rparr>" "r = 0"
        using run p un True m c a by (auto simp: mpk_allocator_init_def Let_def)
      have "keys_inv g' ds" by (rule keys_inv_cong [OF kk]) (simp_all add: g')
      moreover have "regions_inv g' ds" by (rule regions_inv_next [OF kr]) (use mm(3) in \<open>simp_all add: g'\<close>)
      ultimately show ?thesis using False h True a by (simp add: mpk_inv_def init_inv_def g')
    next
      case fail: True
      have "r = - 1 \<and> g' = ?k\<lparr>g_default_base := NULL, g_default_msp := NULL, g_pkey_total := 0, g_pkey_free_top := 0\<rparr>"
      proof (cases "base = NULL")
        case True
        with run p un \<open>r1 = 0\<close> m a hm show ?thesis
          by (auto simp: mpk_allocator_init_def pkey_pool_destroy_def Let_def intro!: mpk_globals.equality)
      next
        case False
        with fail run p un \<open>r1 = 0\<close> m c a show ?thesis
          by (auto simp: mpk_allocator_init_def pkey_pool_destroy_def Let_def intro!: mpk_globals.equality)
      qed
      then have g': "g' = ?k\<lparr>g_default_base := NULL, g_default_msp := NULL, g_pkey_total := 0, g_pkey_free_top := 0\<rparr>"
        "r = - 1" by blast+
      have "keys_inv g' ds" using kk dead by (simp add: g' keys_inv_def pool_keys_def free_keys_def)
      moreover have "regions_inv g' ds" by (rule regions_inv_next [OF kr]) (use mm(3) in \<open>simp_all add: g'\<close>)
      ultimately show ?thesis using a hm by (simp add: mpk_inv_def init_inv_def g')
    qed
  qed
qed

lemma mpk_allocator_destroy_inv:
  assumes "mpk_allocator_destroy svsm dl g s = (g', s')" "mpk_inv g ds" "live_keys ds = {#}"
  shows "mpk_inv g' ds"
proof (cases "g_allocator_initialized g")
  case False
  then show ?thesis using assms by (simp add: mpk_allocator_destroy_def)
next
  case True
  have "g_default_msp g \<noteq> NULL" using assms(2) True by (simp add: mpk_inv_def init_inv_def)
  then have g': "g' = g\<lparr>g_default_msp := NULL, g_default_base := NULL, g_pkey_total := 0,
      g_pkey_free_top := 0, g_current_msp := NULL, g_allocator_initialized := False\<rparr>"
    using assms(1) True
    by (cases "g_default_base g = NULL")
      (auto simp: mpk_allocator_destroy_def pkey_pool_destroy_def Let_def intro!: mpk_globals.equality)
  have "keys_inv g' ds" using assms(2,3) by (simp add: g' mpk_inv_def keys_inv_def pool_keys_def free_keys_def)
  moreover have "regions_inv g' ds"
    by (rule regions_inv_next [of g]) (use assms(2) in \<open>simp_all add: g' mpk_inv_def regions_inv_def\<close>)
  ultimately show ?thesis by (simp add: mpk_inv_def init_inv_def g')
qed

text \<open>Entering and leaving change no key and no region.\<close>

lemma domain_enter_frame:
  assumes "mpk_domain_enter svsm dl (Some d) g s = (r, Some d', g', s')"
  shows "pkey d' = pkey d \<and> region_base d' = region_base d \<and> region_size d' = region_size d
    \<and> (g' = g \<or> (\<exists>m. g' = g\<lparr>g_current_msp := m\<rparr>))"
  using assms by (auto simp: mpk_domain_enter_def Let_def split: if_splits prod.splits)

lemma mpk_inv_current: "mpk_inv g ds \<Longrightarrow> mpk_inv (g\<lparr>g_current_msp := m\<rparr>) ds"
proof -
  assume inv: "mpk_inv g ds"
  have "keys_inv (g\<lparr>g_current_msp := m\<rparr>) ds"
    by (rule keys_inv_cong [of g]) (use inv in \<open>simp_all add: mpk_inv_def\<close>)
  moreover have "regions_inv (g\<lparr>g_current_msp := m\<rparr>) ds"
    by (rule regions_inv_next [of g]) (use inv in \<open>simp_all add: mpk_inv_def regions_inv_def\<close>)
  moreover have "init_inv (g\<lparr>g_current_msp := m\<rparr>)"
    using inv unfolding mpk_inv_def init_inv_def by (simp; blast)
  ultimately show ?thesis by (simp add: mpk_inv_def)
qed

lemma mpk_inv_same_domain:
  assumes "mpk_inv g ds" "i < length ds" "pkey d = pkey (ds ! i)"
    "region_base d = region_base (ds ! i)" "region_size d = region_size (ds ! i)"
  shows "mpk_inv g (ds[i := d])"
proof -
  have "dead d = dead (ds ! i)" using assms(4) by (simp add: dead_def)
  then have "live_keys (ds[i := d]) = live_keys ds"
    using live_keys_update [OF assms(2), of d] assms(3) by auto
  then have "keys_inv g (ds[i := d])" using assms(1) by (auto simp: mpk_inv_def intro: keys_inv_cong)
  moreover have "regions_inv g (ds[i := d])"
  proof -
    have eq: "dead (ds[i := d] ! j) = dead (ds ! j)" "region_base (ds[i := d] ! j) = region_base (ds ! j)"
      "region_end (ds[i := d] ! j) = region_end (ds ! j)" for j
      using assms(2,4,5) \<open>dead d = _\<close> by (auto simp: nth_list_update region_end_def)
    show ?thesis using assms(1) unfolding mpk_inv_def regions_inv_def length_list_update eq by blast
  qed
  ultimately show ?thesis using assms(1) by (simp add: mpk_inv_def)
qed

lemma mpk_domain_enter_inv:
  assumes "mpk_domain_enter svsm dl (Some (ds ! i)) g s = (r, Some d, g', s')" "mpk_inv g ds" "i < length ds"
  shows "mpk_inv g' (ds[i := d])"
  using domain_enter_frame [OF assms(1)] mpk_inv_same_domain [OF assms(2,3)] mpk_inv_current by metis

text \<open>Creation takes a key from the free stack; destruction puts it back.\<close>

lemma pkey_pool_alloc_free:
  assumes "pkey_pool_alloc g = (k, g')" "0 \<le> k" "g_pkey_free_top g \<le> g_pkey_total g"
    "g_pkey_total g \<le> length (g_pkey_free g)"
  shows "free_keys g = free_keys g' @ [k]" "g' = g\<lparr>g_pkey_free_top := g_pkey_free_top g - 1\<rparr>"
    "0 < g_pkey_free_top g" "k = g_pkey_free g ! (g_pkey_free_top g - 1)"
proof -
  have top: "0 < g_pkey_free_top g" "k = g_pkey_free g ! (g_pkey_free_top g - 1)"
    "g' = g\<lparr>g_pkey_free_top := g_pkey_free_top g - 1\<rparr>"
    using assms(1,2) by (auto simp: pkey_pool_alloc_def split: if_splits)
  then obtain t where t: "g_pkey_free_top g = Suc t" by (cases "g_pkey_free_top g") auto
  then have "t < length (g_pkey_free g)" using assms(3,4) by simp
  then show "free_keys g = free_keys g' @ [k]"
    using top t by (simp add: free_keys_def take_Suc_conv_app_nth)
  show "g' = g\<lparr>g_pkey_free_top := g_pkey_free_top g - 1\<rparr>" "0 < g_pkey_free_top g"
    "k = g_pkey_free g ! (g_pkey_free_top g - 1)" using top by blast+
qed

lemma pkey_pool_free_push:
  assumes "g_pkey_free_top g < g_pkey_total g" "g_pkey_total g \<le> length (g_pkey_free g)"
  shows "free_keys (pkey_pool_free k g) = free_keys g @ [k]"
  using assms by (simp add: pkey_pool_free_def free_keys_def take_Suc_conv_app_nth)

lemma regions_inv_add:
  assumes "regions_inv g ds" "i < length ds" "\<not> dead d \<longrightarrow> unat (g_mpk_next_addr g) \<le> unat (region_base d)
      \<and> region_end d \<le> unat (g_mpk_next_addr g')" "unat (g_mpk_next_addr g) \<le> unat (g_mpk_next_addr g')"
    "unat (g_mpk_next_addr g') < 0x28000000000"
  shows "regions_inv g' (ds[i := d])"
proof -
  have old: "dead (ds ! j) \<or> 0x6000000000 \<le> unat (region_base (ds ! j))
      \<and> region_end (ds ! j) \<le> unat (g_mpk_next_addr g)" if "j < length ds" for j
    using assms(1) that by (auto simp: regions_inv_def)
  have base: "0x6000000000 \<le> unat (g_mpk_next_addr g)" using assms(1) by (simp add: regions_inv_def)
  have "dead (ds[i := d] ! j) \<or> 0x6000000000 \<le> unat (region_base (ds[i := d] ! j))
      \<and> region_end (ds[i := d] ! j) \<le> unat (g_mpk_next_addr g')" if "j < length ds" for j
    using old [OF that] assms(2-4) base that by (cases "j = i") auto
  moreover have "i = j \<or> dead (ds[i := d] ! j) \<or> dead d
      \<or> region_end (ds[i := d] ! j) \<le> unat (region_base d)" if "j < length ds" for j
    using old [OF that] assms(2,3) that by (cases "j = i") auto
  moreover have "j = k \<or> dead (ds ! j) \<or> dead (ds ! k) \<or> region_end (ds ! j) \<le> unat (region_base (ds ! k))
      \<or> region_end (ds ! k) \<le> unat (region_base (ds ! j))" if "j < length ds" "k < length ds" for j k
    using assms(1) that by (auto simp: regions_inv_def)
  ultimately show ?thesis
    using assms(2,4,5) base unfolding regions_inv_def length_list_update nth_list_update [OF assms(2)]
    by (smt (verit) nth_list_update order_trans)
qed

lemma align_up_idem:
  assumes "unat n \<le> 2 ^ 62"
  shows "unat (align_up (align_up n 4096) 4096) = page_up (unat n)" "unat (align_up n 4096) = page_up (unat n)"
    "unat (align_up n 4096) \<le> 2 ^ 62"
proof -
  show 1: "unat (align_up n 4096) = page_up (unat n)" using assms by (intro align_up_page) simp
  have d: "page_up (page_up k) = page_up k" for k by (simp add: page_up_def)
  have "page_up (unat n) \<le> 2 ^ 62"
  proof -
    have "unat n + 4095 < (2 ^ 50 + 1) * 4096" using assms by simp
    then have "(unat n + 4095) div 4096 \<le> 2 ^ 50" using less_mult_imp_div_less by fastforce
    then show ?thesis by (simp add: page_up_def)
  qed
  then show "unat (align_up n 4096) \<le> 2 ^ 62" using 1 by simp
  then have "unat (align_up (align_up n 4096) 4096) = page_up (unat (align_up n 4096))"
    by (intro align_up_page) simp
  then show "unat (align_up (align_up n 4096) 4096) = page_up (unat n)" using 1 d by simp
qed

lemma page_up_idem: "page_up (page_up k) = page_up k"
  by (simp add: page_up_def)

lemma mpk_domain_create_inv:
  assumes run: "mpk_domain_create svsm n (Some (ds ! i)) g s = (r, Some d, g', s')" and inv: "mpk_inv g ds"
    and i: "i < length ds" "dead (ds ! i)" and n: "unat n \<le> 2 ^ 62"
  shows "mpk_inv g' (ds[i := d]) \<and> (r = 0 \<longleftrightarrow> \<not> dead d) \<and> (r \<noteq> 0 \<longrightarrow> d = ds ! i)"
proof -
  have unchanged: ?thesis if "r = - 1" "d = ds ! i" "g' = g"
    using that inv i by simp
  obtain k h where p: "pkey_pool_alloc g = (k, h)" by (cases "pkey_pool_alloc g")
  show ?thesis
  proof (cases "n < MIN_MSPACE_SIZE \<or> k < 0")
    case True
    have "h = g" if "k < 0"
    proof (cases "g_pkey_free_top g")
      case 0
      then show ?thesis using p by (simp add: pkey_pool_alloc_def)
    next
      case (Suc t)
      have ki: "keys_inv g ds" using inv by (simp add: mpk_inv_def)
      then have "t < length (g_pkey_free g)" using Suc by (simp add: keys_inv_def)
      then have "g_pkey_free g ! t \<in> set (free_keys g)"
        using Suc by (simp add: free_keys_def take_Suc_conv_app_nth)
      then have "g_pkey_free g ! t \<in># mset (pool_keys g)" using ki unfolding keys_inv_def
        by (metis set_mset_mset union_iff)
      then have "1 \<le> g_pkey_free g ! t" using ki by (simp add: keys_inv_def)
      then show ?thesis using p that Suc by (simp add: pkey_pool_alloc_def)
    qed
    moreover have "mpk_domain_create svsm n (Some (ds ! i)) g s
        = (- 1, Some (ds ! i), if n < MIN_MSPACE_SIZE then g else h, s)"
      using True by (auto simp: mpk_domain_create_def p)
    ultimately have "r = - 1" "d = ds ! i" "g' = g" using run True by (auto split: if_splits)
    then show ?thesis by (rule unchanged)
  next
    case False
    let ?n = "align_up n 4096"
    have ki: "keys_inv g ds" "regions_inv g ds" "init_inv g" using inv by (simp_all add: mpk_inv_def)
    have lens: "g_pkey_free_top g \<le> g_pkey_total g" "g_pkey_total g \<le> length (g_pkey_free g)"
      using ki(1) by (simp_all add: keys_inv_def)
    note pop = pkey_pool_alloc_free [OF p _ lens]
    have top: "free_keys g = free_keys h @ [k]" "h = g\<lparr>g_pkey_free_top := g_pkey_free_top g - 1\<rparr>"
      "0 < g_pkey_free_top g" "k = g_pkey_free g ! (g_pkey_free_top g - 1)" using pop False by auto
    obtain base h2 s2 where m: "mpk_region_map svsm ?n k h s = (base, h2, s2)"
      by (cases "mpk_region_map svsm ?n k h s")
    have nh: "g_mpk_next_addr h = g_mpk_next_addr g" by (simp add: top(2))
    have nx: "unat (g_mpk_next_addr h) < 0x28000000000" using ki(2) by (simp add: nh regions_inv_def)
    note mm = region_map_next [OF m align_up_idem(3) [OF n] nx]
    obtain a where a: "h2 = h\<lparr>g_mpk_next_addr := a\<rparr>" using mm(1) by blast
    show ?thesis
    proof (cases "base = NULL")
      case True
      have h2: "h2 = h" using mpk_region_map_cases [OF m]
      proof cases
        case 2
        then show ?thesis using True ki(2) by (simp add: nh regions_inv_def)
      qed simp
      have "pkey_pool_free k h = g"
      proof -
        have "pkey_pool_free k h = g\<lparr>g_pkey_free := (g_pkey_free g)[g_pkey_free_top g - 1 := k],
            g_pkey_free_top := g_pkey_free_top g\<rparr>"
          using top(2,3) lens by (simp add: pkey_pool_free_def)
        also have "(g_pkey_free g)[g_pkey_free_top g - 1 := k] = g_pkey_free g" by (simp add: top(4))
        finally show ?thesis by simp
      qed
      then have "r = - 1" "d = ds ! i" "g' = g"
        using run p False m True h2 by (simp_all add: mpk_domain_create_def Let_def)
      then show ?thesis by (rule unchanged)
    next
      case base: False
      have res: "d = \<lparr>pkey = k, region_base = base, region_size = ?n, module_msp = NULL\<rparr>" "g' = h2" "r = 0"
        using run p False m base by (auto simp: mpk_domain_create_def Let_def)
      have nd: "\<not> dead d" using base by (simp add: dead_def res)
      have live: "live_keys (ds[i := d]) = add_mset k (live_keys ds)"
        using live_keys_update [OF i(1), of d] i(2) nd by (simp add: res)
      have "keys_inv g' (ds[i := d])"
        using ki(1) top(1) unfolding keys_inv_def live
        by (auto simp: res a top(2) pool_keys_def free_keys_def)
      moreover have "regions_inv g' (ds[i := d])"
        unfolding res(2)
      proof (rule regions_inv_add [OF ki(2) i(1)])
        show "\<not> dead d \<longrightarrow> unat (g_mpk_next_addr g) \<le> unat (region_base d) \<and> region_end d \<le> unat (g_mpk_next_addr h2)"
          using mm(4) [OF base] align_up_idem(2) [OF n] by (simp add: res region_end_def nh page_up_idem)
      qed (use mm(2,3) nh in simp_all)
      moreover have "init_inv g'" using ki(3) by (auto simp: init_inv_def res a top(2))
      ultimately show ?thesis using nd res by (simp add: mpk_inv_def)
    qed
  qed
qed

lemma mpk_domain_destroy_cases:
  assumes "mpk_domain_destroy svsm dl (Some e) g s = (Some d, g', s')" "\<not> dead e"
  shows "dead d \<and> (\<exists>m s1. (g' = pkey_pool_free (pkey e) g \<or> g' = pkey_pool_free (pkey e) (g\<lparr>g_current_msp := m\<rparr>))
    \<and> s' = snd (pal_svsm_mpk_free_pkey svsm (word_of_int (pkey e)) (region_base e) (region_size e) s1))"
proof (cases "module_msp e = NULL")
  case True
  then show ?thesis using assms by (auto simp: mpk_domain_destroy_def dead_def Let_def case_prod_unfold)
next
  case False
  obtain r dom h s1 where en: "mpk_domain_enter svsm dl (Some e) g s = (r, dom, h, s1)"
    by (cases "mpk_domain_enter svsm dl (Some e) g s")
  then obtain e' where e': "dom = Some e'"
    by (auto simp: mpk_domain_enter_def Let_def split: if_splits prod.splits)
  note fr = domain_enter_frame [OF en [unfolded e']]
  show ?thesis
  proof (cases "r = 0")
    case True
    then have "g' = pkey_pool_free (pkey e) (h\<lparr>g_current_msp := g_default_msp h\<rparr>)"
      using assms False en e' fr
      by (auto simp: mpk_domain_destroy_def dead_def Let_def case_prod_unfold mpk_domain_exit_def)
    then show ?thesis using True assms False en e' fr
      by (auto simp: mpk_domain_destroy_def dead_def Let_def case_prod_unfold mpk_domain_exit_def)
  next
    case r: False
    then show ?thesis using assms False en e' fr
      by (auto simp: mpk_domain_destroy_def dead_def Let_def case_prod_unfold)
  qed
qed

lemma mpk_domain_destroy_inv:
  assumes run: "mpk_domain_destroy svsm dl (Some (ds ! i)) g s = (Some d, g', s')" and inv: "mpk_inv g ds"
    and i: "i < length ds"
  shows "mpk_inv g' (ds[i := d]) \<and> dead d"
proof (cases "dead (ds ! i)")
  case True
  then have "d = ds ! i" "g' = g" using run by (auto simp: mpk_domain_destroy_def dead_def)
  then show ?thesis using inv True i by simp
next
  case False
  let ?k = "pkey (ds ! i)"
  obtain h where h: "g' = pkey_pool_free ?k h" "mpk_inv h ds" and d: "dead d"
    using mpk_domain_destroy_cases [OF run False] inv mpk_inv_current by metis
  have ki: "keys_inv h ds" "regions_inv h ds" "init_inv h" using h(2) by (simp_all add: mpk_inv_def)
  have live: "live_keys ds = add_mset ?k (live_keys (ds[i := d]))"
    using live_keys_update [OF i, of d] d False by simp
  have "size (live_keys ds) + g_pkey_free_top h = g_pkey_total h"
  proof -
    have "size (live_keys ds + mset (free_keys h)) = size (mset (pool_keys h))"
      using ki(1) unfolding keys_inv_def by metis
    then show ?thesis using ki(1) by (simp add: keys_inv_def free_keys_def pool_keys_def)
  qed
  then have lt: "g_pkey_free_top h < g_pkey_total h" by (simp add: live)
  have len: "g_pkey_total h \<le> length (g_pkey_free h)" using ki(1) by (simp add: keys_inv_def)
  note push = pkey_pool_free_push [OF lt len, of ?k]
  have g': "g' = h\<lparr>g_pkey_free := (g_pkey_free h)[g_pkey_free_top h := ?k], g_pkey_free_top := g_pkey_free_top h + 1\<rparr>"
    using lt by (simp add: h(1) pkey_pool_free_def)
  have "mset (free_keys g') = add_mset ?k (mset (free_keys h))" using push by (simp add: h(1))
  then have "keys_inv g' (ds[i := d])"
    using ki(1) lt live unfolding keys_inv_def by (simp add: g' pool_keys_def)
  moreover have "regions_inv g' (ds[i := d])"
    by (rule regions_inv_add [OF ki(2) i]) (use d ki(2) in \<open>simp_all add: g' regions_inv_def\<close>)
  moreover have "init_inv g'" using ki(3) unfolding init_inv_def g' by (simp; blast)
  ultimately show ?thesis using d by (simp add: mpk_inv_def)
qed

lemma mpk_step_inv:
  "mpk_step svsm dl c c' \<Longrightarrow> mpk_inv (fst c) (fst (snd c)) \<Longrightarrow> mpk_inv (fst c') (fst (snd c'))"
proof (induction rule: mpk_step.induct)
  case (init g s r g' s' ds)
  then show ?case using mpk_allocator_init_inv by simp blast
next
  case (destroy ds g s g' s')
  then show ?case using mpk_allocator_destroy_inv live_keys_dead by simp blast
next
  case (create i ds n g s r d g' s')
  then show ?case using mpk_domain_create_inv [OF create(4)] by simp
next
  case (enter i ds g s r d g' s')
  then show ?case using mpk_domain_enter_inv [OF enter(2)] by simp
next
  case (leave i ds g s g' s')
  then show ?case using mpk_inv_current by (auto simp: mpk_domain_exit_def)
next
  case (free i ds g s d g' s')
  then show ?case using mpk_domain_destroy_inv [OF free(2)] by simp
qed

lemma mpk_start_inv: "\<forall>d \<in> set ds. dead d \<Longrightarrow> mpk_inv mpk_start ds"
  by (simp add: mpk_inv_def keys_inv_def regions_inv_def init_inv_def mpk_start_def live_keys_dead
      free_keys_def pool_keys_def PKEY_POOL_MAX_def MPK_REGION_BASE_def)

section \<open>Properties\<close>

text \<open>
  C18: in every state that client calls can reach, whatever the monitor and dlmalloc answer, each
  key of the pool is on the free stack or owned by exactly one live domain, keys are between 1 and
  15, live domains have disjoint regions below the input channel, and the allocator is initialised
  exactly when it holds keys and a default heap.
\<close>
theorem mpk_reachable_inv:
  assumes "(mpk_step svsm dl)\<^sup>*\<^sup>* (mpk_start, ds, s) (g', ds', s')" "\<forall>d \<in> set ds. dead d"
  shows "keys_inv g' ds' \<and> regions_inv g' ds' \<and> init_inv g'"
proof -
  have "mpk_inv (fst c) (fst (snd c))" if "(mpk_step svsm dl)\<^sup>*\<^sup>* (mpk_start, ds, s) c" for c
    using that
  proof (induction rule: rtranclp_induct)
    case base
    then show ?case using mpk_start_inv [OF assms(2)] by simp
  next
    case (step y z)
    then show ?case using mpk_step_inv by blast
  qed
  from this [OF assms(1)] show ?thesis by (simp add: mpk_inv_def)
qed

text \<open>
  C34: destroying a domain gives its key back twice, to the local free stack and to the monitor,
  which is asked to release it; the next domain is created with that same, released key and no new
  key is requested.
\<close>
theorem pkey_reused_after_release:
  assumes "mpk_domain_create svsm n (Some e) g s = (0, Some d, g1, s1)" "mpk_inv g []"
    and "mpk_domain_destroy svsm dl (Some d) g1 s1 = (Some d', g2, s2)"
    and "mpk_domain_create svsm n2 (Some d') g2 s2 = (0, Some d2, g3, s3)"
  shows "pkey d2 = pkey d
    \<and> (\<exists>t. s2 = snd (pal_svsm_mpk_free_pkey svsm (word_of_int (pkey d)) (region_base d) (region_size d) t))"
proof -
  obtain k h where p: "pkey_pool_alloc g = (k, h)" by (cases "pkey_pool_alloc g")
  have c: "0 \<le> k" "pkey d = k" "\<not> dead d" "\<exists>a. g1 = h\<lparr>g_mpk_next_addr := a\<rparr> \<or> g1 = h"
    using assms(1) p
    by (auto simp: mpk_domain_create_def Let_def dead_def split: if_splits prod.splits
        elim!: mpk_region_map_cases)
  have lens: "g_pkey_free_top g \<le> g_pkey_total g" "g_pkey_total g \<le> length (g_pkey_free g)"
    using assms(2) by (simp_all add: mpk_inv_def keys_inv_def)
  note pop = pkey_pool_alloc_free [OF p c(1) lens]
  obtain t h2 where d: "s2 = snd (pal_svsm_mpk_free_pkey svsm (word_of_int (pkey d)) (region_base d) (region_size d) t)"
    and h2: "g2 = pkey_pool_free (pkey d) h2" "h2 = g1 \<or> (\<exists>m. h2 = g1\<lparr>g_current_msp := m\<rparr>)"
    using mpk_domain_destroy_cases [OF assms(3) c(3)] by blast
  have "g_pkey_free_top h2 < g_pkey_total h2" "g_pkey_total h2 \<le> length (g_pkey_free h2)"
    using h2(2) c(4) pop(2,3) lens by auto
  then have "pkey_pool_alloc g2 = (pkey d, h2\<lparr>g_pkey_free := (g_pkey_free h2)[g_pkey_free_top h2 := pkey d]\<rparr>)"
    by (simp add: h2(1) pkey_pool_free_def pkey_pool_alloc_def)
  then have "pkey d2 = pkey d"
    using assms(4) by (auto simp: mpk_domain_create_def Let_def split: if_splits prod.splits option.splits)
  then show ?thesis using d by blast
qed

text \<open>A monitor that grants every request, with key 1; it is used by the witnesses.\<close>

definition granting_svsm :: "unit svsm" where
  "granting_svsm r _ s = ((1, 0, 0, 0), s)"

lemma granting_calls:
  "pal_svsm_mpk_pkey_alloc granting_svsm s = (1, s)"
  "pal_svsm_mpk_alloc granting_svsm a n k s = (0, s)"
  "pal_svsm_virt_alloc granting_svsm a n f s = (0, s)"
  "pal_svsm_mpk_free_pkey granting_svsm k a n s = (0, s)"
  by (simp_all add: pal_svsm_mpk_pkey_alloc_def pal_svsm_mpk_alloc_def pal_svsm_virt_alloc_def
      pal_svsm_mpk_free_pkey_def monitor_call_def granting_svsm_def call4_def int_of_u64_def)

definition demo_domain :: mpk_domain where
  "demo_domain = \<lparr>pkey = 0, region_base = NULL, region_size = 0, module_msp = NULL\<rparr>"

lemma demo_init:
  "\<exists>g s'. mpk_allocator_init granting_svsm first_fit_dl mpk_start s = (0, g, s')
     \<and> g_pkey_free_top g = 1 \<and> g_pkey_total g = 1 \<and> g_pkey_free g ! 0 = 1
     \<and> length (g_pkey_free g) = PKEY_POOL_MAX \<and> g_mpk_next_addr g = 0x6000400000"
  by (simp add: mpk_allocator_init_def mpk_start_def pkey_pool_init_def PKEY_POOL_SIZE_def granting_calls
      mpk_region_map_def DEFAULT_HEAP_SIZE_def MPK_REGION_BASE_def align_up_def create_tracked_mspace_def
      first_fit_dl_def PKEY_POOL_MAX_def Let_def)

lemma demo_create:
  assumes "g_pkey_free_top g = 1" "g_pkey_free g ! 0 = 1" "g_mpk_next_addr g = 0x6000400000"
  shows "\<exists>g'. mpk_domain_create granting_svsm 0x10000 (Some demo_domain) g s
      = (0, Some \<lparr>pkey = 1, region_base = 0x6000400000, region_size = 0x10000, module_msp = NULL\<rparr>, g', s)
     \<and> g_pkey_free_top g' = 0 \<and> g_pkey_total g' = g_pkey_total g \<and> g_pkey_free g' = g_pkey_free g
     \<and> g_mpk_next_addr g' = 0x6000410000"
  using assms by (simp add: mpk_domain_create_def demo_domain_def MIN_MSPACE_SIZE_def pkey_pool_alloc_def
      mpk_region_map_def granting_calls align_up_def Let_def)

theorem mpk_reachable_inv_witness:
  "\<exists>g' ds' s'. (mpk_step granting_svsm first_fit_dl)\<^sup>*\<^sup>*
      (mpk_start, [demo_domain], \<lparr>mem = (\<lambda>_. 7), world = ()\<rparr>) (g', ds', s')
    \<and> live_keys ds' = {#1#} \<and> keys_inv g' ds' \<and> regions_inv g' ds' \<and> init_inv g'"
proof -
  let ?s = "\<lparr>mem = (\<lambda>_. 7), world = ()\<rparr> :: unit machine"
  let ?d = "\<lparr>pkey = 1, region_base = 0x6000400000, region_size = 0x10000, module_msp = NULL\<rparr>"
  obtain g s1 where i: "mpk_allocator_init granting_svsm first_fit_dl mpk_start ?s = (0, g, s1)"
    "g_pkey_free_top g = 1" "g_pkey_free g ! 0 = 1" "g_mpk_next_addr g = 0x6000400000"
    using demo_init [of ?s] by blast
  obtain g' where c: "mpk_domain_create granting_svsm 0x10000 (Some demo_domain) g s1 = (0, Some ?d, g', s1)"
    using demo_create [OF i(2-4), of s1] by blast
  have a: "mpk_step granting_svsm first_fit_dl (g, [demo_domain], s1) (g', [demo_domain][0 := ?d], s1)"
    by (rule mpk_step.create) (use c in \<open>simp_all add: dead_def demo_domain_def\<close>)
  have run: "(mpk_step granting_svsm first_fit_dl)\<^sup>*\<^sup>* (mpk_start, [demo_domain], ?s) (g', [?d], s1)"
    by (rule converse_rtranclp_into_rtranclp, rule mpk_step.init [OF i(1)]) (use a in simp)
  have "live_keys [?d] = {#1#}" by (simp add: live_keys_def dead_def)
  moreover have "keys_inv g' [?d] \<and> regions_inv g' [?d] \<and> init_inv g'"
    by (rule mpk_reachable_inv [OF run]) (simp add: dead_def demo_domain_def)
  ultimately show ?thesis using run by blast
qed

theorem pkey_reused_after_release_witness:
  "\<exists>g g1 g2 g3 d d' d2 s s1 s2 s3.
      mpk_domain_create granting_svsm 0x10000 (Some demo_domain) g s = (0, Some d, g1, s1)
    \<and> mpk_domain_destroy granting_svsm first_fit_dl (Some d) g1 s1 = (Some d', g2, s2)
    \<and> mpk_domain_create granting_svsm 0x10000 (Some d') g2 s2 = (0, Some d2, g3, s3)
    \<and> pkey d2 = pkey d
    \<and> (\<exists>t. s2 = snd (pal_svsm_mpk_free_pkey granting_svsm (word_of_int (pkey d)) (region_base d) (region_size d) t))"
proof -
  let ?s = "\<lparr>mem = (\<lambda>_. 7), world = ()\<rparr> :: unit machine"
  let ?d = "\<lparr>pkey = 1, region_base = 0x6000400000, region_size = 0x10000, module_msp = NULL\<rparr>"
  obtain g s1 where i: "mpk_allocator_init granting_svsm first_fit_dl mpk_start ?s = (0, g, s1)"
    "g_pkey_free_top g = 1" "g_pkey_total g = 1" "g_pkey_free g ! 0 = 1"
    "length (g_pkey_free g) = PKEY_POOL_MAX" "g_mpk_next_addr g = 0x6000400000"
    using demo_init [of ?s] by blast
  obtain g1 where c: "mpk_domain_create granting_svsm 0x10000 (Some demo_domain) g s1 = (0, Some ?d, g1, s1)"
    "g_pkey_free_top g1 = 0" "g_pkey_total g1 = 1" "g_pkey_free g1 = g_pkey_free g" "g_mpk_next_addr g1 = 0x6000410000"
    using demo_create [OF i(2,4,6), of s1] i(3) by auto
  let ?g2 = "g1\<lparr>g_pkey_free := (g_pkey_free g)[0 := 1], g_pkey_free_top := 1\<rparr>"
  have d: "mpk_domain_destroy granting_svsm first_fit_dl (Some ?d) g1 s1 = (Some demo_domain, ?g2, s1)"
    by (simp add: mpk_domain_destroy_def granting_calls demo_domain_def pkey_pool_free_def c)
  obtain g3 s3 where e: "mpk_domain_create granting_svsm 0x10000 (Some demo_domain) ?g2 s1
      = (0, Some \<lparr>pkey = 1, region_base = 0x6000410000, region_size = 0x10000, module_msp = NULL\<rparr>, g3, s3)"
    using i(5) by (auto simp: mpk_domain_create_def demo_domain_def MIN_MSPACE_SIZE_def pkey_pool_alloc_def
      mpk_region_map_def granting_calls align_up_def Let_def c PKEY_POOL_MAX_def)
  have inv: "mpk_inv g []"
    using mpk_allocator_init_inv [OF i(1)] mpk_start_inv [of "[]"] by simp
  show ?thesis
    by (rule exI)+ (rule conjI, rule c(1), rule conjI, rule d, rule conjI, rule e,
        rule pkey_reused_after_release [OF c(1) inv d e])
qed

end
