(* ===== verification/Vmpl1_Platform.thy ===== *)
theory Vmpl1_Platform
  imports Pal_Heap Vmpl1_Thread
begin

text \<open>
  \<open>wamr-pal/platform/vmpl1/vmpl1_platform.c\<close> and \<open>vmpl1_time.c\<close>: the remaining platform functions
  WAMR calls, memory through the heap of \<open>Pal_Heap\<close> and output through the console of
  \<open>Monitor_Call\<close>.  The static \<open>print_function\<close> is an argument, None for NULL; local buffers stand at
  an address of the stack frame that is an argument, too.
\<close>

section \<open>Memory\<close>

type_synonym 'x os_print_function = "addr \<Rightarrow> 'x machine \<Rightarrow> 'x machine"

definition os_set_print_function :: "'x os_print_function option \<Rightarrow> 'x os_print_function option" where
  "os_set_print_function pf = pf"

definition bh_platform_init :: bht where "bh_platform_init = BHT_OK"

text \<open>\<open>(size_t)size\<close> of an \<open>unsigned\<close>.\<close>

definition os_malloc :: "'x dlmalloc \<Rightarrow> heap_globals \<Rightarrow> u32 \<Rightarrow> 'x machine \<Rightarrow> addr \<times> 'x machine" where
  "os_malloc dl g siz s = pal_malloc dl g (ucast siz) s"

definition os_realloc :: "'x dlmalloc \<Rightarrow> heap_globals \<Rightarrow> addr \<Rightarrow> u32 \<Rightarrow> 'x machine \<Rightarrow> addr \<times> 'x machine" where
  "os_realloc dl g ptr siz s = pal_realloc dl g ptr (ucast siz) s"

definition os_free :: "'x dlmalloc \<Rightarrow> heap_globals \<Rightarrow> addr \<Rightarrow> 'x machine \<Rightarrow> 'x machine" where
  "os_free dl g ptr s = pal_free dl g ptr s"

section \<open>Output\<close>

definition FIXED_BUFFER_SIZE :: u64 where "FIXED_BUFFER_SIZE = 512"

definition os_vprintf ::
  "'x svsm \<Rightarrow> 'x os_print_function option \<Rightarrow> addr \<Rightarrow> addr \<Rightarrow> va_slots \<Rightarrow> 'x machine
   \<Rightarrow> (int \<times> 'x machine) option" where
  "os_vprintf svsm print_function buf format ap s =
     (case vsnprintf (mem s) buf FIXED_BUFFER_SIZE format ap of
        None \<Rightarrow> None
      | Some (n, m) \<Rightarrow>
          (let s = s\<lparr>mem := m\<rparr>
           in case print_function of
                Some pf \<Rightarrow> Some (n, pf buf s)
              | None \<Rightarrow> map_option (\<lambda>s. (n, s)) (pal_svsm_debug_print svsm buf s)))"

definition os_printf ::
  "'x svsm \<Rightarrow> 'x os_print_function option \<Rightarrow> addr \<Rightarrow> addr \<Rightarrow> va_slots \<Rightarrow> 'x machine
   \<Rightarrow> (int \<times> 'x machine) option" where
  "os_printf svsm print_function buf format args s =
     (case vsnprintf (mem s) buf FIXED_BUFFER_SIZE format args of
        None \<Rightarrow> None
      | Some (n, m) \<Rightarrow>
          (let s = s\<lparr>mem := m\<rparr>
           in case print_function of
                Some pf \<Rightarrow> Some (n, pf buf s)
              | None \<Rightarrow> map_option (\<lambda>s. (n, s)) (pal_svsm_debug_print svsm buf s)))"

definition putchar :: "'x svsm \<Rightarrow> addr \<Rightarrow> int \<Rightarrow> 'x machine \<Rightarrow> (int \<times> 'x machine) option" where
  "putchar svsm buf c s =
     map_option (\<lambda>s. (c, s))
       (pal_svsm_debug_print svsm buf (s\<lparr>mem := (mem s)(buf := word_of_int c, buf + 1 := 0)\<rparr>))"

text \<open>\<open>nl\<close> is the address of the literal \<open>"\n"\<close>.\<close>

definition puts :: "'x svsm \<Rightarrow> addr \<Rightarrow> addr \<Rightarrow> 'x machine \<Rightarrow> (int \<times> 'x machine) option" where
  "puts svsm nl str s =
     (case pal_svsm_debug_print svsm str s of
        None \<Rightarrow> None
      | Some s \<Rightarrow> map_option (\<lambda>s. (0, s)) (pal_svsm_debug_print svsm nl s))"

section \<open>The rest\<close>

definition os_dumps_proc_mem_info :: "addr \<Rightarrow> u32 \<Rightarrow> int" where
  "os_dumps_proc_mem_info out siz = - 1"

definition os_is_handle_valid :: "mem \<Rightarrow> addr \<Rightarrow> bool" where
  "os_is_handle_valid m handle =
     (if handle = NULL then False else - 1 < sint (load32 m handle))"

text \<open>The two halves of the time stamp counter that \<open>rdtsc\<close> leaves are arguments.\<close>

definition os_time_get_boot_us :: "u32 \<Rightarrow> u32 \<Rightarrow> u64" where
  "os_time_get_boot_us lo hi = (let tsc = push_bit 32 (ucast hi) OR ucast lo in drop_bit 11 tsc)"

definition os_time_thread_cputime_us :: "u32 \<Rightarrow> u32 \<Rightarrow> u64" where
  "os_time_thread_cputime_us lo hi = os_time_get_boot_us lo hi"

section \<open>What is printed\<close>

lemma cstr_write_back:
  assumes "0 \<notin> set t" "length t < 2 ^ 64 - 1"
  shows "cstr_at (write_bytes m p (t @ [0])) p t"
proof -
  have "read_bytes (write_bytes m p (t @ [0])) p (length (t @ [0])) = t @ [0]"
    by (rule read_write_bytes) (use assms in simp)
  then have "read_bytes (write_bytes m p (t @ [0])) p (length t) = t"
    using nth_read_bytes by (intro nth_equalityI) (auto simp: nth_append list_eq_iff_nth_eq simp del: read_bytes.simps)
  then show ?thesis using assms by (simp add: cstr_at_conv_read write_bytes_append)
qed

text \<open>The counter as a number.\<close>

lemma tsc_value: "unat (push_bit 32 (ucast hi) OR ucast lo :: u64) = unat (hi :: u32) * 2 ^ 32 + unat (lo :: u32)"
proof -
  have "(push_bit 32 (ucast hi) :: u64) AND ucast lo = 0"
    by (rule bit_word_eqI) (auto simp: bit_simps dest: bit_imp_le_length)
  then have "(push_bit 32 (ucast hi) OR ucast lo :: u64) = push_bit 32 (ucast hi) + ucast lo"
    by (simp add: disjunctive_add_eq_or)
  moreover have "unat hi < 2 ^ 32" "unat lo < 2 ^ 32" using unsigned_less [of hi, where ?'a = nat] unsigned_less [of lo, where ?'a = nat] by simp_all
  ultimately show ?thesis
    by (simp add: push_bit_eq_mult unat_word_ariths unsigned_ucast_eq take_bit_nat_eq_self)
qed

lemma boot_clock_value:
  "unat (os_time_get_boot_us lo hi) = (unat hi * 2 ^ 32 + unat lo) div 2048"
  by (simp add: os_time_get_boot_us_def drop_bit_eq_div unat_div tsc_value [simplified])

section \<open>Properties\<close>

text \<open>
  For a format whose text has no NUL, \<open>os_printf\<close> without a print function returns, sends the
  first 511 bytes of the formatted text and a NUL to the monitor's console, and returns how many
  bytes of text these were.
\<close>
lemma os_printf_prints:
  assumes "console_keeps_mem svsm" "buf \<noteq> NULL" "cstr_at (mem s) fmt f"
    and "separate buf 512 fmt (Suc (length f))"
    and "\<forall>q t. strs q = Some t \<longrightarrow> cstr_at (mem s) q t \<and> separate buf 512 q (Suc (length t))"
    and "render strs ap 0 512 f = Some t" "0 \<notin> set t"
  shows "\<exists>m. os_printf svsm None buf fmt ap s
      = Some (int (length (take 511 t)),
              fold (pal_svsm_debug_putc svsm) (take 511 t @ [0]) (s\<lparr>mem := m\<rparr>))"
proof -
  let ?u = "take 511 t"
  let ?s = "s\<lparr>mem := write_bytes (mem s) buf (?u @ [0])\<rparr>"
  have v: "vsnprintf (mem s) buf FIXED_BUFFER_SIZE fmt ap
      = Some (int (length ?u), write_bytes (mem s) buf (?u @ [0]))"
    using vsnprintf_text [of buf FIXED_BUFFER_SIZE "mem s" fmt f strs ap t] assms(2-6)
    by (simp add: FIXED_BUFFER_SIZE_def Let_def)
  have "0 \<notin> set ?u" using assms(7) by (meson in_set_takeD)
  then have "cstr_at (mem ?s) buf ?u" using cstr_write_back [of ?u "mem s" buf] by simp
  then have "pal_svsm_debug_print svsm buf ?s = Some (fold (pal_svsm_debug_putc svsm) (?u @ [0]) ?s)"
    by (rule debug_print_cstr [OF assms(1) _ assms(2)])
  then show ?thesis by (auto simp: os_printf_def v simp del: fold_append)
qed

theorem os_printf_prints_witness:
  "\<exists>m. os_printf recording_svsm None 4096 16 demo_args \<lparr>mem = demo_mem, world = []\<rparr>
      = Some (int (length (take 511 (bytes_of ''n=00042!''))),
              fold (pal_svsm_debug_putc recording_svsm) (take 511 (bytes_of ''n=00042!'') @ [0])
                \<lparr>mem = m, world = []\<rparr>)"
  using os_printf_prints [OF recording_keeps_mem, of 4096 "\<lparr>mem = demo_mem, world = []\<rparr>" 16
      "bytes_of ''n=%05u!''" "\<lambda>_. None" demo_args "bytes_of ''n=00042!''"] demo_fmt demo_render
  by (simp add: separate_def del: cstr_at.simps)

end
