(* ===== verification/Wasmlet.thy ===== *)
theory Wasmlet
  imports Mpk_Allocator Sha512
begin

text \<open>
  \<open>wamr-pal/wasmlet_vmpl1.c\<close>: the three lifecycles of the WebAssembly runtime of VMPL1, runtime,
  module and invocation, with the protection-key domain of the module and the environment hash
  that is put into the output channel for attestation.

  WAMR is third-party code: its public API is the parameter record \<open>wamr\<close>.  Its functions allocate
  through \<open>mpk_malloc\<close>, which reads the allocator's statics, so they are given these beside the
  machine.  Both builds are modelled: \<open>mpk_isolation\<close> is the switch \<open>ENABLE_MPK_ISOLATION\<close>.  The
  log messages, and with them the buffer of WAMR's error text, are left out.
\<close>

section \<open>State and interfaces\<close>

text \<open>How WAMR is told to allocate; \<open>Alloc_With_Pool\<close> is the value of the zeroed structure.\<close>

datatype mem_alloc_type = Alloc_With_Pool | Alloc_With_Allocator | Alloc_With_System_Allocator

record 'x wamr =
  wasm_runtime_full_init :: "mpk_globals \<Rightarrow> mem_alloc_type \<Rightarrow> 'x machine \<Rightarrow> bool \<times> 'x machine"
  wasm_runtime_destroy :: "mpk_globals \<Rightarrow> 'x machine \<Rightarrow> 'x machine"
  wasm_runtime_load :: "mpk_globals \<Rightarrow> addr \<Rightarrow> u32 \<Rightarrow> 'x machine \<Rightarrow> addr \<times> 'x machine"
  wasm_runtime_unload :: "mpk_globals \<Rightarrow> addr \<Rightarrow> 'x machine \<Rightarrow> 'x machine"
  wasm_runtime_instantiate :: "mpk_globals \<Rightarrow> addr \<Rightarrow> u32 \<Rightarrow> u32 \<Rightarrow> 'x machine \<Rightarrow> addr \<times> 'x machine"
  wasm_runtime_create_exec_env :: "mpk_globals \<Rightarrow> addr \<Rightarrow> u32 \<Rightarrow> 'x machine \<Rightarrow> addr \<times> 'x machine"
  wasm_runtime_addr_app_to_native :: "'x machine \<Rightarrow> addr \<Rightarrow> u64 \<Rightarrow> addr"
  wasm_runtime_get_memory :: "'x machine \<Rightarrow> addr \<Rightarrow> u32 \<Rightarrow> addr"
  wasm_memory_get_cur_page_count :: "'x machine \<Rightarrow> addr \<Rightarrow> u64"
  wasm_runtime_lookup_function :: "mpk_globals \<Rightarrow> addr \<Rightarrow> byte list \<Rightarrow> 'x machine \<Rightarrow> addr \<times> 'x machine"
  wasm_runtime_call_wasm ::
    "mpk_globals \<Rightarrow> addr \<Rightarrow> addr \<Rightarrow> u32 \<Rightarrow> u32 list \<Rightarrow> 'x machine \<Rightarrow> bool \<times> u32 list \<times> 'x machine"
  wasm_runtime_destroy_exec_env :: "mpk_globals \<Rightarrow> addr \<Rightarrow> 'x machine \<Rightarrow> 'x machine"
  wasm_runtime_deinstantiate :: "mpk_globals \<Rightarrow> addr \<Rightarrow> 'x machine \<Rightarrow> 'x machine"

text \<open>
  What does not change while the program runs: the code around it, the build, and where the two
  local buffers of \<open>wasmlet_invoke\<close> stand on the stack.
\<close>

record 'x env =
  svsm_of :: "'x svsm"
  dl_of :: "'x dlmalloc"
  wamr_of :: "'x wamr"
  mpk_isolation :: bool
  snap_addr :: addr
  env_hash_addr :: addr

text \<open>The statics of the runtime, with those of the parts below, and the machine.\<close>

record 'x wasmlet =
  g_heap :: heap_globals
  g_mpk :: mpk_globals
  g_runtime_initialized :: bool
  g_module :: addr
  g_module_domain :: mpk_domain
  g_domain_created :: bool
  mach :: "'x machine"

definition WASM_STACK_SIZE :: u32 where "WASM_STACK_SIZE = 32 * 1024"
definition WASM_HEAP_SIZE :: u32 where "WASM_HEAP_SIZE = 32 * 1024"
definition MPK_MODULE_HEAP :: u64 where "MPK_MODULE_HEAP = 4 * 1024 * 1024"
definition OUTPUT_CHANNEL_ADDR_ENVHASH :: addr where "OUTPUT_CHANNEL_ADDR_ENVHASH = 0x30000000000"
definition ENV_HASH_OUTPUT_OFFSET :: u64 where "ENV_HASH_OUTPUT_OFFSET = 8"

section \<open>The domain functions on the statics\<close>

definition RegisterMpkAllocatorForWAMR :: "'x env \<Rightarrow> mem_alloc_type \<Rightarrow> mem_alloc_type" where
  "RegisterMpkAllocatorForWAMR e a = (if mpk_isolation e then Alloc_With_Allocator else a)"

definition allocator_init :: "'x env \<Rightarrow> 'x wasmlet \<Rightarrow> int \<times> 'x wasmlet" where
  "allocator_init e w =
     (if mpk_isolation e
      then (let (r, g, s) = mpk_allocator_init (svsm_of e) (dl_of e) (g_mpk w) (mach w)
            in (r, w\<lparr>g_mpk := g, mach := s\<rparr>))
      else (0, w))"

definition allocator_destroy :: "'x env \<Rightarrow> 'x wasmlet \<Rightarrow> 'x wasmlet" where
  "allocator_destroy e w =
     (if mpk_isolation e
      then (let (g, s) = mpk_allocator_destroy (svsm_of e) (dl_of e) (g_mpk w) (mach w)
            in w\<lparr>g_mpk := g, mach := s\<rparr>)
      else w)"

definition domain_create :: "'x env \<Rightarrow> 'x wasmlet \<Rightarrow> int \<times> 'x wasmlet" where
  "domain_create e w =
     (let (r, d, g, s) = mpk_domain_create (svsm_of e) MPK_MODULE_HEAP (Some (g_module_domain w)) (g_mpk w) (mach w)
      in (r, w\<lparr>g_module_domain := the d, g_mpk := g, mach := s\<rparr>))"

definition domain_enter :: "'x env \<Rightarrow> 'x wasmlet \<Rightarrow> int \<times> 'x wasmlet" where
  "domain_enter e w =
     (let (r, d, g, s) = mpk_domain_enter (svsm_of e) (dl_of e) (Some (g_module_domain w)) (g_mpk w) (mach w)
      in (r, w\<lparr>g_module_domain := the d, g_mpk := g, mach := s\<rparr>))"

definition domain_exit :: "'x env \<Rightarrow> 'x wasmlet \<Rightarrow> 'x wasmlet" where
  "domain_exit e w =
     (let (g, s) = mpk_domain_exit (svsm_of e) (Some (g_module_domain w)) (g_mpk w) (mach w)
      in w\<lparr>g_mpk := g, mach := s\<rparr>)"

definition domain_destroy :: "'x env \<Rightarrow> 'x wasmlet \<Rightarrow> 'x wasmlet" where
  "domain_destroy e w =
     (let (d, g, s) = mpk_domain_destroy (svsm_of e) (dl_of e) (Some (g_module_domain w)) (g_mpk w) (mach w)
      in w\<lparr>g_module_domain := the d, g_mpk := g, mach := s\<rparr>)"

section \<open>Module\<close>

definition wasmlet_load_module :: "'x env \<Rightarrow> addr \<Rightarrow> u32 \<Rightarrow> 'x wasmlet \<Rightarrow> int \<times> 'x wasmlet" where
  "wasmlet_load_module e wasm_buf wasm_size w =
     (if \<not> g_runtime_initialized w then (- 1, w)
      else if wasm_buf = NULL \<or> wasm_size = 0 then (- 1, w)
      else if g_module w \<noteq> NULL then (- 1, w)
      else (let (r, w) = (if mpk_isolation e then domain_create e w else (0, w))
            in if r \<noteq> 0 then (- 1, w)
               else (let w = (if mpk_isolation e then w\<lparr>g_domain_created := True\<rparr> else w);
                         (r, w) = (if mpk_isolation e then domain_enter e w else (0, w))
                     in if r \<noteq> 0 then (- 1, (domain_destroy e w)\<lparr>g_domain_created := False\<rparr>)
                        else (let (md, s) = wasm_runtime_load (wamr_of e) (g_mpk w) wasm_buf wasm_size (mach w);
                                  w = w\<lparr>g_module := md, mach := s\<rparr>;
                                  w = (if mpk_isolation e then domain_exit e w else w)
                              in if md = NULL
                                 then (- 1, if mpk_isolation e
                                            then (domain_destroy e w)\<lparr>g_domain_created := False\<rparr> else w)
                                 else (0, w)))))"

definition wasmlet_unload_module :: "'x env \<Rightarrow> 'x wasmlet \<Rightarrow> 'x wasmlet" where
  "wasmlet_unload_module e w =
     (if g_module w = NULL then w
      else (let w = (if mpk_isolation e \<and> g_domain_created w then snd (domain_enter e w) else w);
                s = wasm_runtime_unload (wamr_of e) (g_mpk w) (g_module w) (mach w);
                w = w\<lparr>g_module := NULL, mach := s\<rparr>
            in if mpk_isolation e \<and> g_domain_created w
               then (domain_destroy e (domain_exit e w))\<lparr>g_domain_created := False\<rparr> else w))"

section \<open>Runtime\<close>

definition wasmlet_runtime_init :: "'x env \<Rightarrow> 'x wasmlet \<Rightarrow> int \<times> 'x wasmlet" where
  "wasmlet_runtime_init e w =
     (if g_runtime_initialized w then (- 1, w)
      else (let (r, w) = allocator_init e w
            in if r \<noteq> 0 then (- 1, w)
               else (let a = RegisterMpkAllocatorForWAMR e Alloc_With_Pool;
                         a = (if a = Alloc_With_Pool then Alloc_With_System_Allocator else a);
                         (ok, s) = wasm_runtime_full_init (wamr_of e) (g_mpk w) a (mach w);
                         w = w\<lparr>mach := s\<rparr>
                     in if \<not> ok then (- 1, allocator_destroy e w)
                        else (0, w\<lparr>g_runtime_initialized := True\<rparr>))))"

definition wasmlet_runtime_destroy :: "'x env \<Rightarrow> 'x wasmlet \<Rightarrow> 'x wasmlet" where
  "wasmlet_runtime_destroy e w =
     (if \<not> g_runtime_initialized w then w
      else (let w = wasmlet_unload_module e w;
                w = w\<lparr>mach := wasm_runtime_destroy (wamr_of e) (g_mpk w) (mach w)\<rparr>
            in (allocator_destroy e w)\<lparr>g_runtime_initialized := False\<rparr>))"

section \<open>Invocation\<close>

record env_snapshot =
  linear_mem_base :: u64
  linear_mem_size :: u32
  stack_size :: u32
  heap_size :: u32
  global_count :: u32

text \<open>The 24 bytes of the structure; it has no padding.\<close>

definition snapshot_bytes :: "env_snapshot \<Rightarrow> byte list" where
  "snapshot_bytes snap =
     le_bytes 8 (linear_mem_base snap) @ le_bytes 4 (linear_mem_size snap) @ le_bytes 4 (stack_size snap)
       @ le_bytes 4 (heap_size snap) @ le_bytes 4 (global_count snap)"

definition take_snapshot :: "'x env \<Rightarrow> addr \<Rightarrow> 'x machine \<Rightarrow> env_snapshot" where
  "take_snapshot e inst s =
     \<lparr>linear_mem_base = wasm_runtime_addr_app_to_native (wamr_of e) s inst 0,
      linear_mem_size =
        (let m = wasm_runtime_get_memory (wamr_of e) s inst 0
         in if m \<noteq> NULL then ucast (wasm_memory_get_cur_page_count (wamr_of e) s m * 65536) else 0),
      stack_size = WASM_STACK_SIZE, heap_size = WASM_HEAP_SIZE, global_count = 0\<rparr>"

definition SHA512_DIGEST_SIZE :: nat where "SHA512_DIGEST_SIZE = 64"

text \<open>The block of \<open>wasmlet_invoke\<close> that computes the environment hash and stores it.\<close>

definition write_env_hash :: "'x env \<Rightarrow> addr \<Rightarrow> 'x machine \<Rightarrow> 'x machine" where
  "write_env_hash e inst s =
     (let snap = take_snapshot e inst s;
          m = write_bytes (mem s) (snap_addr e) (snapshot_bytes snap);
          m = sha512_simple m (snap_addr e) 24 (env_hash_addr e);
          output_ch = OUTPUT_CHANNEL_ADDR_ENVHASH;
          m = fold (\<lambda>ei m. m(output_ch + (ENV_HASH_OUTPUT_OFFSET + of_nat ei) := m (env_hash_addr e + of_nat ei)))
                [0..<SHA512_DIGEST_SIZE] m
      in s\<lparr>mem := m\<rparr>)"

text \<open>The code after the label \<open>cleanup\<close>.\<close>

definition wasmlet_cleanup :: "'x env \<Rightarrow> addr \<Rightarrow> addr \<Rightarrow> 'x wasmlet \<Rightarrow> 'x wasmlet" where
  "wasmlet_cleanup e exec_env inst w =
     (let w = (if exec_env \<noteq> NULL
               then w\<lparr>mach := wasm_runtime_destroy_exec_env (wamr_of e) (g_mpk w) exec_env (mach w)\<rparr> else w);
          w = (if inst \<noteq> NULL
               then w\<lparr>mach := wasm_runtime_deinstantiate (wamr_of e) (g_mpk w) inst (mach w)\<rparr> else w)
      in if mpk_isolation e \<and> g_domain_created w then domain_exit e w else w)"

text \<open>
  The instance is made and called.  The result is the return code, \<open>*result\<close> and the state; a
  pointer argument that may be NULL is an option.
\<close>

definition wasmlet_run ::
  "'x env \<Rightarrow> byte list \<Rightarrow> int \<Rightarrow> u32 list \<Rightarrow> u32 option \<Rightarrow> 'x wasmlet \<Rightarrow> int \<times> u32 option \<times> 'x wasmlet" where
  "wasmlet_run e func_name argc argv result w =
     (let (inst, s) = wasm_runtime_instantiate (wamr_of e) (g_mpk w) (g_module w) WASM_STACK_SIZE
                        WASM_HEAP_SIZE (mach w);
          w = w\<lparr>mach := s\<rparr>
      in if inst = NULL then (- 1, result, wasmlet_cleanup e NULL NULL w)
         else (let (exec_env, s) = wasm_runtime_create_exec_env (wamr_of e) (g_mpk w) inst WASM_STACK_SIZE (mach w);
                   w = w\<lparr>mach := s\<rparr>
               in if exec_env = NULL then (- 1, result, wasmlet_cleanup e NULL inst w)
                  else (let w = w\<lparr>mach := write_env_hash e inst (mach w)\<rparr>;
                            (func, s) = wasm_runtime_lookup_function (wamr_of e) (g_mpk w) inst func_name (mach w);
                            w = w\<lparr>mach := s\<rparr>
                        in if func = NULL then (- 1, result, wasmlet_cleanup e exec_env inst w)
                           else (let (ok, argv, s) = wasm_runtime_call_wasm (wamr_of e) (g_mpk w) exec_env func
                                                       (word_of_int argc) argv (mach w);
                                     w = w\<lparr>mach := s\<rparr>
                                 in if \<not> ok then (- 1, result, wasmlet_cleanup e exec_env inst w)
                                    else (0, map_option (\<lambda>_. argv ! 0) result,
                                          wasmlet_cleanup e exec_env inst w)))))"

definition wasmlet_invoke ::
  "'x env \<Rightarrow> byte list option \<Rightarrow> int \<Rightarrow> u32 list \<Rightarrow> u32 option \<Rightarrow> 'x wasmlet \<Rightarrow> int \<times> u32 option \<times> 'x wasmlet" where
  "wasmlet_invoke e func_name argc argv result w =
     (if \<not> g_runtime_initialized w \<or> g_module w = NULL then (- 1, result, w)
      else (case func_name of
              None \<Rightarrow> (- 1, result, w)
            | Some name \<Rightarrow>
                (let (r, w) = (if mpk_isolation e \<and> g_domain_created w then domain_enter e w else (0, w))
                 in if r \<noteq> 0 then (- 1, result, w) else wasmlet_run e name argc argv result w)))"

section \<open>What the domain functions keep\<close>

text \<open>Entering, leaving, creating and destroying the domain touch only its own statics.\<close>

definition domain_moved :: "'x wasmlet \<Rightarrow> 'x wasmlet \<Rightarrow> bool" where
  "domain_moved w w' \<longleftrightarrow>
     (\<exists>d g s. w' = w\<lparr>g_module_domain := d, g_mpk := g, mach := s\<rparr>)
     \<and> (mpk_inv (g_mpk w) [g_module_domain w] \<longrightarrow> mpk_inv (g_mpk w') [g_module_domain w'])
     \<and> g_allocator_initialized (g_mpk w') = g_allocator_initialized (g_mpk w)
     \<and> g_default_msp (g_mpk w') = g_default_msp (g_mpk w)"

lemma domain_movedD:
  assumes "domain_moved w w'"
  shows "g_heap w' = g_heap w" "g_runtime_initialized w' = g_runtime_initialized w"
    "g_module w' = g_module w" "g_domain_created w' = g_domain_created w"
    "g_allocator_initialized (g_mpk w') = g_allocator_initialized (g_mpk w)"
    "g_default_msp (g_mpk w') = g_default_msp (g_mpk w)"
    "mpk_inv (g_mpk w) [g_module_domain w] \<Longrightarrow> mpk_inv (g_mpk w') [g_module_domain w']"
  using assms unfolding domain_moved_def by (elim conjE exE; simp)+

lemma domain_enter_moved:
  assumes "domain_enter e w = (r, w')"
  shows "domain_moved w w'" "dead (g_module_domain w') = dead (g_module_domain w)"
    "r = 0 \<Longrightarrow> g_current_msp (g_mpk w') = module_msp (g_module_domain w') \<and> module_msp (g_module_domain w') \<noteq> NULL"
    "r \<noteq> 0 \<Longrightarrow> g_mpk w' = g_mpk w"
proof -
  obtain d g s where run: "mpk_domain_enter (svsm_of e) (dl_of e) (Some (g_module_domain w)) (g_mpk w) (mach w)
      = (r, Some d, g, s)" and w': "w' = w\<lparr>g_module_domain := d, g_mpk := g, mach := s\<rparr>"
  proof -
    obtain r1 dom g s where run: "mpk_domain_enter (svsm_of e) (dl_of e) (Some (g_module_domain w)) (g_mpk w) (mach w)
        = (r1, dom, g, s)" by (cases "mpk_domain_enter (svsm_of e) (dl_of e) (Some (g_module_domain w)) (g_mpk w) (mach w)")
    moreover then obtain d where "dom = Some d"
      by (auto simp: mpk_domain_enter_def Let_def split: if_splits prod.splits)
    ultimately show thesis using that assms by (auto simp: domain_enter_def)
  qed
  have fr: "pkey d = pkey (g_module_domain w)" "region_base d = region_base (g_module_domain w)"
      "region_size d = region_size (g_module_domain w)" "g = g_mpk w \<or> (\<exists>m. g = (g_mpk w)\<lparr>g_current_msp := m\<rparr>)"
    using domain_enter_frame [OF run] by simp_all
  have inv: "mpk_inv (g_mpk w) [g_module_domain w] \<Longrightarrow> mpk_inv g [d]"
    using mpk_domain_enter_inv [of "svsm_of e" "dl_of e" "[g_module_domain w]" 0] run by simp
  show "domain_moved w w'" using inv fr(4) unfolding domain_moved_def w' by (auto intro!: exI)
  show "dead (g_module_domain w') = dead (g_module_domain w)" by (simp add: w' dead_def fr)
  show "r = 0 \<Longrightarrow> g_current_msp (g_mpk w') = module_msp (g_module_domain w') \<and> module_msp (g_module_domain w') \<noteq> NULL"
    "r \<noteq> 0 \<Longrightarrow> g_mpk w' = g_mpk w"
    using run by (auto simp: w' mpk_domain_enter_def Let_def split: if_splits prod.splits)
qed

lemma domain_exit_moved:
  "domain_moved w (domain_exit e w) \<and> g_module_domain (domain_exit e w) = g_module_domain w
   \<and> g_current_msp (g_mpk (domain_exit e w)) = g_default_msp (g_mpk w)"
proof -
  have "domain_exit e w = w\<lparr>g_module_domain := g_module_domain w,
      g_mpk := (g_mpk w)\<lparr>g_current_msp := g_default_msp (g_mpk w)\<rparr>,
      mach := snd (pal_svsm_mpk_exit_domain (svsm_of e) (word_of_int (pkey (g_module_domain w))) (mach w))\<rparr>"
    by (cases w) (simp add: domain_exit_def mpk_domain_exit_def)
  moreover from this have "\<exists>d g s. domain_exit e w = w\<lparr>g_module_domain := d, g_mpk := g, mach := s\<rparr>" by blast
  ultimately show ?thesis
    using mpk_inv_current [of "g_mpk w" "[g_module_domain w]"] by (simp add: domain_moved_def)
qed

lemma pkey_pool_free_frame:
  "g_current_msp (pkey_pool_free k g) = g_current_msp g" "g_default_msp (pkey_pool_free k g) = g_default_msp g"
  "g_allocator_initialized (pkey_pool_free k g) = g_allocator_initialized g"
  by (simp_all add: pkey_pool_free_def)

lemma domain_destroy_moved:
  shows "domain_moved w (domain_destroy e w)" "dead (g_module_domain (domain_destroy e w))
      \<or> \<not> mpk_inv (g_mpk w) [g_module_domain w]"
    and "g_current_msp (g_mpk w) = g_default_msp (g_mpk w) \<Longrightarrow>
      g_current_msp (g_mpk (domain_destroy e w)) = g_default_msp (g_mpk w)"
proof -
  let ?e = "g_module_domain w" and ?g = "g_mpk w"
  obtain dom g s where run: "mpk_domain_destroy (svsm_of e) (dl_of e) (Some ?e) ?g (mach w) = (dom, g, s)"
    by (cases "mpk_domain_destroy (svsm_of e) (dl_of e) (Some ?e) ?g (mach w)")
  have "\<exists>d. dom = Some d" using run by (auto simp: mpk_domain_destroy_def Let_def split: if_splits prod.splits)
  then obtain d where d: "dom = Some d" by blast
  note run = run [unfolded d]
  have w': "domain_destroy e w = w\<lparr>g_module_domain := d, g_mpk := g, mach := s\<rparr>"
    by (simp add: domain_destroy_def run)
  have inv: "mpk_inv ?g [?e] \<Longrightarrow> mpk_inv g [d] \<and> dead d"
    using mpk_domain_destroy_inv [of "svsm_of e" "dl_of e" "[?e]" 0] run by simp
  have fr: "g_allocator_initialized g = g_allocator_initialized ?g \<and> g_default_msp g = g_default_msp ?g
      \<and> (g_current_msp g = g_current_msp ?g \<or> g_current_msp g = g_default_msp ?g)"
  proof (cases "dead ?e \<or> module_msp ?e = NULL")
    case True
    then show ?thesis using run
      by (auto simp: mpk_domain_destroy_def dead_def Let_def pkey_pool_free_frame split: if_splits prod.splits)
  next
    case False
    obtain r e1 h s1 where en: "mpk_domain_enter (svsm_of e) (dl_of e) (Some ?e) ?g (mach w) = (r, e1, h, s1)"
      by (cases "mpk_domain_enter (svsm_of e) (dl_of e) (Some ?e) ?g (mach w)")
    then obtain d1 where d1: "e1 = Some d1"
      by (auto simp: mpk_domain_enter_def Let_def split: if_splits prod.splits)
    have h: "g_allocator_initialized h = g_allocator_initialized ?g" "g_default_msp h = g_default_msp ?g"
      using domain_enter_frame [OF en [unfolded d1]] by auto
    have "r \<noteq> 0 \<Longrightarrow> h = ?g" using en by (auto simp: mpk_domain_enter_def Let_def split: if_splits prod.splits)
    then show ?thesis using run False en d1 h
      by (auto simp: mpk_domain_destroy_def dead_def mpk_domain_exit_def Let_def pkey_pool_free_frame
          split: if_splits prod.splits)
  qed
  show "domain_moved w (domain_destroy e w)" using inv fr unfolding domain_moved_def w' by (auto intro!: exI)
  show "dead (g_module_domain (domain_destroy e w)) \<or> \<not> mpk_inv ?g [?e]" using inv by (auto simp: w')
  show "g_current_msp ?g = g_default_msp ?g \<Longrightarrow> g_current_msp (g_mpk (domain_destroy e w)) = g_default_msp ?g"
    using fr by (auto simp: w')
qed

lemma domain_create_moved:
  assumes "domain_create e w = (r, w')" "dead (g_module_domain w)"
  shows "domain_moved w w'" "g_current_msp (g_mpk w') = g_current_msp (g_mpk w)"
    "mpk_inv (g_mpk w) [g_module_domain w] \<Longrightarrow> r = 0 \<longleftrightarrow> \<not> dead (g_module_domain w')"
proof -
  let ?e = "g_module_domain w" and ?g = "g_mpk w"
  obtain r1 dom g s where run: "mpk_domain_create (svsm_of e) MPK_MODULE_HEAP (Some ?e) ?g (mach w) = (r1, dom, g, s)"
    by (cases "mpk_domain_create (svsm_of e) MPK_MODULE_HEAP (Some ?e) ?g (mach w)")
  have "\<exists>d. dom = Some d" using run by (auto simp: mpk_domain_create_def Let_def split: if_splits prod.splits)
  then obtain d where d: "dom = Some d" by blast
  note run = run [unfolded d]
  have w': "w' = w\<lparr>g_module_domain := d, g_mpk := g, mach := s\<rparr>" "r = r1"
    using assms(1) by (simp_all add: domain_create_def run)
  have inv: "mpk_inv ?g [?e] \<Longrightarrow> mpk_inv g [d] \<and> (r = 0 \<longleftrightarrow> \<not> dead d)"
    using mpk_domain_create_inv [of "svsm_of e" MPK_MODULE_HEAP "[?e]" 0 ?g "mach w" r1 d g s] run assms(2) w'(2)
    by (simp add: MPK_MODULE_HEAP_def)
  have fr: "g_allocator_initialized g = g_allocator_initialized ?g" "g_default_msp g = g_default_msp ?g"
    "g_current_msp g = g_current_msp ?g"
    using run
    by (auto simp: mpk_domain_create_def pkey_pool_alloc_def Let_def pkey_pool_free_frame
        split: if_splits prod.splits elim!: mpk_region_map_cases)
  show "domain_moved w w'" using inv fr unfolding domain_moved_def w' by (auto intro!: exI)
  show "g_current_msp (g_mpk w') = g_current_msp ?g" by (simp add: w' fr)
  show "mpk_inv ?g [?e] \<Longrightarrow> r = 0 \<longleftrightarrow> \<not> dead (g_module_domain w')" using inv by (simp add: w'(1))
qed

section \<open>Lifecycle invariant\<close>

text \<open>What holds between the calls of the three lifecycles.\<close>

definition wasmlet_inv :: "'x env \<Rightarrow> 'x wasmlet \<Rightarrow> bool" where
  "wasmlet_inv e w \<longleftrightarrow>
     (g_module w = NULL \<or> g_runtime_initialized w)
     \<and> (if mpk_isolation e
        then mpk_inv (g_mpk w) [g_module_domain w]
             \<and> (g_domain_created w \<longleftrightarrow> g_module w \<noteq> NULL)
             \<and> (g_domain_created w \<longleftrightarrow> \<not> dead (g_module_domain w))
             \<and> (g_runtime_initialized w \<longleftrightarrow> g_allocator_initialized (g_mpk w))
             \<and> g_current_msp (g_mpk w) = g_default_msp (g_mpk w)
        else \<not> g_domain_created w)"

lemma wasmlet_inv_mach: "wasmlet_inv e (w\<lparr>mach := s\<rparr>) = wasmlet_inv e w"
  by (simp add: wasmlet_inv_def)

lemma wasmlet_load_inv:
  assumes "wasmlet_load_module e buf n w = (r, w')" "wasmlet_inv e w"
  shows "wasmlet_inv e w' \<and> g_runtime_initialized w' = g_runtime_initialized w \<and> g_heap w' = g_heap w
    \<and> (if g_module w = NULL then r = 0 \<longleftrightarrow> g_module w' \<noteq> NULL else w' = w)"
proof (cases "\<not> g_runtime_initialized w \<or> buf = NULL \<or> n = 0 \<or> g_module w \<noteq> NULL")
  case True
  then have "(r, w') = (- 1, w)" using assms(1) unfolding wasmlet_load_module_def by presburger
  then show ?thesis using True assms(2) by (auto simp: wasmlet_inv_def)
next
  case go: False
  show ?thesis
  proof (cases "mpk_isolation e")
    case False
    obtain md s where "wasm_runtime_load (wamr_of e) (g_mpk w) buf n (mach w) = (md, s)"
      by (cases "wasm_runtime_load (wamr_of e) (g_mpk w) buf n (mach w)")
    then have "(r, w') = (if md = NULL then - 1 else 0, w\<lparr>g_module := md, mach := s\<rparr>)"
      using assms(1) go False by (auto simp: wasmlet_load_module_def Let_def split: if_splits)
    then show ?thesis using assms(2) go False by (auto simp: wasmlet_inv_def)
  next
    case True
    have w: "mpk_inv (g_mpk w) [g_module_domain w]" "dead (g_module_domain w)" "\<not> g_domain_created w"
      "g_runtime_initialized w" "g_module w = NULL" "g_allocator_initialized (g_mpk w)"
      "g_current_msp (g_mpk w) = g_default_msp (g_mpk w)"
      using assms(2) go True by (auto simp: wasmlet_inv_def)
    obtain r1 w1 where c: "domain_create e w = (r1, w1)" by (cases "domain_create e w")
    note c1 = domain_movedD [OF domain_create_moved(1) [OF c w(2)]] domain_create_moved(2,3) [OF c w(2)]
    show ?thesis
    proof (cases "r1 = 0")
      case False
      then show ?thesis using assms(1) go True c c1 w by (auto simp: wasmlet_load_module_def wasmlet_inv_def)
    next
      case r1: True
      let ?w1 = "w1\<lparr>g_domain_created := True\<rparr>"
      obtain r2 w2 where en: "domain_enter e ?w1 = (r2, w2)" by (cases "domain_enter e ?w1")
      note e1 = domain_movedD [OF domain_enter_moved(1) [OF en]] domain_enter_moved(2-4) [OF en]
      show ?thesis
      proof (cases "r2 = 0")
        case False
        note d1 = domain_movedD [OF domain_destroy_moved(1) [of w2 e]] domain_destroy_moved(2,3) [where e = e and w = w2]
        have "r = - 1" "w' = (domain_destroy e w2)\<lparr>g_domain_created := False\<rparr>"
          using assms(1) go True c r1 en False by (simp_all add: wasmlet_load_module_def)
        then show ?thesis using d1 e1 c1 w True False by (auto simp: wasmlet_inv_def)
      next
        case r2: True
        obtain md s where ld: "wasm_runtime_load (wamr_of e) (g_mpk w2) buf n (mach w2) = (md, s)"
          by (cases "wasm_runtime_load (wamr_of e) (g_mpk w2) buf n (mach w2)")
        let ?w3 = "domain_exit e (w2\<lparr>g_module := md, mach := s\<rparr>)"
        have ex: "domain_moved (w2\<lparr>g_module := md, mach := s\<rparr>) ?w3"
          "g_module_domain ?w3 = g_module_domain w2" "g_current_msp (g_mpk ?w3) = g_default_msp (g_mpk w2)"
          using domain_exit_moved [of "w2\<lparr>g_module := md, mach := s\<rparr>" e] by simp_all
        note x1 = domain_movedD [OF ex(1)] ex(2,3)
        note d1 = domain_movedD [OF domain_destroy_moved(1) [of ?w3 e]] domain_destroy_moved(2,3) [where e = e and w = ?w3]
        have "(r, w') = (if md = NULL then (- 1, (domain_destroy e ?w3)\<lparr>g_domain_created := False\<rparr>) else (0, ?w3))"
          using assms(1) go True c r1 en r2 ld by (auto simp: wasmlet_load_module_def)
        then show ?thesis using x1 d1 e1 c1 w True r1 by (cases "md = NULL") (auto simp: wasmlet_inv_def)
      qed
    qed
  qed
qed

lemma wasmlet_unload_inv:
  assumes "wasmlet_inv e w"
  shows "wasmlet_inv e (wasmlet_unload_module e w) \<and> g_module (wasmlet_unload_module e w) = NULL
    \<and> g_runtime_initialized (wasmlet_unload_module e w) = g_runtime_initialized w
    \<and> g_heap (wasmlet_unload_module e w) = g_heap w"
proof (cases "g_module w = NULL \<or> \<not> mpk_isolation e")
  case True
  then show ?thesis using assms by (auto simp: wasmlet_unload_module_def wasmlet_inv_def Let_def)
next
  case go: False
  have w: "mpk_inv (g_mpk w) [g_module_domain w]" "g_domain_created w"
    "g_runtime_initialized w" "g_allocator_initialized (g_mpk w)"
    using assms go by (auto simp: wasmlet_inv_def)
  obtain r w1 where en: "domain_enter e w = (r, w1)" by (cases "domain_enter e w")
  note e1 = domain_movedD [OF domain_enter_moved(1) [OF en]]
  let ?w2 = "w1\<lparr>g_module := NULL, mach := wasm_runtime_unload (wamr_of e) (g_mpk w1) (g_module w1) (mach w1)\<rparr>"
  let ?w3 = "domain_exit e ?w2"
  have "domain_moved ?w2 ?w3" using domain_exit_moved by blast
  note x1 = domain_movedD [OF this] and xc = domain_exit_moved [of ?w2 e]
  note d1 = domain_movedD [OF domain_destroy_moved(1) [of ?w3 e]] domain_destroy_moved(2,3) [where e = e and w = ?w3]
  have "wasmlet_unload_module e w = (domain_destroy e ?w3)\<lparr>g_domain_created := False\<rparr>"
    using go w en e1 by (simp add: wasmlet_unload_module_def)
  then show ?thesis using d1 x1 xc e1 w go by (auto simp: wasmlet_inv_def)
qed

lemma allocator_init_current:
  assumes "mpk_allocator_init svsm dl g s = (r, g', s')" "mpk_inv g ds" "\<not> g_allocator_initialized g"
    "g_current_msp g = g_default_msp g"
  shows "g_current_msp g' = g_default_msp g'"
proof -
  obtain r1 h s1 where p: "pkey_pool_init svsm g s = (r1, h, s1)" by (cases "pkey_pool_init svsm g s")
  have k: "keys_inv g ds" "g_pkey_total g = 0" "g_default_msp g = NULL"
    using assms(2,3) by (simp_all add: mpk_inv_def init_inv_def)
  have h: "g_current_msp h = NULL" "g_default_msp h = NULL"
    using pkey_pool_init_inv [OF p k(1,2)] assms(4) k(3) by (auto simp: same_heap_def)
  obtain base h2 s2 where m: "mpk_region_map svsm DEFAULT_HEAP_SIZE 0 (h\<lparr>g_default_size := DEFAULT_HEAP_SIZE\<rparr>) s1
      = (base, h2, s2)" by (cases "mpk_region_map svsm DEFAULT_HEAP_SIZE 0 (h\<lparr>g_default_size := DEFAULT_HEAP_SIZE\<rparr>) s1")
  have h2: "g_current_msp h2 = NULL" "g_default_msp h2 = NULL" "g_default_size h2 = DEFAULT_HEAP_SIZE"
    by (cases rule: mpk_region_map_cases [OF m]; use h in simp)+
  obtain msp s3 where c: "create_tracked_mspace dl base DEFAULT_HEAP_SIZE s2 = (msp, s3)"
    by (cases "create_tracked_mspace dl base DEFAULT_HEAP_SIZE s2")
  have "(r, g') = (if r1 \<noteq> 0 then (- 1, h)
      else if base = NULL then (- 1, fst (pkey_pool_destroy svsm (h2\<lparr>g_default_base := base\<rparr>) s2))
      else if msp = NULL
      then (- 1, fst (pkey_pool_destroy svsm (h2\<lparr>g_default_msp := NULL, g_default_base := NULL\<rparr>)
                       (mpk_region_unmap_pkey svsm base DEFAULT_HEAP_SIZE 0 s3)))
      else (0, h2\<lparr>g_default_base := base, g_default_msp := msp, g_current_msp := msp,
               g_allocator_initialized := True\<rparr>))"
    using assms(1,3) p m c h2(3)
    by (cases "r1 = 0"; cases "base = NULL"; cases "msp = NULL")
      (simp_all add: mpk_allocator_init_def case_prod_unfold)
  then show ?thesis
    using h h2(1,2) by (cases "r1 = 0"; cases "base = NULL"; cases "msp = NULL") (simp_all add: pkey_pool_destroy_def)
qed

lemma allocator_init_inv:
  assumes "allocator_init e w = (r, w')" "wasmlet_inv e w" "\<not> g_runtime_initialized w" "mpk_isolation e"
  shows "mpk_inv (g_mpk w') [g_module_domain w'] \<and> g_current_msp (g_mpk w') = g_default_msp (g_mpk w')
    \<and> (r = 0 \<longleftrightarrow> g_allocator_initialized (g_mpk w')) \<and> (\<exists>g s. w' = w\<lparr>g_mpk := g, mach := s\<rparr>)"
proof -
  have w: "mpk_inv (g_mpk w) [g_module_domain w]" "\<not> g_allocator_initialized (g_mpk w)"
    "g_current_msp (g_mpk w) = g_default_msp (g_mpk w)"
    using assms(2-4) by (auto simp: wasmlet_inv_def)
  obtain r1 g s where run: "mpk_allocator_init (svsm_of e) (dl_of e) (g_mpk w) (mach w) = (r1, g, s)"
    by (cases "mpk_allocator_init (svsm_of e) (dl_of e) (g_mpk w) (mach w)")
  then have "r1 = r" "w' = w\<lparr>g_mpk := g, mach := s\<rparr>" using assms(1,4) by (simp_all add: allocator_init_def)
  then show ?thesis
    using mpk_allocator_init_inv [OF run w(1)] allocator_init_current [OF run w] w(2) by auto
qed

lemma allocator_destroy_inv:
  assumes "mpk_inv (g_mpk w) [g_module_domain w]" "dead (g_module_domain w)" "mpk_isolation e"
    "g_current_msp (g_mpk w) = g_default_msp (g_mpk w)"
  shows "mpk_inv (g_mpk (allocator_destroy e w)) [g_module_domain w]
    \<and> g_current_msp (g_mpk (allocator_destroy e w)) = g_default_msp (g_mpk (allocator_destroy e w))
    \<and> \<not> g_allocator_initialized (g_mpk (allocator_destroy e w))
    \<and> (\<exists>g s. allocator_destroy e w = w\<lparr>g_mpk := g, mach := s\<rparr>)"
proof -
  obtain g s where run: "mpk_allocator_destroy (svsm_of e) (dl_of e) (g_mpk w) (mach w) = (g, s)"
    by (cases "mpk_allocator_destroy (svsm_of e) (dl_of e) (g_mpk w) (mach w)")
  then have w': "allocator_destroy e w = w\<lparr>g_mpk := g, mach := s\<rparr>"
    using assms(3) by (simp add: allocator_destroy_def)
  have "mpk_inv g [g_module_domain w]"
    using mpk_allocator_destroy_inv [OF run assms(1)] assms(2) by (simp add: live_keys_dead)
  moreover have "\<not> g_allocator_initialized g" "g_current_msp g = g_default_msp g"
    using run assms(4) by (auto simp: mpk_allocator_destroy_def pkey_pool_destroy_def Let_def split: if_splits)
  ultimately show ?thesis by (auto simp: w')
qed

lemma wasmlet_init_inv:
  assumes "wasmlet_runtime_init e w = (r, w')" "wasmlet_inv e w" "\<not> g_runtime_initialized w"
  shows "wasmlet_inv e w' \<and> (r = 0 \<longleftrightarrow> g_runtime_initialized w') \<and> g_module w' = NULL \<and> g_heap w' = g_heap w"
proof -
  have m: "g_module w = NULL" using assms(2,3) by (auto simp: wasmlet_inv_def)
  obtain r1 w1 where i: "allocator_init e w = (r1, w1)" by (cases "allocator_init e w")
  define a where "a = (if mpk_isolation e then Alloc_With_Allocator else Alloc_With_System_Allocator)"
  obtain ok s where f: "wasm_runtime_full_init (wamr_of e) (g_mpk w1) a (mach w1) = (ok, s)"
    by (cases "wasm_runtime_full_init (wamr_of e) (g_mpk w1) a (mach w1)")
  let ?w2 = "w1\<lparr>mach := s\<rparr>"
  have run: "(r, w') = (if r1 \<noteq> 0 then (- 1, w1) else if \<not> ok then (- 1, allocator_destroy e ?w2)
      else (0, ?w2\<lparr>g_runtime_initialized := True\<rparr>))"
    using assms(1,3) i f
    by (cases "r1 = 0"; cases "mpk_isolation e"; cases ok)
      (simp_all add: wasmlet_runtime_init_def RegisterMpkAllocatorForWAMR_def a_def)
  show ?thesis
  proof (cases "mpk_isolation e")
    case False
    then have "w1 = w" "r1 = 0" using i by (simp_all add: allocator_init_def)
    then show ?thesis using run m assms(2,3) False
      by (auto simp: wasmlet_inv_def allocator_destroy_def split: if_splits)
  next
    case True
    obtain g t where w1: "w1 = w\<lparr>g_mpk := g, mach := t\<rparr>" using allocator_init_inv [OF i assms(2,3) True] by blast
    have dead: "dead (g_module_domain ?w2)" "\<not> g_domain_created w"
      using assms(2) m True w1 by (auto simp: wasmlet_inv_def)
    have g: "mpk_inv g [g_module_domain w]" "g_current_msp g = g_default_msp g" "r1 = 0 \<longleftrightarrow> g_allocator_initialized g"
      using allocator_init_inv [OF i assms(2,3) True] by (simp_all add: w1)
    have d: "mpk_inv (g_mpk (allocator_destroy e ?w2)) [g_module_domain w]"
      "g_current_msp (g_mpk (allocator_destroy e ?w2)) = g_default_msp (g_mpk (allocator_destroy e ?w2))"
      "\<not> g_allocator_initialized (g_mpk (allocator_destroy e ?w2))"
      "\<exists>g s. allocator_destroy e ?w2 = ?w2\<lparr>g_mpk := g, mach := s\<rparr>"
      using allocator_destroy_inv [OF _ dead(1) True] g by (simp_all add: w1)
    obtain g3 s3 where w3: "allocator_destroy e ?w2 = ?w2\<lparr>g_mpk := g3, mach := s3\<rparr>" using d(4) by blast
    have d3: "mpk_inv g3 [g_module_domain w]" "g_current_msp g3 = g_default_msp g3" "\<not> g_allocator_initialized g3"
      using d(1-3) by (simp_all add: w3)
    show ?thesis
      using run dead m assms(3) True g d3 unfolding w3
      by (auto simp: wasmlet_inv_def w1 split: if_splits)
  qed
qed

lemma wasmlet_destroy_inv:
  assumes "wasmlet_inv e w"
  shows "wasmlet_inv e (wasmlet_runtime_destroy e w) \<and> \<not> g_runtime_initialized (wasmlet_runtime_destroy e w)
    \<and> g_module (wasmlet_runtime_destroy e w) = NULL \<and> g_heap (wasmlet_runtime_destroy e w) = g_heap w"
proof (cases "g_runtime_initialized w")
  case False
  then show ?thesis using assms by (auto simp: wasmlet_runtime_destroy_def wasmlet_inv_def)
next
  case True
  let ?w1 = "wasmlet_unload_module e w"
  let ?w2 = "?w1\<lparr>mach := wasm_runtime_destroy (wamr_of e) (g_mpk ?w1) (mach ?w1)\<rparr>"
  have run: "wasmlet_runtime_destroy e w = (allocator_destroy e ?w2)\<lparr>g_runtime_initialized := False\<rparr>"
    using True by (simp add: wasmlet_runtime_destroy_def Let_def)
  have u: "wasmlet_inv e ?w1" "g_module ?w1 = NULL" "g_heap ?w1 = g_heap w"
    using wasmlet_unload_inv [OF assms] by simp_all
  show ?thesis
  proof (cases "mpk_isolation e")
    case False
    then show ?thesis using u unfolding run by (simp add: allocator_destroy_def wasmlet_inv_def)
  next
    case True
    then have v: "mpk_inv (g_mpk ?w2) [g_module_domain ?w2]" "dead (g_module_domain ?w2)"
      "g_current_msp (g_mpk ?w2) = g_default_msp (g_mpk ?w2)" "\<not> g_domain_created ?w2"
      using u by (auto simp: wasmlet_inv_def)
    note a = allocator_destroy_inv [OF v(1,2) True v(3)]
    obtain g3 s3 where w3: "allocator_destroy e ?w2 = ?w2\<lparr>g_mpk := g3, mach := s3\<rparr>" using a by blast
    have "mpk_inv g3 [g_module_domain ?w2]" "g_current_msp g3 = g_default_msp g3" "\<not> g_allocator_initialized g3"
      using a by (simp_all add: w3)
    then show ?thesis using u v True unfolding run w3 by (simp add: wasmlet_inv_def)
  qed
qed

lemma wasmlet_cleanup_shape:
  "\<exists>s. wasmlet_cleanup e ee ii w =
     (if mpk_isolation e \<and> g_domain_created w then domain_exit e (w\<lparr>mach := s\<rparr>) else w\<lparr>mach := s\<rparr>)"
proof -
  have same: "w = w\<lparr>mach := mach w\<rparr>" by simp
  define w1 where "w1 = (if ee \<noteq> NULL
    then w\<lparr>mach := wasm_runtime_destroy_exec_env (wamr_of e) (g_mpk w) ee (mach w)\<rparr> else w)"
  define w2 where "w2 = (if ii \<noteq> NULL
    then w1\<lparr>mach := wasm_runtime_deinstantiate (wamr_of e) (g_mpk w1) ii (mach w1)\<rparr> else w1)"
  obtain s1 where 1: "w1 = w\<lparr>mach := s1\<rparr>" using same unfolding w1_def by metis
  then have "w2 = w1\<lparr>mach := mach w2\<rparr>" by (simp add: w2_def)
  then have "w2 = w\<lparr>mach := mach w2\<rparr>" by (simp add: 1)
  then obtain s where 2: "w2 = w\<lparr>mach := s\<rparr>" by blast
  have "wasmlet_cleanup e ee ii w = (if mpk_isolation e \<and> g_domain_created w2 then domain_exit e w2 else w2)"
    by (simp add: wasmlet_cleanup_def Let_def w1_def w2_def)
  then show ?thesis by (auto simp: 2)
qed

lemma wasmlet_run_shape:
  assumes "wasmlet_run e n c a r w = (x, y, w')"
  shows "\<exists>s. w' = (if mpk_isolation e \<and> g_domain_created w then domain_exit e (w\<lparr>mach := s\<rparr>) else w\<lparr>mach := s\<rparr>)"
proof -
  have "\<exists>ee ii s. w' = wasmlet_cleanup e ee ii (w\<lparr>mach := s\<rparr>)"
    using assms unfolding wasmlet_run_def Let_def by (auto split: prod.splits if_splits)
  then obtain ee ii s where w': "w' = wasmlet_cleanup e ee ii (w\<lparr>mach := s\<rparr>)" by blast
  then show ?thesis using wasmlet_cleanup_shape [of e ee ii "w\<lparr>mach := s\<rparr>"]
    by (cases "mpk_isolation e \<and> g_domain_created w") auto
qed

lemma wasmlet_invoke_shape:
  assumes "wasmlet_invoke e name argc argv res w = (r, res', w')"
  obtains "r = - 1" "w' = w"
  | r1 where "mpk_isolation e" "g_domain_created w" "domain_enter e w = (r1, w')" "r1 \<noteq> 0"
  | w1 s where "mpk_isolation e" "g_domain_created w" "domain_enter e w = (0, w1)"
      "w' = domain_exit e (w1\<lparr>mach := s\<rparr>)"
  | s where "\<not> (mpk_isolation e \<and> g_domain_created w)" "w' = w\<lparr>mach := s\<rparr>"
proof (cases "\<not> g_runtime_initialized w \<or> g_module w = NULL \<or> name = None")
  case True
  then show ?thesis using that(1) assms by (auto simp: wasmlet_invoke_def split: if_splits)
next
  case False
  then obtain n where n: "name = Some n" by blast
  obtain r1 w1 where en: "(if mpk_isolation e \<and> g_domain_created w then domain_enter e w else (0, w)) = (r1, w1)"
    by (cases "if mpk_isolation e \<and> g_domain_created w then domain_enter e w else (0, w)")
  then have run: "(if r1 \<noteq> 0 then (- 1, res, w1) else wasmlet_run e n argc argv res w1) = (r, res', w')"
    using assms False n by (simp add: wasmlet_invoke_def)
  have created: "g_domain_created w1 = g_domain_created w"
    using en domain_enter_moved(1) [THEN domain_movedD(4)] by (cases "mpk_isolation e \<and> g_domain_created w") auto
  show ?thesis
  proof (cases "r1 = 0")
    case True
    then have "wasmlet_run e n argc argv res w1 = (r, res', w')" using run by simp
    then obtain t where "w' = (if mpk_isolation e \<and> g_domain_created w1 then domain_exit e (w1\<lparr>mach := t\<rparr>)
        else w1\<lparr>mach := t\<rparr>)"
      using wasmlet_run_shape by blast
    then show ?thesis using that(3,4) en True created by (cases "mpk_isolation e \<and> g_domain_created w") auto
  next
    case False
    then show ?thesis using that(2) en run by (auto split: if_splits)
  qed
qed

lemma wasmlet_invoke_inv:
  assumes "wasmlet_invoke e name argc argv res w = (r, res', w')" "wasmlet_inv e w"
  shows "wasmlet_inv e w' \<and> g_module w' = g_module w \<and> g_heap w' = g_heap w
    \<and> g_runtime_initialized w' = g_runtime_initialized w"
  using assms(1)
proof (cases rule: wasmlet_invoke_shape)
  case 1
  then show ?thesis using assms(2) by simp
next
  case (2 r1)
  note e = domain_movedD [OF domain_enter_moved(1) [OF 2(3)]] domain_enter_moved(2,4) [OF 2(3)]
  show ?thesis using e 2 assms(2) by (auto simp: wasmlet_inv_def)
next
  case (3 w1 s)
  note e = domain_movedD [OF domain_enter_moved(1) [OF 3(3)]] domain_enter_moved(2) [OF 3(3)]
  have "domain_moved (w1\<lparr>mach := s\<rparr>) w'" using domain_exit_moved 3(4) by blast
  note x = domain_movedD [OF this] domain_exit_moved [of "w1\<lparr>mach := s\<rparr>" e, folded 3(4)]
  show ?thesis using x e 3(1,2) assms(2) by (auto simp: wasmlet_inv_def)
next
  case (4 s)
  then show ?thesis using assms(2) by (simp add: wasmlet_inv_mach)
qed

section \<open>Module code runs on the module's heap\<close>

text \<open>Two runtimes that behave alike while \<open>msp\<close> is the current heap.\<close>

definition agree_on :: "addr \<Rightarrow> 'x wamr \<Rightarrow> 'x wamr \<Rightarrow> bool" where
  "agree_on msp a b \<longleftrightarrow>
     (\<forall>g. g_current_msp g \<noteq> msp
        \<or> wasm_runtime_instantiate a g = wasm_runtime_instantiate b g
          \<and> wasm_runtime_create_exec_env a g = wasm_runtime_create_exec_env b g
          \<and> wasm_runtime_lookup_function a g = wasm_runtime_lookup_function b g
          \<and> wasm_runtime_call_wasm a g = wasm_runtime_call_wasm b g
          \<and> wasm_runtime_destroy_exec_env a g = wasm_runtime_destroy_exec_env b g
          \<and> wasm_runtime_deinstantiate a g = wasm_runtime_deinstantiate b g)
     \<and> wasm_runtime_addr_app_to_native a = wasm_runtime_addr_app_to_native b
     \<and> wasm_runtime_get_memory a = wasm_runtime_get_memory b
     \<and> wasm_memory_get_cur_page_count a = wasm_memory_get_cur_page_count b"

lemma domain_wamr: "domain_enter (e\<lparr>wamr_of := a\<rparr>) w = domain_enter e w"
  "domain_exit (e\<lparr>wamr_of := a\<rparr>) w = domain_exit e w"
  by (simp_all add: domain_enter_def domain_exit_def)

lemma agree_cleanup:
  assumes "agree_on (g_current_msp (g_mpk w)) (wamr_of e) b"
  shows "wasmlet_cleanup (e\<lparr>wamr_of := b\<rparr>) ee ii w = wasmlet_cleanup e ee ii w"
  using assms by (simp add: wasmlet_cleanup_def agree_on_def domain_wamr Let_def)

lemma agree_run:
  assumes "agree_on (g_current_msp (g_mpk w)) (wamr_of e) b"
  shows "wasmlet_run (e\<lparr>wamr_of := b\<rparr>) n c a r w = wasmlet_run e n c a r w"
proof -
  have "wasm_runtime_instantiate b (g_mpk w) = wasm_runtime_instantiate (wamr_of e) (g_mpk w)"
    "wasm_runtime_create_exec_env b (g_mpk w) = wasm_runtime_create_exec_env (wamr_of e) (g_mpk w)"
    "wasm_runtime_lookup_function b (g_mpk w) = wasm_runtime_lookup_function (wamr_of e) (g_mpk w)"
    "wasm_runtime_call_wasm b (g_mpk w) = wasm_runtime_call_wasm (wamr_of e) (g_mpk w)"
    using assms unfolding agree_on_def by metis+
  moreover have "write_env_hash (e\<lparr>wamr_of := b\<rparr>) = write_env_hash e"
    using assms by (simp add: fun_eq_iff write_env_hash_def take_snapshot_def agree_on_def cong: if_cong)
  moreover have "wasmlet_cleanup (e\<lparr>wamr_of := b\<rparr>) ee ii (w\<lparr>mach := s\<rparr>) = wasmlet_cleanup e ee ii (w\<lparr>mach := s\<rparr>)"
    for ee ii s using assms by (intro agree_cleanup) simp
  ultimately show ?thesis by (simp add: wasmlet_run_def Let_def case_prod_unfold cong: if_cong)
qed

section \<open>The environment hash\<close>

lemma le_bytes_inj:
  assumes "LENGTH('a) \<le> 8 * n"
  shows "le_bytes n (a :: 'a :: len word) = le_bytes n b \<longleftrightarrow> a = b"
  using le_word_le_bytes [of n a] le_word_le_bytes [of n b] take_bit_full [OF assms, of a]
    take_bit_full [OF assms, of b] by metis

lemma snapshot_bytes_inj: "snapshot_bytes a = snapshot_bytes b \<longleftrightarrow> a = b"
proof
  assume "snapshot_bytes a = snapshot_bytes b"
  then have "le_bytes 8 (linear_mem_base a) = le_bytes 8 (linear_mem_base b)"
    "le_bytes 4 (linear_mem_size a) = le_bytes 4 (linear_mem_size b)"
    "le_bytes 4 (stack_size a) = le_bytes 4 (stack_size b)"
    "le_bytes 4 (heap_size a) = le_bytes 4 (heap_size b)"
    "le_bytes 4 (global_count a) = le_bytes 4 (global_count b)"
    unfolding snapshot_bytes_def by (simp_all del: le_bytes.simps)
  then have "linear_mem_base a = linear_mem_base b" "linear_mem_size a = linear_mem_size b"
    "stack_size a = stack_size b" "heap_size a = heap_size b" "global_count a = global_count b"
    by (simp_all only: le_bytes_inj len_num0 len_num1 len_bit0 len_bit1)
  then show "a = b" by (intro env_snapshot.equality) simp_all
qed simp

section \<open>Properties\<close>

text \<open>
  C21: in the build with protection keys an invocation depends only on what WAMR does while the
  module's own heap is the current one: instantiation, the call and the clean-up all run inside
  the module's domain, and afterwards the default heap is current again.
\<close>
theorem invoke_runs_in_domain:
  assumes "wasmlet_invoke e name argc argv res w = (r, res', w')" "wasmlet_inv e w"
    and "mpk_isolation e" "agree_on (module_msp (g_module_domain w')) (wamr_of e) b"
  shows "wasmlet_invoke (e\<lparr>wamr_of := b\<rparr>) name argc argv res w = (r, res', w')
    \<and> g_current_msp (g_mpk w') = g_default_msp (g_mpk w')"
proof
  show "g_current_msp (g_mpk w') = g_default_msp (g_mpk w')"
    using wasmlet_invoke_inv [OF assms(1,2)] assms(3) by (simp add: wasmlet_inv_def)
  show "wasmlet_invoke (e\<lparr>wamr_of := b\<rparr>) name argc argv res w = (r, res', w')"
  proof (cases "\<not> g_runtime_initialized w \<or> g_module w = NULL \<or> name = None")
    case True
    then show ?thesis using assms(1) by (auto simp: wasmlet_invoke_def split: if_splits)
  next
    case False
    then obtain n where n: "name = Some n" and c: "g_domain_created w"
      using assms(2,3) by (auto simp: wasmlet_inv_def)
    obtain r1 w1 where en: "domain_enter e w = (r1, w1)" by (cases "domain_enter e w")
    show ?thesis
    proof (cases "r1 = 0")
      case r1: False
      then show ?thesis using assms(1,3) False n c en by (simp add: wasmlet_invoke_def domain_wamr)
    next
      case True
      then have run: "wasmlet_run e n argc argv res w1 = (r, res', w')"
        using assms(1,3) False n c en by (simp add: wasmlet_invoke_def)
      obtain t where "w' = (if mpk_isolation e \<and> g_domain_created w1 then domain_exit e (w1\<lparr>mach := t\<rparr>)
          else w1\<lparr>mach := t\<rparr>)"
        using wasmlet_run_shape [OF run] by blast
      then have "g_module_domain w' = g_module_domain w1"
        using domain_exit_moved [of "w1\<lparr>mach := t\<rparr>" e] by auto
      then have "agree_on (g_current_msp (g_mpk w1)) (wamr_of e) b"
        using assms(4) domain_enter_moved(3) [OF en True] by simp
      from agree_run [OF this] show ?thesis
        using run assms(3) False n c en True by (simp add: wasmlet_invoke_def domain_wamr)
    qed
  qed
qed


text \<open>A small runtime, whose functions add their first two arguments, for the witnesses.\<close>

definition demo_wamr :: "unit wamr" where
  "demo_wamr = \<lparr>wasm_runtime_full_init = (\<lambda>g a s. (True, s)), wasm_runtime_destroy = (\<lambda>g s. s),
     wasm_runtime_load = (\<lambda>g b n s. (b, s)), wasm_runtime_unload = (\<lambda>g m s. s),
     wasm_runtime_instantiate = (\<lambda>g m st h s. (m + 1, s)),
     wasm_runtime_create_exec_env = (\<lambda>g i st s. (i + 1, s)),
     wasm_runtime_addr_app_to_native = (\<lambda>s i a. 0x70000000),
     wasm_runtime_get_memory = (\<lambda>s i k. i), wasm_memory_get_cur_page_count = (\<lambda>s m. 2),
     wasm_runtime_lookup_function = (\<lambda>g i n s. (7, s)),
     wasm_runtime_call_wasm = (\<lambda>g ee f c a s. (True, a[0 := a ! 0 + a ! 1], s)),
     wasm_runtime_destroy_exec_env = (\<lambda>g ee s. s), wasm_runtime_deinstantiate = (\<lambda>g i s. s)\<rparr>"

text \<open>The same, but its calls fail unless \<open>msp\<close> is the current heap.\<close>

definition picky_wamr :: "addr \<Rightarrow> unit wamr" where
  "picky_wamr msp = demo_wamr\<lparr>wasm_runtime_call_wasm :=
     (\<lambda>g ee f c a s. if g_current_msp g = msp then (True, a[0 := a ! 0 + a ! 1], s) else (False, a, s))\<rparr>"

definition demo_env :: "unit env" where
  "demo_env = \<lparr>svsm_of = granting_svsm, dl_of = first_fit_dl, wamr_of = demo_wamr, mpk_isolation = True,
     snap_addr = 0x8000000000, env_hash_addr = 0x8000000100\<rparr>"

definition demo_loaded :: "unit wasmlet" where
  "demo_loaded = \<lparr>g_heap = heap_start,
     g_mpk = \<lparr>g_pkey_pool = 1 # replicate 14 0, g_pkey_free = 1 # replicate 14 0, g_pkey_free_top = 0,
       g_pkey_total = 1, g_default_msp = 0x6000000000, g_default_base = 0x6000000000,
       g_default_size = 0x400000, g_allocator_initialized = True, g_current_msp = 0x6000000000,
       g_current_pkey = 0, g_mpk_next_addr = 0x6000800000\<rparr>,
     g_runtime_initialized = True, g_module = 0x4000000010,
     g_module_domain = \<lparr>pkey = 1, region_base = 0x6000400000, region_size = 0x400000, module_msp = NULL\<rparr>,
     g_domain_created = True, mach = \<lparr>mem = (\<lambda>_. 0), world = ()\<rparr>\<rparr>"

lemma demo_loaded_inv: "wasmlet_inv demo_env demo_loaded"
  by (simp add: wasmlet_inv_def demo_env_def demo_loaded_def mpk_inv_def keys_inv_def regions_inv_def
      init_inv_def live_keys_def dead_def free_keys_def pool_keys_def PKEY_POOL_MAX_def region_end_def)

lemma granting_domain_calls:
  "pal_svsm_mpk_enter_domain granting_svsm k s = (0, s)"
  "pal_svsm_mpk_exit_domain granting_svsm k s = (0, s)"
  by (simp_all add: pal_svsm_mpk_enter_domain_def pal_svsm_mpk_exit_domain_def monitor_call_def
      granting_svsm_def call4_def int_of_u64_def)

lemma demo_invoke:
  "\<exists>w'. wasmlet_invoke demo_env (Some [102]) 2 [20, 22] (Some 0) demo_loaded = (0, Some 42, w')
     \<and> module_msp (g_module_domain w') = 0x6000400000"
  by (simp add: wasmlet_invoke_def demo_loaded_def demo_env_def domain_enter_def mpk_domain_enter_def
      granting_domain_calls create_tracked_mspace_def first_fit_dl_def wasmlet_run_def demo_wamr_def
      wasmlet_cleanup_def domain_exit_def mpk_domain_exit_def)

theorem invoke_runs_in_domain_witness:
  "\<exists>w'. wasmlet_invoke (demo_env\<lparr>wamr_of := picky_wamr 0x6000400000\<rparr>) (Some [102]) 2 [20, 22] (Some 0)
          demo_loaded = (0, Some 42, w')
      \<and> g_current_msp (g_mpk w') = g_default_msp (g_mpk w')"
proof -
  obtain w' where w: "wasmlet_invoke demo_env (Some [102]) 2 [20, 22] (Some 0) demo_loaded = (0, Some 42, w')"
    "module_msp (g_module_domain w') = 0x6000400000" using demo_invoke by blast
  have iso: "mpk_isolation demo_env" by (simp add: demo_env_def)
  have agree: "agree_on (module_msp (g_module_domain w')) (wamr_of demo_env) (picky_wamr 0x6000400000)"
    by (simp add: agree_on_def picky_wamr_def demo_env_def w(2) demo_wamr_def)
  show ?thesis using invoke_runs_in_domain [OF w(1) demo_loaded_inv iso agree] by blast
qed


end
