(* ===== verification/Wamr_Main.thy ===== *)
theory Wamr_Main
  imports Wasmlet
begin

text \<open>
  \<open>wamr-pal/wamr_pal_main.c\<close>: the entry point of VMPL1.  It initialises heap and runtime, suspends,
  and then serves requests: it reads one from the input channel, runs it and answers in the output
  channel, until a shutdown request arrives.  The monitor, behind the trap of
  \<open>pal_svsm_get_result\<close>, puts the next request into the memory before that trap returns.

  The local arrays \<open>func_name\<close> and \<open>argv\<close> are values; \<open>stack\<close> gives the words that stand in \<open>argv\<close>
  before it is written.  The log messages and the PKRU printout are left out.
\<close>

section \<open>The channels\<close>

definition INPUT_CHANNEL_ADDR :: addr where "INPUT_CHANNEL_ADDR = 0x28000000000"
definition OUTPUT_CHANNEL_ADDR :: addr where "OUTPUT_CHANNEL_ADDR = 0x30000000000"
definition OUTPUT_STATUS_OFFSET :: u64 where "OUTPUT_STATUS_OFFSET = 0"
definition OUTPUT_RESULT_OFFSET :: u64 where "OUTPUT_RESULT_OFFSET = 4"
definition MAX_FUNC_NAME_LEN :: u32 where "MAX_FUNC_NAME_LEN = 128"
definition INPUT_HEADER_SIZE :: u32 where "INPUT_HEADER_SIZE = 12"

record input_header =
  hdr_wasm_size :: u32
  hdr_func_name_len :: u32
  hdr_argc :: "16 word"
  hdr_reserved :: "16 word"

definition load16 :: "mem \<Rightarrow> addr \<Rightarrow> 16 word" where
  "load16 m p = le_word (read_bytes m p 2)"

definition align4 :: "u32 \<Rightarrow> u32" where
  "align4 v = (v + 3) AND NOT 3"

definition read_input_header :: "mem \<Rightarrow> input_header" where
  "read_input_header m =
     \<lparr>hdr_wasm_size = load32 m INPUT_CHANNEL_ADDR, hdr_func_name_len = load32 m (INPUT_CHANNEL_ADDR + 4),
      hdr_argc = load16 m (INPUT_CHANNEL_ADDR + 8), hdr_reserved = 0\<rparr>"

text \<open>The name as the loop leaves it in the array, and the offset behind it.\<close>

definition read_func_name :: "mem \<Rightarrow> u32 \<Rightarrow> byte list \<times> u32" where
  "read_func_name m len =
     (let offset = INPUT_HEADER_SIZE;
          func_name = map (\<lambda>i. m (INPUT_CHANNEL_ADDR + ucast (offset + of_nat i))) [0..<unat len] @ [0]
      in (func_name, align4 (offset + len)))"

definition read_args :: "mem \<Rightarrow> u32 \<Rightarrow> 16 word \<Rightarrow> u32 list \<Rightarrow> 16 word \<times> u32 list \<times> u32" where
  "read_args m offset n_args stack =
     (let argc = (if 16 < n_args then 16 else n_args);
          (argv, offset) = fold (\<lambda>i (argv, offset). (argv[i := load32 m (INPUT_CHANNEL_ADDR + ucast offset)], offset + 4))
                             [0..<unat argc] (stack, offset)
      in (argc, argv, offset))"

definition copy_wasm :: "mem \<Rightarrow> addr \<Rightarrow> u32 \<Rightarrow> u32 \<Rightarrow> mem" where
  "copy_wasm m buf wasm_offset wasm_size =
     fold (\<lambda>i m. m(buf + of_nat i := m (INPUT_CHANNEL_ADDR + ucast (wasm_offset + of_nat i))))
       [0..<unat wasm_size] m"

section \<open>State\<close>

record 'x pal =
  wl :: "'x wasmlet"
  g_wasm_buf :: addr

text \<open>The statics before the program runs.\<close>

definition wasmlet_start :: "'x machine \<Rightarrow> 'x wasmlet" where
  "wasmlet_start s = \<lparr>g_heap = heap_start, g_mpk = mpk_start, g_runtime_initialized = False, g_module = NULL,
     g_module_domain = \<lparr>pkey = 0, region_base = NULL, region_size = 0, module_msp = NULL\<rparr>,
     g_domain_created = False, mach = s\<rparr>"

definition pal_start :: "'x machine \<Rightarrow> 'x pal" where
  "pal_start s = \<lparr>wl = wasmlet_start s, g_wasm_buf = NULL\<rparr>"

definition on_machine :: "('x machine \<Rightarrow> 'x machine) \<Rightarrow> 'x pal \<Rightarrow> 'x pal" where
  "on_machine f p = p\<lparr>wl := (wl p)\<lparr>mach := f (mach (wl p))\<rparr>\<rparr>"

definition write_output_channel :: "'x env \<Rightarrow> u32 \<Rightarrow> u32 \<Rightarrow> 'x machine \<Rightarrow> 'x machine" where
  "write_output_channel e status result s =
     (let (ret, s) = pal_svsm_inflate_channel (svsm_of e) 1 4096 s;
          m = store32 (mem s) (OUTPUT_CHANNEL_ADDR + OUTPUT_STATUS_OFFSET) status;
          m = store32 m (OUTPUT_CHANNEL_ADDR + OUTPUT_RESULT_OFFSET) result
      in s\<lparr>mem := m\<rparr>)"

text \<open>The answer to a request: \<open>write_output_channel\<close>, then \<open>pal_svsm_get_result\<close>.\<close>

definition respond :: "'x env \<Rightarrow> u32 \<Rightarrow> u32 \<Rightarrow> 'x pal \<Rightarrow> 'x pal" where
  "respond e status result p =
     on_machine (\<lambda>s. pal_svsm_get_result (svsm_of e) (write_output_channel e status result s)) p"

definition free_wasm_buf :: "'x env \<Rightarrow> 'x pal \<Rightarrow> 'x pal" where
  "free_wasm_buf e p =
     (on_machine (pal_free (dl_of e) (g_heap (wl p)) (g_wasm_buf p)) p)\<lparr>g_wasm_buf := NULL\<rparr>"

section \<open>Requests\<close>

text \<open>The end of both modes: the call and its answer.\<close>

definition invoke_request :: "'x env \<Rightarrow> byte list \<Rightarrow> 16 word \<Rightarrow> u32 list \<Rightarrow> 'x pal \<Rightarrow> 'x pal" where
  "invoke_request e func_name argc argv p =
     (let (ret, result, w) = wasmlet_invoke e (Some (takeWhile (\<lambda>b. b \<noteq> 0) func_name)) (uint argc) argv (Some 0) (wl p);
          p = p\<lparr>wl := w\<rparr>
      in if ret \<noteq> 0 then respond e 4 0 p else respond e 0 (the result) p)"

definition mode_load :: "'x env \<Rightarrow> ('x machine \<Rightarrow> u32 list) \<Rightarrow> input_header \<Rightarrow> 'x pal \<Rightarrow> 'x pal" where
  "mode_load e stack hdr p =
     (let p = (if g_wasm_buf p \<noteq> NULL then free_wasm_buf e (p\<lparr>wl := wasmlet_unload_module e (wl p)\<rparr>) else p);
          m = mem (mach (wl p));
          (func_name, offset) = read_func_name m (hdr_func_name_len hdr);
          (argc, argv, offset) = read_args m offset (hdr_argc hdr) (stack (mach (wl p)));
          (buf, s) = pal_malloc (dl_of e) (g_heap (wl p)) (ucast (hdr_wasm_size hdr)) (mach (wl p));
          p = p\<lparr>wl := (wl p)\<lparr>mach := s\<rparr>, g_wasm_buf := buf\<rparr>
      in if buf = NULL then respond e 2 0 p
         else (let p = on_machine (\<lambda>s. s\<lparr>mem := copy_wasm (mem s) buf offset (hdr_wasm_size hdr)\<rparr>) p;
                   (ret, w) = wasmlet_load_module e buf (hdr_wasm_size hdr) (wl p);
                   p = p\<lparr>wl := w\<rparr>
               in if ret \<noteq> 0 then respond e 3 0 (free_wasm_buf e p)
                  else invoke_request e func_name argc argv p))"

definition mode_invoke :: "'x env \<Rightarrow> ('x machine \<Rightarrow> u32 list) \<Rightarrow> input_header \<Rightarrow> 'x pal \<Rightarrow> 'x pal" where
  "mode_invoke e stack hdr p =
     (if g_wasm_buf p = NULL then respond e 5 0 p
      else (let m = mem (mach (wl p));
                (func_name, offset) = read_func_name m (hdr_func_name_len hdr);
                (argc, argv, offset) = read_args m offset (hdr_argc hdr) (stack (mach (wl p)))
            in invoke_request e func_name argc argv p))"

text \<open>One round of the loop; None is the \<open>break\<close> of a shutdown request.\<close>

definition main_step :: "'x env \<Rightarrow> ('x machine \<Rightarrow> u32 list) \<Rightarrow> 'x pal \<Rightarrow> 'x pal option" where
  "main_step e stack p =
     (let hdr = read_input_header (mem (mach (wl p)))
      in if hdr_wasm_size hdr = 0 \<and> hdr_func_name_len hdr = 0 then None
         else if hdr_func_name_len hdr = 0 \<or> MAX_FUNC_NAME_LEN < hdr_func_name_len hdr then Some (respond e 1 0 p)
         else if 0 < hdr_wasm_size hdr then Some (mode_load e stack hdr p)
         else Some (mode_invoke e stack hdr p))"

partial_function (option) main_loop :: "'x env \<Rightarrow> ('x machine \<Rightarrow> u32 list) \<Rightarrow> 'x pal \<Rightarrow> 'x pal option" where
  "main_loop e stack p = (case main_step e stack p of None \<Rightarrow> Some p | Some p \<Rightarrow> main_loop e stack p)"

definition main_cleanup :: "'x env \<Rightarrow> 'x pal \<Rightarrow> 'x pal" where
  "main_cleanup e p =
     (let p = (if g_wasm_buf p \<noteq> NULL then free_wasm_buf e (p\<lparr>wl := wasmlet_unload_module e (wl p)\<rparr>) else p);
          p = p\<lparr>wl := wasmlet_runtime_destroy e (wl p)\<rparr>
      in on_machine (pal_svsm_exit (svsm_of e) 0) p)"

text \<open>
  Phase A: the result says whether the program goes on to the loop or has reported a failure and
  spins.
\<close>

definition main_init :: "'x env \<Rightarrow> 'x pal \<Rightarrow> bool \<times> 'x pal" where
  "main_init e p =
     (let (ret, g, s) = pal_heap_init (svsm_of e) (dl_of e) (g_heap (wl p)) (mach (wl p));
          p = p\<lparr>wl := (wl p)\<lparr>g_heap := g, mach := s\<rparr>\<rparr>
      in if ret \<noteq> 0 then (False, on_machine (pal_svsm_exit (svsm_of e) 1) p)
         else (let (ret, w) = wasmlet_runtime_init e (wl p);
                   p = p\<lparr>wl := w\<rparr>
               in if ret \<noteq> 0 then (False, on_machine (pal_svsm_exit (svsm_of e) 1) p)
                  else (True, on_machine (pal_svsm_exit (svsm_of e) 0) p)))"

text \<open>The state in which the program spins after its last trap; None when it serves for ever.\<close>

definition wamr_pal_main :: "'x env \<Rightarrow> ('x machine \<Rightarrow> u32 list) \<Rightarrow> 'x pal \<Rightarrow> 'x pal option" where
  "wamr_pal_main e stack p =
     (let (go, p) = main_init e p
      in if \<not> go then Some p else map_option (main_cleanup e) (main_loop e stack p))"

section \<open>Invariant of the loop\<close>

text \<open>Between requests a module is loaded exactly when its bytecode buffer is kept.\<close>

definition main_inv :: "'x env \<Rightarrow> 'x pal \<Rightarrow> bool" where
  "main_inv e p \<longleftrightarrow> wasmlet_inv e (wl p) \<and> g_runtime_initialized (wl p)
     \<and> (g_wasm_buf p = NULL \<longleftrightarrow> g_module (wl p) = NULL)"

lemma on_machine_inv [simp]: "main_inv e (on_machine f p) = main_inv e p"
  by (simp add: main_inv_def on_machine_def wasmlet_inv_mach)

lemma respond_inv [simp]: "main_inv e (respond e st res p) = main_inv e p"
  by (simp add: respond_def)

lemma free_wasm_buf_inv: "wasmlet_inv e (wl p) \<Longrightarrow> g_runtime_initialized (wl p) \<Longrightarrow> g_module (wl p) = NULL \<Longrightarrow>
  main_inv e (free_wasm_buf e p)"
  by (simp add: free_wasm_buf_def main_inv_def on_machine_def wasmlet_inv_mach)

lemma invoke_request_inv:
  assumes "main_inv e p"
  shows "main_inv e (invoke_request e n c a p)"
proof -
  obtain r res w where i: "wasmlet_invoke e (Some (takeWhile (\<lambda>b. b \<noteq> 0) n)) (uint c) a (Some 0) (wl p) = (r, res, w)"
    by (cases "wasmlet_invoke e (Some (takeWhile (\<lambda>b. b \<noteq> 0) n)) (uint c) a (Some 0) (wl p)")
  have "main_inv e (p\<lparr>wl := w\<rparr>)"
    using wasmlet_invoke_inv [OF i] assms by (simp add: main_inv_def)
  then show ?thesis by (simp add: invoke_request_def i Let_def)
qed

lemma drop_module_inv:
  assumes "main_inv e p"
  shows "main_inv e (if g_wasm_buf p \<noteq> NULL then free_wasm_buf e (p\<lparr>wl := wasmlet_unload_module e (wl p)\<rparr>) else p)
    \<and> g_wasm_buf (if g_wasm_buf p \<noteq> NULL then free_wasm_buf e (p\<lparr>wl := wasmlet_unload_module e (wl p)\<rparr>) else p) = NULL"
  using assms wasmlet_unload_inv [of e "wl p"]
  by (auto simp: main_inv_def free_wasm_buf_def on_machine_def wasmlet_inv_mach)

text \<open>The three outcomes of loading: no buffer, no module, or a call of the loaded module.\<close>

lemma mode_load_cases:
  assumes "main_inv e p" "hdr_wasm_size hdr \<noteq> 0"
  obtains q where "mode_load e stack hdr p = respond e 2 0 q" "main_inv e q" "g_module (wl q) = NULL"
  | q where "mode_load e stack hdr p = respond e 3 0 q" "main_inv e q" "g_module (wl q) = NULL"
  | q n c a where "mode_load e stack hdr p = invoke_request e n c a q" "main_inv e q" "g_module (wl q) \<noteq> NULL"
proof -
  define p1 where "p1 = (if g_wasm_buf p \<noteq> NULL then free_wasm_buf e (p\<lparr>wl := wasmlet_unload_module e (wl p)\<rparr>) else p)"
  have p1: "main_inv e p1" "g_wasm_buf p1 = NULL"
    using drop_module_inv [OF assms(1)] by (simp_all add: p1_def)
  obtain n off where n: "read_func_name (mem (mach (wl p1))) (hdr_func_name_len hdr) = (n, off)"
    by (cases "read_func_name (mem (mach (wl p1))) (hdr_func_name_len hdr)")
  obtain c a off2 where a: "read_args (mem (mach (wl p1))) off (hdr_argc hdr) (stack (mach (wl p1))) = (c, a, off2)"
    by (cases "read_args (mem (mach (wl p1))) off (hdr_argc hdr) (stack (mach (wl p1)))")
  obtain buf s where b: "pal_malloc (dl_of e) (g_heap (wl p1)) (ucast (hdr_wasm_size hdr)) (mach (wl p1)) = (buf, s)"
    by (cases "pal_malloc (dl_of e) (g_heap (wl p1)) (ucast (hdr_wasm_size hdr)) (mach (wl p1))")
  define p2 where "p2 = p1\<lparr>wl := (wl p1)\<lparr>mach := s\<rparr>, g_wasm_buf := buf\<rparr>"
  define p3 where "p3 = on_machine (\<lambda>s. s\<lparr>mem := copy_wasm (mem s) buf off2 (hdr_wasm_size hdr)\<rparr>) p2"
  obtain r w where l: "wasmlet_load_module e buf (hdr_wasm_size hdr) (wl p3) = (r, w)"
    by (cases "wasmlet_load_module e buf (hdr_wasm_size hdr) (wl p3)")
  have run: "mode_load e stack hdr p = (if buf = NULL then respond e 2 0 p2
      else if r \<noteq> 0 then respond e 3 0 (free_wasm_buf e (p3\<lparr>wl := w\<rparr>))
      else invoke_request e n c a (p3\<lparr>wl := w\<rparr>))"
    unfolding mode_load_def p1_def [symmetric] by (simp add: n a b l flip: p2_def p3_def)
  have p3: "wasmlet_inv e (wl p3)" "g_module (wl p3) = NULL" "g_runtime_initialized (wl p3)" "g_wasm_buf p3 = buf"
    using p1 by (auto simp: p3_def p2_def on_machine_def main_inv_def wasmlet_inv_mach)
  note load = wasmlet_load_inv [OF l p3(1)]
  show thesis
  proof (cases "buf = NULL")
    case True
    then have "main_inv e p2" "g_module (wl p2) = NULL" using p1 by (auto simp: p2_def main_inv_def wasmlet_inv_mach)
    then show ?thesis using True run that(1) by simp
  next
    case buf: False
    show ?thesis
    proof (cases "r = 0")
      case True
      then have "main_inv e (p3\<lparr>wl := w\<rparr>)" "g_module w \<noteq> NULL" using load p3 buf by (simp_all add: main_inv_def)
      then show ?thesis using True buf run that(3) by simp
    next
      case False
      then have "main_inv e (free_wasm_buf e (p3\<lparr>wl := w\<rparr>))" using load p3 by (intro free_wasm_buf_inv) auto
      moreover from this have "g_module (wl (free_wasm_buf e (p3\<lparr>wl := w\<rparr>))) = NULL"
        by (simp add: main_inv_def free_wasm_buf_def)
      ultimately show ?thesis using False buf run that(2) by simp
    qed
  qed
qed

lemma mode_load_inv:
  assumes "main_inv e p" "hdr_wasm_size hdr \<noteq> 0"
  shows "main_inv e (mode_load e stack hdr p)"
  using assms by (cases rule: mode_load_cases [where stack = stack]) (simp_all add: invoke_request_inv)

lemma mode_invoke_inv: "main_inv e p \<Longrightarrow> main_inv e (mode_invoke e stack hdr p)"
  by (simp add: mode_invoke_def case_prod_unfold Let_def invoke_request_inv)

lemma main_step_inv: "main_step e stack p = Some p' \<Longrightarrow> main_inv e p \<Longrightarrow> main_inv e p'"
  using mode_load_inv [of e p _ stack] mode_invoke_inv [of e p stack]
  by (auto simp: main_step_def Let_def word_greater_zero_iff split: if_splits)

lemma main_init_inv:
  assumes "main_init e (pal_start s) = (True, p)"
  shows "main_inv e p \<and> g_wasm_buf p = NULL"
proof -
  have "mpk_inv mpk_start [\<lparr>pkey = 0, region_base = NULL, region_size = 0, module_msp = NULL\<rparr>]"
    by (rule mpk_start_inv) (simp add: dead_def)
  moreover have "\<not> g_allocator_initialized mpk_start" "g_current_msp mpk_start = g_default_msp mpk_start"
    by (simp_all add: mpk_start_def)
  ultimately have start: "wasmlet_inv e (wasmlet_start s)"
    by (simp add: wasmlet_inv_def wasmlet_start_def dead_def)
  obtain r1 g s1 where h: "pal_heap_init (svsm_of e) (dl_of e) heap_start s = (r1, g, s1)"
    by (cases "pal_heap_init (svsm_of e) (dl_of e) heap_start s")
  let ?w = "(wasmlet_start s)\<lparr>g_heap := g, mach := s1\<rparr>"
  have w: "wasmlet_inv e ?w" "\<not> g_runtime_initialized ?w"
    using start by (cases "mpk_isolation e"; simp add: wasmlet_inv_def wasmlet_start_def)+
  obtain r w' where i: "wasmlet_runtime_init e ?w = (r, w')" by (cases "wasmlet_runtime_init e ?w")
  have "r1 = 0" "r = 0" "p = on_machine (pal_svsm_exit (svsm_of e) 0) (\<lparr>wl = w', g_wasm_buf = NULL\<rparr>)"
    using assms h i by (auto simp: main_init_def pal_start_def wasmlet_start_def Let_def split: if_splits)
  then show ?thesis
    using wasmlet_init_inv [OF i w] by (simp add: main_inv_def on_machine_def wasmlet_inv_mach)
qed

definition main_next :: "'x env \<Rightarrow> ('x machine \<Rightarrow> u32 list) \<Rightarrow> 'x pal \<Rightarrow> 'x pal \<Rightarrow> bool" where
  "main_next e stack p p' \<longleftrightarrow> main_step e stack p = Some p'"

lemma main_next_inv: "(main_next e stack)\<^sup>*\<^sup>* p p' \<Longrightarrow> main_inv e p \<Longrightarrow> main_inv e p'"
  by (induction rule: rtranclp_induct) (auto simp: main_next_def intro: main_step_inv)

section \<open>Every request is answered\<close>

text \<open>The output channel holds status and result when the monitor is told to fetch them.\<close>

definition answered :: "'x env \<Rightarrow> u32 \<Rightarrow> u32 \<Rightarrow> 'x pal \<Rightarrow> bool" where
  "answered e status result p \<longleftrightarrow>
     (\<exists>t. mach (wl p) = pal_svsm_get_result (svsm_of e) t
          \<and> load32 (mem t) OUTPUT_CHANNEL_ADDR = status \<and> load32 (mem t) (OUTPUT_CHANNEL_ADDR + 4) = result)"

lemma load32_store32_other: "separate p 4 q 4 \<Longrightarrow> load32 (store32 m p w) q = load32 m q"
  by (simp add: load32_def store32_def read_bytes_write_separate del: read_bytes.simps)

lemma respond_answered: "answered e status result (respond e status result p)"
proof -
  have "separate (OUTPUT_CHANNEL_ADDR + 4) 4 OUTPUT_CHANNEL_ADDR 4"
    by (simp add: separate_def OUTPUT_CHANNEL_ADDR_def)
  then have "load32 (mem (write_output_channel e status result s)) OUTPUT_CHANNEL_ADDR = status"
    "load32 (mem (write_output_channel e status result s)) (OUTPUT_CHANNEL_ADDR + 4) = result" for s
    by (simp_all add: write_output_channel_def OUTPUT_STATUS_OFFSET_def OUTPUT_RESULT_OFFSET_def
        pal_svsm_inflate_channel_def load32_store32_other)
  then show ?thesis by (auto simp: answered_def respond_def on_machine_def)
qed

lemma respond_state [simp]: "g_module (wl (respond e st r p)) = g_module (wl p)"
  "g_wasm_buf (respond e st r p) = g_wasm_buf p"
  by (simp_all add: respond_def on_machine_def)

lemma invoke_request_answered:
  assumes "main_inv e p"
  shows "\<exists>st res. answered e st res (invoke_request e n c a p) \<and> (st = 0 \<or> st = 4 \<and> res = 0)
    \<and> g_module (wl (invoke_request e n c a p)) = g_module (wl p)"
proof -
  obtain r res w where i: "wasmlet_invoke e (Some (takeWhile (\<lambda>b. b \<noteq> 0) n)) (uint c) a (Some 0) (wl p) = (r, res, w)"
    by (cases "wasmlet_invoke e (Some (takeWhile (\<lambda>b. b \<noteq> 0) n)) (uint c) a (Some 0) (wl p)")
  have m: "g_module w = g_module (wl p)" using wasmlet_invoke_inv [OF i] assms by (simp add: main_inv_def)
  have "invoke_request e n c a p = (if r \<noteq> 0 then respond e 4 0 (p\<lparr>wl := w\<rparr>) else respond e 0 (the res) (p\<lparr>wl := w\<rparr>))"
    by (simp add: invoke_request_def i Let_def)
  then show ?thesis
    using respond_answered [of e 4 0 "p\<lparr>wl := w\<rparr>"] respond_answered [of e 0 "the res" "p\<lparr>wl := w\<rparr>"] m
    by (cases "r = 0") auto
qed

lemma mode_load_answered:
  assumes "main_inv e p" "hdr_wasm_size hdr \<noteq> 0"
  shows "\<exists>st res. answered e st res (mode_load e stack hdr p) \<and> st \<in> {0, 2, 3, 4} \<and> (st = 0 \<or> res = 0)
    \<and> (g_module (wl (mode_load e stack hdr p)) \<noteq> NULL \<longleftrightarrow> st = 0 \<or> st = 4)"
  using assms
proof (cases rule: mode_load_cases [where stack = stack])
  case (1 q)
  then show ?thesis using respond_answered [of e 2 0 q] by (intro exI [of _ 2] exI [of _ 0]) auto
next
  case (2 q)
  then show ?thesis using respond_answered [of e 3 0 q] by (intro exI [of _ 3] exI [of _ 0]) auto
next
  case (3 q n c a)
  then show ?thesis using invoke_request_answered [OF 3(2), of n c a] by fastforce
qed

section \<open>Requests in the channel\<close>

text \<open>
  A request as the protocol in the file's header comment lays it out: sizes, name, padding to a
  multiple of four, arguments, bytecode.
\<close>

definition encode_request :: "byte list \<Rightarrow> u32 list \<Rightarrow> byte list \<Rightarrow> byte list" where
  "encode_request name args code =
     le_bytes 4 (of_nat (length code) :: u32) @ le_bytes 4 (of_nat (length name) :: u32)
       @ le_bytes 2 (of_nat (length args) :: 16 word) @ [0, 0] @ name
       @ replicate ((4 - length name mod 4) mod 4) 0 @ concat (map (le_bytes 4) args) @ code"

definition in_channel :: "mem \<Rightarrow> byte list \<Rightarrow> bool" where
  "in_channel m bs \<longleftrightarrow> read_bytes m INPUT_CHANNEL_ADDR (length bs) = bs"

lemma in_channel_part:
  assumes "in_channel m bs" "bs = xs @ ys @ zs"
  shows "read_bytes m (INPUT_CHANNEL_ADDR + of_nat (length xs)) (length ys) = ys"
proof -
  have "read_bytes m INPUT_CHANNEL_ADDR (length xs + (length ys + length zs)) = xs @ ys @ zs"
    using assms by (simp add: in_channel_def)
  then show ?thesis by (simp add: read_bytes_add append_eq_append_conv)
qed

lemma and_not_3: "unat (x AND NOT 3 :: u32) = unat x div 4 * 4"
proof -
  have "x AND NOT 3 = push_bit 2 (drop_bit 2 x)"
  proof -
    have "(3 :: u32) = mask 2" by (simp add: mask_eq_exp_minus_1)
    then have "x AND NOT 3 = x AND NOT (mask 2)" by simp
    also have "\<dots> = push_bit 2 (drop_bit 2 x)"
      by (rule bit_eqI) (auto simp: bit_simps not_less le_iff_add)
    finally show ?thesis .
  qed
  then have "unat (x AND NOT 3) = take_bit LENGTH(32) (push_bit 2 (unat (drop_bit 2 x)))"
    by (simp only: unsigned_push_bit_eq)
  also have "\<dots> = take_bit 32 (unat x div 4 * 4)"
    by (simp add: push_bit_eq_mult unat_drop_bit_eq drop_bit_eq_div unat_div)
  also have "\<dots> = unat x div 4 * 4"
  proof (rule take_bit_nat_eq_self)
    have "unat x div 4 * 4 \<le> unat x" by (rule div_times_less_eq_dividend)
    then show "unat x div 4 * 4 < 2 ^ 32" using unsigned_less [of x, where ?'a = nat] by simp
  qed
  finally show ?thesis .
qed

lemma align4_value:
  assumes "unat v + 3 < 2 ^ 32"
  shows "unat (align4 v) = (unat v + 3) div 4 * 4"
proof -
  have "unat (v + 3) = unat v + 3" using assms by (simp add: unat_word_ariths)
  then show ?thesis by (simp only: align4_def and_not_3)
qed

lemma round4: "(12 + n + 3) div 4 * 4 = 12 + n + (4 - n mod 4) mod (4 :: nat)"
proof -
  have "n mod 4 < 4" by simp
  then consider "n mod 4 = 0" | "n mod 4 = 1" | "n mod 4 = 2" | "n mod 4 = 3" by linarith
  then show ?thesis
    using div_mult_mod_eq [of n 4] by cases (simp_all, presburger+)
qed

lemma u32_index:
  assumes "unat (v :: u32) + i < 2 ^ 32"
  shows "(ucast (v + of_nat i) :: u64) = of_nat (unat v + i)"
proof -
  have i: "unat (of_nat i :: u32) = i" using assms by (simp add: unsigned_of_nat take_bit_nat_eq_self)
  then have "unat (v + of_nat i) = unat v + i" using assms by (simp add: unat_word_ariths)
  then have u: "unat (ucast (v + of_nat i) :: u64) = unat v + i" using assms by (simp add: unsigned_ucast_eq take_bit_nat_eq_self)
  have "(ucast (v + of_nat i) :: u64) = of_nat (unat (ucast (v + of_nat i) :: u64))" by simp
  then show ?thesis by (simp only: u)
qed

lemma read_args_fold:
  assumes "\<And>i. i < k \<Longrightarrow> load32 m (INPUT_CHANNEL_ADDR + ucast (off + of_nat (4 * i))) = xs ! i"
    and "k \<le> length stack" "k \<le> length xs"
  shows "fold (\<lambda>i (argv, offset). (argv[i := load32 m (INPUT_CHANNEL_ADDR + ucast offset)], offset + 4)) [0..<k] (stack, off)
    = (take k xs @ drop k stack, off + of_nat (4 * k))"
  using assms
proof (induction k)
  case (Suc k)
  have "(take k xs @ drop k stack)[k := xs ! k] = take (Suc k) xs @ drop (Suc k) stack"
    using Suc.prems(2,3) by (simp add: list_update_append take_Suc_conv_app_nth Cons_nth_drop_Suc [symmetric])
  then show ?case using Suc by (simp add: algebra_simps)
qed simp

lemma length_arg_bytes [simp]: "length (concat (map (le_bytes 4) (args :: u32 list))) = 4 * length args"
  by (induction args) simp_all

text \<open>Where the arguments of an encoded request start.\<close>

definition args_at :: "byte list \<Rightarrow> nat" where
  "args_at name = 12 + length name + (4 - length name mod 4) mod 4"

text \<open>What the parsing steps of the loop read from an encoded request.\<close>

lemma encoded_header:
  assumes "in_channel m (encode_request name args code)"
  shows "read_input_header m = \<lparr>hdr_wasm_size = of_nat (length code), hdr_func_name_len = of_nat (length name),
     hdr_argc = of_nat (length args), hdr_reserved = 0\<rparr>"
proof -
  note part = in_channel_part [OF assms, unfolded encode_request_def]
  have "read_bytes m (INPUT_CHANNEL_ADDR + of_nat 0) 4 = le_bytes 4 (of_nat (length code) :: u32)"
    using part [of "[]" "le_bytes 4 (of_nat (length code) :: u32)"] by (simp del: le_bytes.simps read_bytes.simps)
  moreover have "read_bytes m (INPUT_CHANNEL_ADDR + of_nat 4) 4 = le_bytes 4 (of_nat (length name) :: u32)"
    using part [of "le_bytes 4 (of_nat (length code) :: u32)" "le_bytes 4 (of_nat (length name) :: u32)"]
    by (simp del: le_bytes.simps read_bytes.simps)
  moreover have "read_bytes m (INPUT_CHANNEL_ADDR + of_nat 8) 2 = le_bytes 2 (of_nat (length args) :: 16 word)"
    using part [of "le_bytes 4 (of_nat (length code) :: u32) @ le_bytes 4 (of_nat (length name) :: u32)"
        "le_bytes 2 (of_nat (length args) :: 16 word)"]
    by (simp del: le_bytes.simps read_bytes.simps)
  ultimately show ?thesis
    by (simp add: read_input_header_def load32_def load16_def le_word_le_bytes take_bit_full
        del: le_bytes.simps read_bytes.simps)
qed

lemma encoded_name:
  assumes "in_channel m (encode_request name args code)" "length name \<le> 128"
  shows "fst (read_func_name m (of_nat (length name))) = name @ [0]"
    and "unat (snd (read_func_name m (of_nat (length name)))) = args_at name"
proof -
  have len: "unat (of_nat (length name) :: u32) = length name"
    using assms(2) by (simp add: unsigned_of_nat take_bit_nat_eq_self)
  have part: "read_bytes m (INPUT_CHANNEL_ADDR + of_nat 12) (length name) = name"
    using in_channel_part [OF assms(1), unfolded encode_request_def,
        of "le_bytes 4 (of_nat (length code) :: u32) @ le_bytes 4 (of_nat (length name) :: u32)
              @ le_bytes 2 (of_nat (length args) :: 16 word) @ [0, 0]" name]
    by (simp del: le_bytes.simps read_bytes.simps)
  have "map (\<lambda>i. m (INPUT_CHANNEL_ADDR + ucast (INPUT_HEADER_SIZE + of_nat i))) [0..<length name]
      = map (\<lambda>i. m (INPUT_CHANNEL_ADDR + of_nat 12 + of_nat i)) [0..<length name]"
    using assms(2) by (intro map_cong) (simp_all add: u32_index INPUT_HEADER_SIZE_def add.assoc)
  also have "\<dots> = name" using part by (simp only: read_bytes_conv_map)
  finally show "fst (read_func_name m (of_nat (length name))) = name @ [0]"
    by (simp only: read_func_name_def Let_def len fst_conv)
  have "unat (INPUT_HEADER_SIZE + of_nat (length name)) = 12 + length name"
    using assms(2) len by (simp add: unat_word_ariths INPUT_HEADER_SIZE_def)
  then show "unat (snd (read_func_name m (of_nat (length name)))) = args_at name"
    using assms(2) round4 [of "length name"]
    by (simp add: read_func_name_def Let_def align4_value args_at_def add.commute)
qed

text \<open>From the arguments on, the channel holds these bytes.\<close>

lemma encoded_rest:
  assumes "in_channel m (encode_request name args code)" "k \<le> length args" "n \<le> length code + 4 * (length args - k)"
  shows "read_bytes m (INPUT_CHANNEL_ADDR + of_nat (args_at name + 4 * k)) n
    = take n (concat (map (le_bytes 4) (drop k args)) @ code)"
proof -
  let ?pre = "le_bytes 4 (of_nat (length code) :: u32) @ le_bytes 4 (of_nat (length name) :: u32)
    @ le_bytes 2 (of_nat (length args) :: 16 word) @ [0, 0] @ name @ replicate ((4 - length name mod 4) mod 4) 0
    @ concat (map (le_bytes 4) (take k args))"
  let ?rest = "concat (map (le_bytes 4) (drop k args)) @ code"
  have "concat (map (le_bytes 4) args) = concat (map (le_bytes 4) (take k args)) @ concat (map (le_bytes 4) (drop k args))"
    by (simp flip: concat_append map_append)
  then have bs: "encode_request name args code = ?pre @ take n ?rest @ drop n ?rest"
    by (simp add: encode_request_def del: le_bytes.simps take_append drop_append append_assoc flip: append_assoc)
  have "length ?pre = args_at name + 4 * k" using assms(2) by (simp add: args_at_def del: le_bytes.simps)
  moreover have "length (take n ?rest) = n" using assms(2,3) by simp
  ultimately show ?thesis using in_channel_part [OF assms(1) bs] by (simp only:)
qed

lemma encoded_args:
  assumes "in_channel m (encode_request name args code)" "length name \<le> 128" "length args < 2 ^ 16"
    "length stack = 16" "unat off = args_at name"
  defines "k \<equiv> min 16 (length args)"
  shows "read_args m off (of_nat (length args)) stack = (of_nat k, take k args @ drop k stack, off + of_nat (4 * k))"
proof -
  have n: "unat (of_nat (length args) :: 16 word) = length args"
    using assms(3) by (simp add: unsigned_of_nat take_bit_nat_eq_self)
  then have clamp: "(if 16 < (of_nat (length args) :: 16 word) then 16 else of_nat (length args)) = (of_nat k :: 16 word)"
    by (auto simp: k_def word_less_nat_alt min_def)
  have k: "unat (of_nat k :: 16 word) = k" by (simp add: unsigned_of_nat take_bit_nat_eq_self k_def)
  have "load32 m (INPUT_CHANNEL_ADDR + ucast (off + of_nat (4 * i))) = args ! i" if "i < k" for i
  proof -
    have i: "i < length args" "i < 16" using that by (simp_all add: k_def)
    have "unat off + 4 * i < 2 ^ 32" using assms(2,5) i by (simp add: args_at_def)
    then have "ucast (off + of_nat (4 * i)) = (of_nat (args_at name + 4 * i) :: u64)"
      by (simp only: u32_index assms(5))
    moreover have "read_bytes m (INPUT_CHANNEL_ADDR + of_nat (args_at name + 4 * i)) 4 = le_bytes 4 (args ! i)"
      using encoded_rest [OF assms(1), of i 4] i by (simp add: Cons_nth_drop_Suc [symmetric] del: le_bytes.simps)
    ultimately show ?thesis by (simp only: load32_def le_word_le_bytes) (simp add: take_bit_full)
  qed
  then show ?thesis
    using read_args_fold [of k m off args stack] assms(4)
    by (simp add: read_args_def Let_def clamp k, simp add: k_def)
qed

lemma copy_wasm_write:
  assumes "unat off + unat siz < 2 ^ 32"
    and "separate buf (unat siz) (INPUT_CHANNEL_ADDR + of_nat (unat off)) (unat siz)"
  shows "copy_wasm m buf off siz = write_bytes m buf (read_bytes m (INPUT_CHANNEL_ADDR + of_nat (unat off)) (unat siz))"
proof -
  have "copy_wasm m buf off siz
      = fold (\<lambda>i m. m(buf + of_nat i := m (INPUT_CHANNEL_ADDR + of_nat (unat off) + of_nat i))) [0..<unat siz] m"
    unfolding copy_wasm_def
    by (rule fold_cong) (use assms(1) in \<open>auto simp: u32_index add.assoc\<close>)
  then show ?thesis using copy_loop_write [OF assms(2)] unsigned_less [of siz, where ?'a = nat] by simp
qed

text \<open>All of it for any number of arguments: the offset only counts those that fit the array.\<close>

lemma request_parsed:
  assumes "in_channel m (encode_request name args code)" "length name \<le> 128" "length args < 2 ^ 16"
    and "length code < 2 ^ 31" "length stack = 16"
    and "separate buf (length code) (INPUT_CHANNEL_ADDR + of_nat (args_at name + 4 * min 16 (length args))) (length code)"
  shows "let hdr = read_input_header m; (f, off) = read_func_name m (hdr_func_name_len hdr);
             (argc, argv, off) = read_args m off (hdr_argc hdr) stack
         in f = name @ [0] \<and> argc = of_nat (min 16 (length args)) \<and> argv = take 16 args @ drop (min 16 (length args)) stack
            \<and> read_bytes (copy_wasm m buf off (hdr_wasm_size hdr)) buf (length code)
                = take (length code) (concat (map (le_bytes 4) (drop 16 args)) @ code)"
proof -
  let ?k = "min 16 (length args)"
  obtain off where f: "read_func_name m (of_nat (length name)) = (name @ [0], off)" "unat off = args_at name"
    using encoded_name [OF assms(1,2)] by (metis prod.collapse)
  have a: "read_args m off (of_nat (length args)) stack = (of_nat ?k, take ?k args @ drop ?k stack, off + of_nat (4 * ?k))"
    by (rule encoded_args) (use assms f in auto)
  have siz: "unat (of_nat (length code) :: u32) = length code"
    using assms(4) by (simp add: unsigned_of_nat take_bit_nat_eq_self)
  have "args_at name \<le> 144" using assms(2) by (simp add: args_at_def)
  then have off: "unat (off + of_nat (4 * ?k)) = args_at name + 4 * ?k"
  proof -
    have "unat (of_nat (4 * ?k) :: u32) = 4 * ?k"
      by (simp add: unsigned_of_nat take_bit_nat_eq_self del: of_nat_mult)
    then show ?thesis using f(2) \<open>args_at name \<le> 144\<close> by (simp add: unat_word_ariths del: of_nat_mult)
  qed
  have "copy_wasm m buf (off + of_nat (4 * ?k)) (of_nat (length code))
      = write_bytes m buf (read_bytes m (INPUT_CHANNEL_ADDR + of_nat (args_at name + 4 * ?k)) (length code))"
    by (subst copy_wasm_write) (use assms(4,6) off siz \<open>args_at name \<le> 144\<close> in simp_all)
  moreover have "read_bytes m (INPUT_CHANNEL_ADDR + of_nat (args_at name + 4 * ?k)) (length code)
      = take (length code) (concat (map (le_bytes 4) (drop 16 args)) @ code)"
    using encoded_rest [OF assms(1), of ?k "length code"] by (cases "length args \<le> 16") (auto simp: min_def)
  moreover have "length (take (length code) (concat (map (le_bytes 4) (drop 16 args)) @ code)) = length code" by simp
  ultimately have "read_bytes (copy_wasm m buf (off + of_nat (4 * ?k)) (of_nat (length code))) buf (length code)
      = take (length code) (concat (map (le_bytes 4) (drop 16 args)) @ code)"
    using read_write_bytes [of "take (length code) (concat (map (le_bytes 4) (drop 16 args)) @ code)" m buf] assms(4)
    by simp
  then show ?thesis by (simp add: encoded_header [OF assms(1)] f a) (simp add: min_def)
qed

section \<open>Termination of the loop\<close>

lemma main_loop_run:
  "(main_next e stack)\<^sup>*\<^sup>* p q \<Longrightarrow> main_step e stack q = None \<Longrightarrow> main_loop e stack p = Some q"
proof (induction rule: converse_rtranclp_induct)
  case base
  then show ?case by (simp add: main_loop.simps)
next
  case (step y z)
  then show ?case by (simp add: main_loop.simps [of e stack y] main_next_def)
qed

lemma main_loop_Some:
  "main_loop e stack p = Some q \<Longrightarrow> (main_next e stack)\<^sup>*\<^sup>* p q \<and> main_step e stack q = None"
proof (rule main_loop.raw_induct [where P = "\<lambda>e stack p q. (main_next e stack)\<^sup>*\<^sup>* p q \<and> main_step e stack q = None"])
  fix f and e :: "'x env" and stack p q
  assume IH: "\<And>e stack p q. f e stack p = Some q \<Longrightarrow> (main_next e stack)\<^sup>*\<^sup>* p q \<and> main_step e stack q = None"
    and "(case main_step e stack p of None \<Rightarrow> Some p | Some p \<Rightarrow> f e stack p) = Some q"
  then show "(main_next e stack)\<^sup>*\<^sup>* p q \<and> main_step e stack q = None"
    by (auto simp: main_next_def split: option.splits intro: converse_rtranclp_into_rtranclp)
qed

lemma main_cleanup_released:
  assumes "main_inv e p"
  shows "g_module (wl (main_cleanup e p)) = NULL \<and> g_wasm_buf (main_cleanup e p) = NULL
    \<and> \<not> g_runtime_initialized (wl (main_cleanup e p))
    \<and> (\<not> mpk_isolation e \<or> dead (g_module_domain (wl (main_cleanup e p))))
    \<and> (\<exists>t. mach (wl (main_cleanup e p)) = pal_svsm_exit (svsm_of e) 0 t)"
proof -
  define q where "q = (if g_wasm_buf p \<noteq> NULL then free_wasm_buf e (p\<lparr>wl := wasmlet_unload_module e (wl p)\<rparr>) else p)"
  have q: "wasmlet_inv e (wl q)" "g_wasm_buf q = NULL"
    using drop_module_inv [OF assms] by (simp_all add: q_def main_inv_def)
  let ?w = "wasmlet_runtime_destroy e (wl q)"
  have w: "wasmlet_inv e ?w" "\<not> g_runtime_initialized ?w" "g_module ?w = NULL"
    using wasmlet_destroy_inv [OF q(1)] by simp_all
  have "main_cleanup e p = on_machine (pal_svsm_exit (svsm_of e) 0) (q\<lparr>wl := ?w\<rparr>)"
    by (simp add: main_cleanup_def q_def Let_def)
  then show ?thesis using w q(2) by (cases "mpk_isolation e") (auto simp: on_machine_def wasmlet_inv_def)
qed

section \<open>Properties\<close>

text \<open>
  C8: every request that is not a shutdown is answered: when the monitor is told to fetch the
  result, the output channel holds a status and a result, the result being 0 after a failure.  A
  name of bad length gives 1 and a call without a module gives 5, both without touching the module;
  otherwise a module is loaded afterwards exactly for success and for a failed call.
\<close>
theorem request_answered:
  assumes "main_step e stack p = Some p'" "main_inv e p"
  shows "\<exists>status result. answered e status result p' \<and> (status = 0 \<or> result = 0)
    \<and> (let hdr = read_input_header (mem (mach (wl p)))
       in if hdr_func_name_len hdr = 0 \<or> MAX_FUNC_NAME_LEN < hdr_func_name_len hdr
          then status = 1 \<and> g_module (wl p') = g_module (wl p) \<and> g_wasm_buf p' = g_wasm_buf p
          else if hdr_wasm_size hdr = 0 \<and> g_module (wl p) = NULL
          then status = 5 \<and> g_module (wl p') = NULL \<and> g_wasm_buf p' = NULL
          else status \<in> {0, 2, 3, 4} \<and> (g_module (wl p') \<noteq> NULL \<longleftrightarrow> status = 0 \<or> status = 4))"
proof -
  define hdr where "hdr = read_input_header (mem (mach (wl p)))"
  have go: "\<not> (hdr_wasm_size hdr = 0 \<and> hdr_func_name_len hdr = 0)"
    using assms(1) by (auto simp: main_step_def Let_def hdr_def split: if_splits)
  have buf: "g_wasm_buf p = NULL \<longleftrightarrow> g_module (wl p) = NULL" using assms(2) by (simp add: main_inv_def)
  show ?thesis
  proof (cases "hdr_func_name_len hdr = 0 \<or> MAX_FUNC_NAME_LEN < hdr_func_name_len hdr")
    case True
    then have "p' = respond e 1 0 p" using assms(1) go by (auto simp: main_step_def Let_def hdr_def)
    then show ?thesis using True respond_answered [of e 1 0 p] unfolding Let_def hdr_def by auto
  next
    case name: False
    show ?thesis
    proof (cases "hdr_wasm_size hdr = 0")
      case False
      then have "p' = mode_load e stack hdr p"
        using assms(1) name go by (auto simp: main_step_def Let_def hdr_def word_greater_zero_iff)
      then show ?thesis
        using mode_load_answered [OF assms(2) False, of stack] name False unfolding Let_def hdr_def by auto
    next
      case True
      then have p': "p' = mode_invoke e stack hdr p"
        using assms(1) name go by (auto simp: main_step_def Let_def hdr_def)
      show ?thesis
      proof (cases "g_module (wl p) = NULL")
        case True
        then have "p' = respond e 5 0 p" using p' buf by (simp add: mode_invoke_def)
        then show ?thesis using True buf name \<open>hdr_wasm_size hdr = 0\<close> respond_answered [of e 5 0 p]
          unfolding Let_def hdr_def by auto
      next
        case False
        then obtain n c a where "p' = invoke_request e n c a p"
          using p' buf by (auto simp: mode_invoke_def case_prod_unfold Let_def)
        then show ?thesis
          using False name invoke_request_answered [OF assms(2), of n c a] unfolding Let_def hdr_def by fastforce
      qed
    qed
  qed
qed

text \<open>
  C10: a request laid out as the protocol says, with at most 16 arguments, is read back exactly:
  the terminated name, the argument count, the arguments, and the bytecode as it is copied into
  the heap buffer.
\<close>
theorem request_roundtrip:
  assumes "in_channel m (encode_request name args code)" "length name \<le> 128" "length args \<le> 16"
    and "length code < 2 ^ 31" "length stack = 16"
    and "separate buf (length code) (INPUT_CHANNEL_ADDR + of_nat (args_at name + 4 * length args)) (length code)"
  shows "let hdr = read_input_header m; (f, off) = read_func_name m (hdr_func_name_len hdr);
             (argc, argv, off) = read_args m off (hdr_argc hdr) stack
         in f = name @ [0] \<and> argc = of_nat (length args) \<and> take (length args) argv = args
            \<and> read_bytes (copy_wasm m buf off (hdr_wasm_size hdr)) buf (length code) = code"
  using request_parsed [OF assms(1,2) _ assms(4,5), of buf] assms(3,6) by (simp add: case_prod_unfold Let_def)

text \<open>
  with more than 16 arguments the surplus is taken for the beginning of the bytecode: the
  buffer that is loaded starts with the encoded arguments from the seventeenth on.
\<close>
theorem surplus_args_shift_code:
  assumes "in_channel m (encode_request name args code)" "length name \<le> 128" "16 < length args" "length args < 2 ^ 16"
    and "length code < 2 ^ 31" "length stack = 16"
    and "separate buf (length code) (INPUT_CHANNEL_ADDR + of_nat (args_at name + 64)) (length code)"
  shows "let hdr = read_input_header m; (f, off) = read_func_name m (hdr_func_name_len hdr);
             (argc, argv, off) = read_args m off (hdr_argc hdr) stack
         in argc = 16 \<and> argv = take 16 args
            \<and> read_bytes (copy_wasm m buf off (hdr_wasm_size hdr)) buf (length code)
                = take (length code) (concat (map (le_bytes 4) (drop 16 args)) @ code)"
  using request_parsed [OF assms(1,2,4-6), of buf] assms(3,6,7) by (simp add: case_prod_unfold Let_def)

text \<open>
  C12: from a successful initialisation on, whatever requests arrive and whatever the monitor,
  dlmalloc and WAMR answer, a module is loaded exactly when its buffer is kept, and in the build
  with protection keys it then owns the one live domain, with the default heap current between
  requests.
\<close>
theorem main_loop_inv:
  assumes "main_init e (pal_start s) = (True, p)" "(main_next e stack)\<^sup>*\<^sup>* p q"
  shows "g_runtime_initialized (wl q) \<and> (g_wasm_buf q = NULL \<longleftrightarrow> g_module (wl q) = NULL)
    \<and> (\<not> mpk_isolation e
       \<or> keys_inv (g_mpk (wl q)) [g_module_domain (wl q)] \<and> regions_inv (g_mpk (wl q)) [g_module_domain (wl q)]
         \<and> (dead (g_module_domain (wl q)) \<longleftrightarrow> g_module (wl q) = NULL)
         \<and> g_current_msp (g_mpk (wl q)) = g_default_msp (g_mpk (wl q)))"
  using main_next_inv [OF assms(2)] main_init_inv [OF assms(1)]
  by (auto simp: main_inv_def wasmlet_inv_def mpk_inv_def)

text \<open>
  C16: the program stops serving exactly when a shutdown request arrives, after any number of other
  requests; it then has unloaded the module, freed its buffer, destroyed the runtime and the
  domain, and makes its exit trap.
\<close>
theorem main_returns_after_shutdown:
  assumes "main_init e (pal_start s) = (True, p)"
  shows "wamr_pal_main e stack (pal_start s) = Some r
    \<longleftrightarrow> (\<exists>q. (main_next e stack)\<^sup>*\<^sup>* p q \<and> main_step e stack q = None \<and> r = main_cleanup e q)
        \<and> g_module (wl r) = NULL \<and> g_wasm_buf r = NULL \<and> \<not> g_runtime_initialized (wl r)
        \<and> (\<not> mpk_isolation e \<or> dead (g_module_domain (wl r)))
        \<and> (\<exists>t. mach (wl r) = pal_svsm_exit (svsm_of e) 0 t)"
proof -
  have inv: "main_inv e q" if "(main_next e stack)\<^sup>*\<^sup>* p q" for q
    using main_next_inv [OF that] main_init_inv [OF assms] by blast
  have "wamr_pal_main e stack (pal_start s) = Some r
      \<longleftrightarrow> (\<exists>q. main_loop e stack p = Some q \<and> r = main_cleanup e q)"
    using assms by (auto simp: wamr_pal_main_def)
  also have "\<dots> \<longleftrightarrow> (\<exists>q. (main_next e stack)\<^sup>*\<^sup>* p q \<and> main_step e stack q = None \<and> r = main_cleanup e q)"
    using main_loop_run main_loop_Some by metis
  finally show ?thesis using main_cleanup_released inv by metis
qed

text \<open>
  The machine of the witnesses: the memory is zero except for the channel, whose name length is \<open>c\<close>
  after the start.
\<close>

definition demo_machine :: "byte \<Rightarrow> unit machine" where
  "demo_machine c = \<lparr>mem = (\<lambda>_. 0)(0x28000000004 := c), world = ()\<rparr>"

lemma memset_zero_same:
  assumes "\<not> in_range p (unat n) 0x28000000004"
  shows "snd (memset (mem (demo_machine c)) p 0 n) = mem (demo_machine c)"
  using assms by (auto simp: memset_write write_bytes_fun demo_machine_def in_range_def fun_eq_iff)

lemma demo_heap_init:
  "pal_heap_init granting_svsm first_fit_dl heap_start (demo_machine c)
     = (0, \<lparr>g_mspace = HEAP_BASE_ADDR, g_heap_initialized = True\<rparr>, demo_machine c)"
proof -
  have "snd (memset (mem (demo_machine c)) HEAP_BASE_ADDR 0 HEAP_SIZE) = mem (demo_machine c)"
    by (rule memset_zero_same) (simp add: in_range_def HEAP_BASE_ADDR_def HEAP_SIZE_def)
  then show ?thesis
    by (simp add: pal_heap_init_def heap_start_def granting_calls first_fit_dl_def HEAP_BASE_ADDR_def)
qed

lemma demo_mpk_init:
  "\<exists>g. mpk_allocator_init granting_svsm first_fit_dl mpk_start (demo_machine c) = (0, g, demo_machine c)"
proof -
  have "snd (memset (mem (demo_machine c)) 0x6000000000 0 0x400000) = mem (demo_machine c)"
    by (rule memset_zero_same) (simp add: in_range_def)
  then show ?thesis
    by (simp add: mpk_allocator_init_def mpk_start_def pkey_pool_init_def PKEY_POOL_SIZE_def granting_calls
        mpk_region_map_def DEFAULT_HEAP_SIZE_def MPK_REGION_BASE_def align_up_def create_tracked_mspace_def
        first_fit_dl_def PKEY_POOL_MAX_def Let_def)
qed

lemma granting_exit: "pal_svsm_exit granting_svsm c s = s"
  "pal_svsm_get_result granting_svsm s = s" "pal_svsm_inflate_channel granting_svsm c n s = (0, s)"
  by (simp_all add: pal_svsm_exit_def pal_svsm_get_result_def pal_svsm_inflate_channel_def monitor_call_def
      granting_svsm_def call4_def)

lemma demo_main_init:
  "\<exists>p. main_init demo_env (pal_start (demo_machine c)) = (True, p) \<and> mach (wl p) = demo_machine c"
proof -
  obtain g where g: "mpk_allocator_init granting_svsm first_fit_dl mpk_start (demo_machine c) = (0, g, demo_machine c)"
    using demo_mpk_init by blast
  show ?thesis
    by (simp add: main_init_def pal_start_def wasmlet_start_def demo_env_def demo_heap_init
        wasmlet_runtime_init_def allocator_init_def g RegisterMpkAllocatorForWAMR_def demo_wamr_def
        on_machine_def granting_exit)
qed

text \<open>A call of the loaded module, and a loading request, in the channel.\<close>

definition demo_request :: "nat \<Rightarrow> byte list \<Rightarrow> mem" where
  "demo_request n code = write_bytes (\<lambda>_. 0) INPUT_CHANNEL_ADDR (encode_request [102] (replicate n 7) code)"

lemma demo_request_in_channel:
  "n \<le> 100 \<Longrightarrow> length code \<le> 100 \<Longrightarrow> in_channel (demo_request n code) (encode_request [102] (replicate n 7) code)"
proof -
  assume n: "n \<le> 100" "length code \<le> 100"
  have "length (encode_request [102] (replicate n 7) code) \<le> 2 ^ 64"
    using n by (simp add: encode_request_def del: le_bytes.simps map_replicate)
  then show ?thesis unfolding in_channel_def demo_request_def by (rule read_write_bytes)
qed

definition demo_pal :: "unit pal" where
  "demo_pal = \<lparr>wl = demo_loaded\<lparr>mach := \<lparr>mem = demo_request 2 [], world = ()\<rparr>\<rparr>, g_wasm_buf = 0x4000000010\<rparr>"

lemma demo_pal_inv: "main_inv demo_env demo_pal"
  using demo_loaded_inv
  by (simp add: main_inv_def demo_pal_def wasmlet_inv_mach) (simp add: demo_loaded_def)

theorem request_answered_witness:
  "\<exists>p' status result. main_step demo_env (\<lambda>_. replicate 16 0) demo_pal = Some p'
     \<and> answered demo_env status result p' \<and> (status = 0 \<or> result = 0)
     \<and> status \<in> {0, 2, 3, 4} \<and> (g_module (wl p') \<noteq> NULL \<longleftrightarrow> status = 0 \<or> status = 4)"
proof -
  have m: "mem (mach (wl demo_pal)) = demo_request 2 []" by (simp add: demo_pal_def)
  have hdr: "read_input_header (mem (mach (wl demo_pal)))
      = \<lparr>hdr_wasm_size = 0, hdr_func_name_len = 1, hdr_argc = 2, hdr_reserved = 0\<rparr>"
    unfolding m using encoded_header [OF demo_request_in_channel [of 2 "[]"]] by simp
  then obtain p' where p': "main_step demo_env (\<lambda>_. replicate 16 0) demo_pal = Some p'"
    by (cases "main_step demo_env (\<lambda>_. replicate 16 0) demo_pal")
      (auto simp: main_step_def Let_def split: if_splits)
  have loaded: "g_module (wl demo_pal) \<noteq> NULL" by (simp add: demo_pal_def demo_loaded_def)
  show ?thesis
    using request_answered [OF p' demo_pal_inv] p' loaded by (auto simp: hdr MAX_FUNC_NAME_LEN_def)
qed

theorem request_roundtrip_witness:
  "let m = demo_request 2 [0, 97, 115, 109]; hdr = read_input_header m;
       (f, off) = read_func_name m (hdr_func_name_len hdr);
       (argc, argv, off) = read_args m off (hdr_argc hdr) (replicate 16 0)
   in f = [102] @ [0] \<and> argc = of_nat (length (replicate 2 (7 :: u32)))
      \<and> take (length (replicate 2 (7 :: u32))) argv = replicate 2 7
      \<and> read_bytes (copy_wasm m 0x4000000000 off (hdr_wasm_size hdr)) 0x4000000000
          (length [0 :: byte, 97, 115, 109]) = [0, 97, 115, 109]"
  unfolding Let_def [of "demo_request 2 [0, 97, 115, 109]"]
  by (rule request_roundtrip [OF demo_request_in_channel])
    (simp_all add: separate_def args_at_def INPUT_CHANNEL_ADDR_def)

theorem surplus_args_shift_code_witness:
  "let m = demo_request 17 [0, 97, 115, 109]; hdr = read_input_header m;
       (f, off) = read_func_name m (hdr_func_name_len hdr);
       (argc, argv, off) = read_args m off (hdr_argc hdr) (replicate 16 0)
   in argc = 16 \<and> argv = take 16 (replicate 17 7)
      \<and> read_bytes (copy_wasm m 0x4000000000 off (hdr_wasm_size hdr)) 0x4000000000
          (length [0 :: byte, 97, 115, 109])
        = take (length [0 :: byte, 97, 115, 109])
            (concat (map (le_bytes 4) (drop 16 (replicate 17 (7 :: u32)))) @ [0, 97, 115, 109])"
  unfolding Let_def [of "demo_request 17 [0, 97, 115, 109]"]
  by (rule surplus_args_shift_code [OF demo_request_in_channel])
    (simp_all add: separate_def args_at_def INPUT_CHANNEL_ADDR_def)

lemma read_bytes_4: "read_bytes m p 4 = [m p, m (p + 1), m (p + 2), m (p + 3)]"
  by (simp add: numeral_eq_Suc add.assoc)

theorem main_loop_inv_witness:
  "\<exists>p q. main_init demo_env (pal_start (demo_machine 200)) = (True, p) \<and> main_next demo_env (\<lambda>_. []) p q
     \<and> g_runtime_initialized (wl q) \<and> (g_wasm_buf q = NULL \<longleftrightarrow> g_module (wl q) = NULL)
     \<and> keys_inv (g_mpk (wl q)) [g_module_domain (wl q)]"
proof -
  obtain p where p: "main_init demo_env (pal_start (demo_machine 200)) = (True, p)" "mach (wl p) = demo_machine 200"
    using demo_main_init by blast
  have "hdr_func_name_len (read_input_header (mem (demo_machine 200))) = 200"
    by (simp add: read_input_header_def load32_def demo_machine_def INPUT_CHANNEL_ADDR_def read_bytes_4)
  then obtain q where q: "main_next demo_env (\<lambda>_. []) p q"
    using p(2) by (auto simp: main_next_def main_step_def Let_def MAX_FUNC_NAME_LEN_def)
  have "mpk_isolation demo_env" by (simp add: demo_env_def)
  then show ?thesis using main_loop_inv [OF p(1) r_into_rtranclp, OF q] p q by blast
qed

theorem main_returns_after_shutdown_witness:
  "\<exists>r. wamr_pal_main demo_env (\<lambda>_. []) (pal_start (demo_machine 0)) = Some r
     \<and> g_module (wl r) = NULL \<and> g_wasm_buf r = NULL \<and> \<not> g_runtime_initialized (wl r)
     \<and> dead (g_module_domain (wl r))"
proof -
  obtain p where p: "main_init demo_env (pal_start (demo_machine 0)) = (True, p)" "mach (wl p) = demo_machine 0"
    using demo_main_init by blast
  have "main_step demo_env (\<lambda>_. []) p = None"
    by (simp add: main_step_def p(2) read_input_header_def load32_def demo_machine_def read_bytes_4)
  then have "wamr_pal_main demo_env (\<lambda>_. []) (pal_start (demo_machine 0)) = Some (main_cleanup demo_env p)"
    using p(1) by (simp add: wamr_pal_main_def main_loop.simps)
  moreover have "mpk_isolation demo_env" by (simp add: demo_env_def)
  ultimately show ?thesis using main_returns_after_shutdown [OF p(1)] by blast
qed

end
